(* ===== verification/Prelude.thy ===== *)
theory Prelude
  imports Main "HOL-Library.Word" "HOL-Library.Signed_Division"
begin

text \<open>
  Shared ground of the development: the machine integer types, the status codes every
  component returns (\<open>components/ocs_status\<close>), the early-return macros as a sequencing
  combinator, the faults that stop the firmware (a failed \<^verbatim>\<open>configASSERT\<close>, undefined
  behaviour), and the little-endian layout of the integers that are persisted byte for byte.
\<close>

unbundle bit_operations_syntax

section \<open>Machine integers\<close>

type_synonym u8 = "8 word"
type_synonym u16 = "16 word"
type_synonym u32 = "32 word"
type_synonym u64 = "64 word"

text \<open>A buffer of \<^verbatim>\<open>uint8_t\<close>.\<close>

type_synonym bytes = "u8 list"

text \<open>
  \<^verbatim>\<open>core::Time\<close> is \<^verbatim>\<open>int64_t\<close> microseconds. Signed overflow is undefined in C++, so a
  time is an integer; \<open>time_ok\<close> says that it fits.
\<close>

type_synonym time = int

definition time_ok :: "time \<Rightarrow> bool" where
  "time_ok t \<longleftrightarrow> - (2 ^ 63) \<le> t \<and> t < 2 ^ 63"

definition microsecond :: time where "microsecond = 1"
definition millisecond :: time where "millisecond = 1000 * microsecond"
definition second :: time where "second = 1000 * millisecond"
definition minute :: time where "minute = 60 * second"
definition hour :: time where "hour = 60 * minute"

lemma unat_u8_less [simp]: "unat (b :: u8) < 256"
  and unat_u16_less [simp]: "unat (h :: u16) < 65536"
  and unat_u32_less [simp]: "unat (w :: u32) < 4294967296"
  and unat_u64_less [simp]: "unat (d :: u64) < 18446744073709551616"
proof -
  have "unat b < 2 ^ LENGTH(8)" "unat h < 2 ^ LENGTH(16)"
    "unat w < 2 ^ LENGTH(32)" "unat d < 2 ^ LENGTH(64)"
    by (rule unsigned_less)+
  then show "unat b < 256" "unat h < 65536" "unat w < 4294967296"
    "unat d < 18446744073709551616" by simp_all
qed

text \<open>Casts that lose nothing.\<close>

lemma unat_ucast_small:
  "unat (x :: 'a::len word) < 2 ^ LENGTH('b) \<Longrightarrow> unat (ucast x :: 'b::len word) = unat x"
  by (simp add: unsigned_ucast_eq unsigned_take_bit_eq take_bit_nat_eq_self)

lemma sint_ucast_small:
  assumes "unat (x :: 'a::len word) < 2 ^ (LENGTH('b) - 1)"
  shows "sint (ucast x :: 'b::len word) = int (unat x)"
proof -
  have "unat x < 2 ^ LENGTH('b)" using assms by (rule order.strict_trans2) simp
  then have u: "uint (ucast x :: 'b word) = int (unat x)"
    using unat_ucast_small [of x] by (metis uint_nat)
  have "int (unat x) < 2 ^ (LENGTH('b) - 1)" using assms by (metis of_nat_less_iff of_nat_numeral of_nat_power)
  moreover have "- (2 ^ (LENGTH('b) - 1)) \<le> int (unat x)" by (rule order_trans [of _ 0]) simp_all
  ultimately show ?thesis by (simp only: sint_uint u) (rule signed_take_bit_int_eq_self, simp_all)
qed

section \<open>Status codes and faults\<close>

datatype status_code =
    OK | Error | NoData | NoMem | IsrYield | InvalidArg | InvalidState | Timeout | Last

fun code_to_str :: "status_code \<Rightarrow> string" where
  "code_to_str OK = ''OK''"
| "code_to_str Error = ''Error''"
| "code_to_str NoData = ''NoData''"
| "code_to_str NoMem = ''NoMem''"
| "code_to_str IsrYield = ''IsrYield''"
| "code_to_str InvalidArg = ''InvalidArg''"
| "code_to_str InvalidState = ''InvalidState''"
| "code_to_str Timeout = ''Timeout''"
| "code_to_str Last = ''<none>''"

text \<open>
  What ends the program instead of returning: a failed \<^verbatim>\<open>configASSERT\<close> (FreeRTOS stops the
  task and the device resets) and the undefined behaviours a definition can reach.
\<close>

datatype fault = AssertFailed | OutOfBounds | DivByZero | Dangling

type_synonym 'a checked = "fault + 'a"

text \<open>
  \<^verbatim>\<open>esp_err_t\<close>: success, the one error the code tells apart, and every other error.
\<close>

datatype esp_err = ESP_OK | ESP_ERR_NVS_NOT_FOUND | ESP_ERR_OTHER nat

text \<open>
  \<^verbatim>\<open>OCS_STATUS_RETURN_ON_ERROR\<close>: run one call, return its code at once unless it is \<open>OK\<close>,
  and otherwise go on. A body that is a sequence of such calls and ends with
  \<^verbatim>\<open>return StatusCode::OK\<close> is \<open>run_steps\<close> on the list of its calls.
\<close>

type_synonym 'w step = "'w \<Rightarrow> status_code \<times> 'w"

definition and_then :: "'w step \<Rightarrow> 'w step \<Rightarrow> 'w step" where
  "and_then m k w = (case m w of (c, w') \<Rightarrow> if c = OK then k w' else (c, w'))"

fun run_steps :: "'w step list \<Rightarrow> 'w step" where
  "run_steps [] w = (OK, w)"
| "run_steps (m # ms) w = and_then m (run_steps ms) w"

text \<open>
  \<^verbatim>\<open>OCS_STATUS_RETURN_ON_FALSE\<close>: return the given code unless the condition holds.
\<close>

definition return_on_false :: "bool \<Rightarrow> status_code \<Rightarrow> 'w step \<Rightarrow> 'w step" where
  "return_on_false x code k w = (if \<not> x then (code, w) else k w)"

lemma and_then_OK [simp]: "m w = (OK, w') \<Longrightarrow> and_then m k w = k w'"
  by (simp add: and_then_def)

lemma and_then_err: "m w = (c, w') \<Longrightarrow> c \<noteq> OK \<Longrightarrow> and_then m k w = (c, w')"
  by (simp add: and_then_def)

lemma and_then_eq_OK:
  "and_then m k w = (OK, w') \<longleftrightarrow> (\<exists>v. m w = (OK, v) \<and> k v = (OK, w'))"
  by (auto simp: and_then_def split: prod.splits if_splits)

lemma run_steps_append:
  "run_steps (xs @ ys) w = and_then (run_steps xs) (run_steps ys) w"
proof (induction xs arbitrary: w)
  case Nil
  show ?case by (simp add: and_then_def)
next
  case (Cons m xs)
  then show ?case by (auto simp: and_then_def split: prod.splits)
qed

text \<open>An invariant of the world kept by every call is kept by the sequence, however it ends.\<close>

lemma run_steps_invariant:
  assumes "\<And>m w. m \<in> set ms \<Longrightarrow> P w \<Longrightarrow> P (snd (m w))" and "P w"
  shows "P (snd (run_steps ms w))"
  using assms
proof (induction ms arbitrary: w)
  case Nil
  then show ?case by simp
next
  case (Cons m ms)
  have "P (snd (m w))" using Cons.prems by simp
  then have "P (snd (run_steps ms (snd (m w))))"
    using Cons.IH Cons.prems(1) by simp
  with \<open>P (snd (m w))\<close> show ?case
    by (auto simp: and_then_def split: prod.splits)
qed

section \<open>Little-endian layout\<close>

text \<open>
  Both ESP32 cores are little-endian: the object representation of an unsigned integer of
  \<open>n\<close> bytes is its base-256 digits, least significant first.
\<close>

fun le_bytes :: "nat \<Rightarrow> nat \<Rightarrow> bytes" where
  "le_bytes 0 v = []"
| "le_bytes (Suc n) v = of_nat v # le_bytes n (v div 256)"

fun le_value :: "bytes \<Rightarrow> nat" where
  "le_value [] = 0"
| "le_value (b # bs) = unat b + 256 * le_value bs"

lemma length_le_bytes [simp]: "length (le_bytes n v) = n"
  by (induction n arbitrary: v) auto

lemma le_value_le_bytes: "v < 256 ^ n \<Longrightarrow> le_value (le_bytes n v) = v"
proof (induction n arbitrary: v)
  case 0
  then show ?case by simp
next
  case (Suc n)
  then have "v div 256 < 256 ^ n"
    by (simp add: less_mult_imp_div_less mult.commute)
  with Suc.IH have "le_value (le_bytes n (v div 256)) = v div 256" .
  then show ?case by (simp add: unat_of_nat)
qed

lemma le_value_bound: "le_value bs < 256 ^ length bs"
proof (induction bs)
  case Nil
  show ?case by simp
next
  case (Cons b bs)
  have "unat b < 256" by simp
  moreover have "le_value bs + 1 \<le> 256 ^ length bs" using Cons by simp
  ultimately have "unat b + 256 * le_value bs < 256 * 256 ^ length bs" by linarith
  then show ?case by simp
qed

lemma le_bytes_le_value: "le_bytes (length bs) (le_value bs) = bs"
proof (induction bs)
  case Nil
  show ?case by simp
next
  case (Cons b bs)
  have b: "unat b < 256" by simp
  have "unat (of_nat (unat b + 256 * le_value bs) :: u8) = unat b"
    by (simp add: unat_of_nat b del: of_nat_add)
  then have "(of_nat (unat b + 256 * le_value bs) :: u8) = b"
    by (simp only: word_unat_eq_iff)
  moreover have "(unat b + 256 * le_value bs) div 256 = le_value bs"
    using b by simp
  ultimately show ?case using Cons by simp
qed

text \<open>Object representations of the variables that the components persist.\<close>

definition u16_bytes :: "u16 \<Rightarrow> bytes" where "u16_bytes x = le_bytes 2 (unat x)"
definition u16_of_bytes :: "bytes \<Rightarrow> u16" where "u16_of_bytes bs = of_nat (le_value bs)"
definition u32_bytes :: "u32 \<Rightarrow> bytes" where "u32_bytes x = le_bytes 4 (unat x)"
definition u32_of_bytes :: "bytes \<Rightarrow> u32" where "u32_of_bytes bs = of_nat (le_value bs)"
definition u64_bytes :: "u64 \<Rightarrow> bytes" where "u64_bytes x = le_bytes 8 (unat x)"
definition u64_of_bytes :: "bytes \<Rightarrow> u64" where "u64_of_bytes bs = of_nat (le_value bs)"
definition time_bytes :: "time \<Rightarrow> bytes" where
  "time_bytes t = u64_bytes (word_of_int t)"
definition time_of_bytes :: "bytes \<Rightarrow> time" where
  "time_of_bytes bs = sint (u64_of_bytes bs)"

lemma length_u16_bytes [simp]: "length (u16_bytes x) = 2"
  and length_u32_bytes [simp]: "length (u32_bytes y) = 4"
  and length_u64_bytes [simp]: "length (u64_bytes z) = 8"
  and length_time_bytes [simp]: "length (time_bytes t) = 8"
  by (simp_all add: u16_bytes_def u32_bytes_def u64_bytes_def time_bytes_def)

lemma u16_of_bytes_u16_bytes [simp]: "u16_of_bytes (u16_bytes x) = x"
  by (simp add: u16_of_bytes_def u16_bytes_def le_value_le_bytes)

lemma u32_of_bytes_u32_bytes [simp]: "u32_of_bytes (u32_bytes x) = x"
  by (simp add: u32_of_bytes_def u32_bytes_def le_value_le_bytes)

lemma u64_of_bytes_u64_bytes [simp]: "u64_of_bytes (u64_bytes x) = x"
  by (simp add: u64_of_bytes_def u64_bytes_def le_value_le_bytes)

lemma time_of_bytes_time_bytes [simp]: "time_ok t \<Longrightarrow> time_of_bytes (time_bytes t) = t"
  by (simp add: time_of_bytes_def time_bytes_def time_ok_def int_word_sint)

lemma time_ok_time_of_bytes [simp]: "time_ok (time_of_bytes bs)"
  using sint_ge [of "u64_of_bytes bs"] sint_lt [of "u64_of_bytes bs"]
  by (simp add: time_of_bytes_def time_ok_def)

section \<open>Lists and maps\<close>

named_theorems registry_simps

text \<open>Appending under a fresh key to a list with distinct keys.\<close>

lemma distinct_map_snoc [registry_simps]:
  "distinct (map f (xs @ [x])) \<longleftrightarrow> distinct (map f xs) \<and> f x \<notin> f ` set xs"
  by auto

end
