(* ===== verification/Algo.thy ===== *)
theory Algo
  imports Prelude
begin

text \<open>
  Bit and checksum routines of \<open>components/ocs_algo\<close>: \<^verbatim>\<open>BitOps\<close> (bit_ops.cpp) and
  \<^verbatim>\<open>CrcOps\<close> (crc_ops.cpp). The checksum lemmas give what the sensors rely on: appending the
  checksum makes the remainder zero, and a frame with one corrupted byte is always rejected.
\<close>

section \<open>BitOps\<close>

lemma word_neq_0_bit: "(w :: 'a::len word) \<noteq> 0 \<longleftrightarrow> (\<exists>n. bit w n)"
proof
  assume "w \<noteq> 0"
  then show "\<exists>n. bit w n" by (metis bit_0_eq bit_word_eqI bot_apply bot_bool_def)
qed auto

text \<open>\<^verbatim>\<open>unsigned\<close> and \<^verbatim>\<open>unsigned long\<close> have 32 bits on the ESP32.\<close>

definition BitOps_mask :: "u8 \<Rightarrow> u32" where
  "BitOps_mask pos = push_bit (unat pos) 1"

definition BitOps_umask :: "u8 \<Rightarrow> u32" where
  "BitOps_umask pos = NOT (BitOps_mask pos)"

definition BitOps_nth :: "u32 \<Rightarrow> u8 \<Rightarrow> u8" where
  "BitOps_nth value pos = (if BitOps_mask pos AND value \<noteq> 0 then 1 else 0)"

definition BitOps_pack_u8 :: "u8 \<Rightarrow> u8 \<Rightarrow> u16" where
  "BitOps_pack_u8 hi lo = push_bit 8 (ucast hi) OR ucast lo"

definition BitOps_pack_u16 :: "u16 \<Rightarrow> u16 \<Rightarrow> u32" where
  "BitOps_pack_u16 hi lo = push_bit 16 (ucast hi) OR ucast lo"

definition BitOps_unpack_u8 :: "u16 \<Rightarrow> u8 \<times> u8" where
  "BitOps_unpack_u8 value =
     (ucast (drop_bit 8 (value AND 0xFF00)), ucast (value AND 0x00FF))"

lemma bit_BitOps_mask: "bit (BitOps_mask pos) n \<longleftrightarrow> n = unat pos \<and> n < 32"
  unfolding BitOps_mask_def bit_push_bit_iff bit_1_iff possible_bit_word by auto

lemma bit_BitOps_umask: "bit (BitOps_umask pos) n \<longleftrightarrow> n \<noteq> unat pos \<and> n < 32"
  by (auto simp: BitOps_umask_def bit_not_iff bit_BitOps_mask)

lemma BitOps_nth_bit: "BitOps_nth value pos = (if bit value (unat pos) then 1 else 0)"
proof -
  have "BitOps_mask pos AND value \<noteq> 0 \<longleftrightarrow> (\<exists>n. bit (BitOps_mask pos AND value) n)"
    by (rule word_neq_0_bit)
  also have "\<dots> \<longleftrightarrow> bit value (unat pos)"
    by (auto simp: bit_and_iff bit_BitOps_mask dest: bit_imp_le_length)
  finally show ?thesis by (simp add: BitOps_nth_def)
qed

lemma BitOps_nth_01: "BitOps_nth value pos \<in> {0, 1}"
  by (simp add: BitOps_nth_def)

lemma bit_pack_u8:
  "bit (BitOps_pack_u8 hi lo) n \<longleftrightarrow> (if n < 8 then bit lo n else bit hi (n - 8) \<and> n < 16)"
  by (auto simp: BitOps_pack_u8_def bit_or_iff bit_push_bit_iff bit_ucast_iff
      dest: bit_imp_le_length)

lemma unat_pack_u8: "unat (BitOps_pack_u8 hi lo) = 256 * unat hi + unat lo"
proof -
  have disj: "push_bit 8 (ucast hi :: u16) AND ucast lo = 0"
    by (rule bit_eqI) (auto simp: bit_and_iff bit_push_bit_iff bit_ucast_iff
        dest: bit_imp_le_length)
  have "BitOps_pack_u8 hi lo = push_bit 8 (ucast hi) + ucast lo"
    by (simp add: BitOps_pack_u8_def disjunctive_add_eq_or disj)
  also have "\<dots> = (of_nat (256 * unat hi + unat lo) :: u16)"
    by (simp add: push_bit_eq_mult unsigned_of_nat mult.commute)
  finally have "unat (BitOps_pack_u8 hi lo) = (256 * unat hi + unat lo) mod 65536"
    by (simp add: unat_of_nat del: of_nat_add of_nat_mult)
  moreover have "256 * unat hi + unat lo < 65536"
    using unat_u8_less [of hi] unat_u8_less [of lo] by linarith
  ultimately show ?thesis by simp
qed

lemma unpack_pack_u8: "BitOps_unpack_u8 (BitOps_pack_u8 hi lo) = (hi, lo)"
proof -
  have "bit (0xFF00 :: u16) n \<longleftrightarrow> 8 \<le> n \<and> n < 16" for n
  proof -
    have eq: "(0xFF00 :: u16) = push_bit 8 (mask 8)" by (simp add: mask_eq_exp_minus_1)
    show ?thesis unfolding eq bit_push_bit_iff bit_mask_iff possible_bit_word by auto
  qed
  moreover have "bit (0x00FF :: u16) n \<longleftrightarrow> n < 8" for n
  proof -
    have eq: "(0x00FF :: u16) = mask 8" by (simp add: mask_eq_exp_minus_1)
    show ?thesis unfolding eq bit_mask_iff possible_bit_word by auto
  qed
  ultimately show ?thesis
    by (auto simp: BitOps_unpack_u8_def bit_eq_iff bit_ucast_iff bit_drop_bit_eq bit_and_iff
        bit_pack_u8 dest: bit_imp_le_length)
qed

section \<open>CrcOps\<close>

datatype BitOrder = LSB | MSB

text \<open>The body of the inner loop, for one bit.\<close>

definition crc8_bit :: "BitOrder \<Rightarrow> u8 \<Rightarrow> u8 \<Rightarrow> u8" where
  "crc8_bit order polynomial crc =
     (let bit_set = (case order of LSB \<Rightarrow> crc AND 0x01 \<noteq> 0 | MSB \<Rightarrow> crc AND 0x80 \<noteq> 0)
      in if bit_set
         then (case order of LSB \<Rightarrow> drop_bit 1 crc XOR polynomial
                           | MSB \<Rightarrow> (push_bit 1 crc XOR polynomial) AND 0xFF)
         else (case order of LSB \<Rightarrow> drop_bit 1 crc
                           | MSB \<Rightarrow> push_bit 1 crc AND 0xFF))"

fun crc8_bits :: "BitOrder \<Rightarrow> u8 \<Rightarrow> nat \<Rightarrow> u8 \<Rightarrow> u8" where
  "crc8_bits order polynomial 0 crc = crc"
| "crc8_bits order polynomial (Suc k) crc =
     crc8_bits order polynomial k (crc8_bit order polynomial crc)"

text \<open>The outer loop over the buffer; \<open>size\<close> is the length of the list.\<close>

fun crc8 :: "bytes \<Rightarrow> u8 \<Rightarrow> u8 \<Rightarrow> BitOrder \<Rightarrow> u8" where
  "crc8 [] initial polynomial order = initial"
| "crc8 (b # buf) initial polynomial order =
     crc8 buf (crc8_bits order polynomial 8 (initial XOR b)) polynomial order"

lemma and_1_bit: "(crc :: u8) AND 0x01 \<noteq> 0 \<longleftrightarrow> bit crc 0"
  by (simp add: and_one_eq odd_iff_mod_2_eq_one bit_0)

lemma and_80_bit: "(crc :: u8) AND 0x80 \<noteq> 0 \<longleftrightarrow> bit crc 7"
proof -
  have eq: "(0x80 :: u8) = push_bit 7 1" by simp
  have "crc AND push_bit 7 1 \<noteq> 0 \<longleftrightarrow> (\<exists>n. bit (crc AND push_bit 7 1) n)"
    by (rule word_neq_0_bit)
  also have "\<dots> \<longleftrightarrow> bit crc 7"
    unfolding bit_and_iff bit_push_bit_iff bit_1_iff possible_bit_word by auto
  finally show ?thesis unfolding eq .
qed

lemma and_FF [simp]: "(x :: u8) AND 0xFF = x"
proof -
  have "(0xFF :: u8) = mask 8" by (simp add: mask_eq_exp_minus_1)
  then show ?thesis
    by (auto simp: bit_eq_iff bit_and_iff bit_mask_iff dest: bit_imp_le_length)
qed

text \<open>One step, bit by bit: a shift, and the polynomial when the bit shifted out is set.\<close>

lemma bit_crc8_bit_LSB:
  "bit (crc8_bit LSB p c) n \<longleftrightarrow> bit c (Suc n) \<noteq> (bit c 0 \<and> bit p n)"
  by (simp add: crc8_bit_def and_1_bit bit_xor_iff bit_drop_bit_eq)

lemma bit_crc8_bit_MSB:
  "bit (crc8_bit MSB p c) n \<longleftrightarrow>
     (0 < n \<and> n < 8 \<and> bit c (n - 1)) \<noteq> (bit c 7 \<and> bit p n)"
  unfolding crc8_bit_def Let_def BitOrder.case and_80_bit and_FF if_distrib [of "\<lambda>w. bit w n"]
    bit_xor_iff bit_push_bit_iff possible_bit_word
  by auto

lemma crc8_bit_xor: "crc8_bit ord p (a XOR b) = crc8_bit ord p a XOR crc8_bit ord p b"
  by (cases ord)
    (rule bit_eqI, auto simp: bit_crc8_bit_LSB bit_crc8_bit_MSB bit_xor_iff)+

lemma crc8_bits_xor:
  "crc8_bits ord p k (a XOR b) = crc8_bits ord p k a XOR crc8_bits ord p k b"
  by (induction k arbitrary: a b) (simp_all add: crc8_bit_xor)

lemma crc8_bit_0 [simp]: "crc8_bit ord p 0 = 0"
  by (cases ord) (simp_all add: crc8_bit_def)

lemma crc8_bits_0 [simp]: "crc8_bits ord p k 0 = 0"
  by (induction k) simp_all

lemma crc8_append:
  "crc8 (xs @ ys) i p ord = crc8 ys (crc8 xs i p ord) p ord"
  by (induction xs arbitrary: i) simp_all

text \<open>
  A polynomial whose term of the register's lowest degree is present makes each step
  injective: the bit shifted out leaves its mark in the bit shifted in.
\<close>

definition crc8_regular :: "BitOrder \<Rightarrow> u8 \<Rightarrow> bool" where
  "crc8_regular ord p = (case ord of LSB \<Rightarrow> bit p 7 | MSB \<Rightarrow> bit p 0)"

lemma crc8_bit_eq_0:
  assumes "crc8_regular ord p" and "crc8_bit ord p c = 0"
  shows "c = 0"
proof (cases ord)
  case LSB
  have bits: "\<not> bit (crc8_bit LSB p c) n" for n using assms(2) LSB by simp
  have "\<not> bit c 8" by (auto dest: bit_imp_le_length)
  then have "\<not> bit c 0"
    using bits [of 7] assms(1) LSB by (simp add: bit_crc8_bit_LSB crc8_regular_def)
  moreover from this have "\<not> bit c (Suc n)" for n
    using bits [of n] by (simp add: bit_crc8_bit_LSB)
  ultimately have "\<not> bit c n" for n by (cases n) simp_all
  then show ?thesis by (simp add: bit_eq_iff)
next
  case MSB
  have bits: "\<not> bit (crc8_bit MSB p c) n" for n using assms(2) MSB by simp
  have top: "\<not> bit c 7"
    using bits [of 0] assms(1) MSB by (simp add: bit_crc8_bit_MSB crc8_regular_def)
  have "\<not> bit c n" for n
  proof (cases "n < 7")
    case True
    then show ?thesis using bits [of "Suc n"] top by (simp add: bit_crc8_bit_MSB)
  next
    case False
    then show ?thesis
      using top by (cases "n = 7") (auto dest: bit_imp_le_length)
  qed
  then show ?thesis by (simp add: bit_eq_iff)
qed

lemma crc8_bits_eq_0: "crc8_regular ord p \<Longrightarrow> crc8_bits ord p k c = 0 \<Longrightarrow> c = 0"
  by (induction k arbitrary: c) (auto dest: crc8_bit_eq_0)

lemma crc8_bits_inj:
  assumes "crc8_regular ord p" and "crc8_bits ord p k a = crc8_bits ord p k b"
  shows "a = b"
proof -
  have "crc8_bits ord p k (a XOR b) = 0" using assms(2) by (simp add: crc8_bits_xor)
  then have "a XOR b = 0" using assms(1) crc8_bits_eq_0 by blast
  then have "(a XOR b) XOR b = b" by simp
  then show ?thesis by (simp add: xor.assoc)
qed

lemma crc8_initial_inj:
  "crc8_regular ord p \<Longrightarrow> crc8 xs i p ord = crc8 xs j p ord \<Longrightarrow> i = j"
proof (induction xs arbitrary: i j)
  case Nil
  then show ?case by simp
next
  case (Cons x xs)
  then have "crc8_bits ord p 8 (i XOR x) = crc8_bits ord p 8 (j XOR x)" by simp
  then have "i XOR x = j XOR x" using Cons.prems(1) crc8_bits_inj by blast
  then have "(i XOR x) XOR x = (j XOR x) XOR x" by simp
  then show ?case by (simp add: xor.assoc)
qed

lemma crc8_byte_neq:
  assumes "crc8_regular ord p" and "b \<noteq> b'"
  shows "crc8 (xs @ b # ys) i p ord \<noteq> crc8 (xs @ b' # ys) i p ord"
proof
  let ?c = "crc8 xs i p ord"
  assume "crc8 (xs @ b # ys) i p ord = crc8 (xs @ b' # ys) i p ord"
  then have "crc8 ys (crc8_bits ord p 8 (?c XOR b)) p ord
      = crc8 ys (crc8_bits ord p 8 (?c XOR b')) p ord"
    by (simp add: crc8_append)
  then have "crc8_bits ord p 8 (?c XOR b) = crc8_bits ord p 8 (?c XOR b')"
    using assms(1) crc8_initial_inj by blast
  then have "?c XOR b = ?c XOR b'" using assms(1) crc8_bits_inj by blast
  then have "?c XOR (?c XOR b) = ?c XOR (?c XOR b')" by simp
  then show False using assms(2) by (simp flip: xor.assoc)
qed

lemma crc8_self: "crc8 (buf @ [crc8 buf i p ord]) i p ord = 0"
  by (simp add: crc8_append del: crc8_bits.simps)

lemma bit_word_reverse_u8: "bit (word_reverse (w :: u8)) n \<longleftrightarrow> n < 8 \<and> bit w (7 - n)"
  by (auto simp: bit_word_reverse_iff)

lemma word_reverse_xor_u8:
  "word_reverse (a XOR b :: u8) = word_reverse a XOR word_reverse b"
  by (rule bit_eqI) (auto simp: bit_word_reverse_u8 bit_xor_iff)

lemma crc8_bit_reverse:
  "crc8_bit LSB (word_reverse p) (word_reverse c) = word_reverse (crc8_bit MSB p c)"
proof (rule bit_eqI)
  fix n
  show "bit (crc8_bit LSB (word_reverse p) (word_reverse c)) n
      = bit (word_reverse (crc8_bit MSB p c)) n"
    by (cases "n < 8")
      (auto simp: bit_crc8_bit_LSB bit_crc8_bit_MSB bit_word_reverse_u8 Suc_diff_Suc)
qed

lemma crc8_bits_reverse:
  "crc8_bits LSB (word_reverse p) k (word_reverse c) = word_reverse (crc8_bits MSB p k c)"
  by (induction k arbitrary: c) (simp_all add: crc8_bit_reverse)

text \<open>
  A frame is checked by comparing the checksum of its bytes with the stored one. When the
  polynomial is regular for the bit order (both polynomials used by the drivers are), no
  corruption of a single byte, at any position and of any of its bits, keeps the checksum.
\<close>

theorem crc8_detects_corrupted_byte:
  "crc8_regular ord p \<Longrightarrow> b \<noteq> b' \<Longrightarrow>
     crc8 (xs @ b # ys) i p ord \<noteq> crc8 (xs @ b' # ys) i p ord"
  by (rule crc8_byte_neq)

theorem crc8_detects_corrupted_byte_witness:
  "crc8 ([0x28] @ 0x10 # [0x33]) 0 0x8C LSB \<noteq> crc8 ([0x28] @ 0x12 # [0x33]) 0 0x8C LSB"
proof -
  have "bit (0x8C :: u8) 7" by (simp add: bit_numeral_rec eval_nat_numeral)
  then have "crc8_regular LSB 0x8C" by (simp add: crc8_regular_def)
  from crc8_detects_corrupted_byte [OF this, of "0x10" "0x12" "[0x28]" "[0x33]" 0]
  show ?thesis by simp
qed

text \<open>
  C26. The two bit orders compute the same function up to reversal: the least significant bit
  first checksum of the reversed bytes under the reversed polynomial is the reversal of the most
  significant bit first checksum.
\<close>

theorem crc8_LSB_MSB_equivalence:
  "crc8 (map word_reverse buf) (word_reverse i) (word_reverse p) LSB
     = word_reverse (crc8 buf i p MSB)"
proof (induction buf arbitrary: i)
  case Nil
  then show ?case by simp
next
  case (Cons b buf)
  show ?case
    by (simp add: crc8_bits_reverse Cons.IH flip: word_reverse_xor_u8 del: crc8_bits.simps)
qed

end
