(* ===== verification/Strings.thy ===== *)
theory Strings
  imports Prelude
begin

text \<open>
  The text routines of \<open>components/ocs_algo\<close>: \<^verbatim>\<open>StringOps::split\<close> (string_ops.cpp),
  \<^verbatim>\<open>UriOps::parse_path\<close> and \<^verbatim>\<open>UriOps::parse_query\<close> (uri_ops.cpp).

  A C string is the list \<open>s\<close> of its characters before the terminating NUL; a
  \<^verbatim>\<open>const char*\<close> into it is an index, the terminator being at index \<open>length s\<close>. A
  \<^verbatim>\<open>std::string_view\<close> into it is the pair of its start and its length: the code computes the
  length as a pointer difference converted to the 32-bit \<^verbatim>\<open>size_t\<close>, so it wraps when the
  difference is negative, and such a view reaches past the terminator.
\<close>

section \<open>C strings and views\<close>

type_synonym view = "nat \<times> nat"

definition char_at :: "string \<Rightarrow> nat \<Rightarrow> char" where
  "char_at s i = (if i < length s then s ! i else CHR 0x00)"

definition strchr :: "char \<Rightarrow> string \<Rightarrow> nat \<Rightarrow> nat option" where
  "strchr c s i =
     (let k = i + length (takeWhile (\<lambda>x. x \<noteq> c) (drop i s))
      in if k < length s then Some k else if c = CHR 0x00 then Some (length s) else None)"

definition size_t :: "int \<Rightarrow> nat" where
  "size_t d = nat (d mod 2 ^ 32)"

definition view_ok :: "string \<Rightarrow> view \<Rightarrow> bool" where
  "view_ok s v = (fst v + snd v \<le> length s)"

definition view_str :: "string \<Rightarrow> view \<Rightarrow> string" where
  "view_str s v = take (snd v) (drop (fst v) s)"

definition nul_free :: "string \<Rightarrow> bool" where
  "nul_free s \<longleftrightarrow> CHR 0x00 \<notin> set s"

lemma strchr_append:
  assumes "c \<notin> set xs" and "c \<noteq> CHR 0x00"
  shows "strchr c (pre @ xs @ c # rest) (length pre) = Some (length pre + length xs)"
proof -
  have "takeWhile (\<lambda>x. x \<noteq> c) (xs @ c # rest) = xs"
    using assms(1) by (induction xs) auto
  then show ?thesis by (simp add: strchr_def)
qed

lemma strchr_None:
  assumes "c \<notin> set xs" and "c \<noteq> CHR 0x00"
  shows "strchr c (pre @ xs) (length pre) = None"
proof -
  have "takeWhile (\<lambda>x. x \<noteq> c) xs = xs" using assms(1) by (induction xs) auto
  with assms(2) show ?thesis by (simp add: strchr_def del: takeWhile_eq_all_conv)
qed

lemma strchr_bounds: "strchr c s i = Some k \<Longrightarrow> i \<le> length s \<Longrightarrow> i \<le> k \<and> k \<le> length s"
  by (auto simp: strchr_def Let_def split: if_splits)

lemma strchr_ge: "strchr c s i = Some k \<Longrightarrow> i \<le> length s \<Longrightarrow> i \<le> k"
  by (simp add: strchr_bounds)

lemma size_t_of_nat [simp]: "n < 2 ^ 32 \<Longrightarrow> size_t (int n) = n"
  by (simp add: size_t_def)

lemma view_str_middle [simp]:
  "view_str (pre @ xs @ post) (length pre, length xs) = xs"
  by (simp add: view_str_def)

section \<open>StringOps::split\<close>

text \<open>
  \<open>s\<close> is the memory from the first character of the view to the terminator, \<open>n\<close> the size of
  the view, so the last character of the view, \<^verbatim>\<open>value.back()\<close>, is at \<open>n - 1\<close>. The view need
  not end where the C string does. Reading past the terminator is the fault \<open>OutOfBounds\<close>.
\<close>

function split_loop :: "char \<Rightarrow> string \<Rightarrow> nat \<Rightarrow> nat \<Rightarrow> view list \<Rightarrow> view list checked" where
  "split_loop delimiter s n start values =
     (if length s < start then Inl OutOfBounds
      else if start = n - 1 then
        Inr (if char_at s start \<noteq> delimiter then values @ [(start, 1)] else values)
      else
        (case strchr delimiter s start of
           None \<Rightarrow>
             Inr (if values \<noteq> [] then values @ [(start, size_t (int n - int start))]
                  else values)
         | Some e \<Rightarrow>
             (let values' = (if char_at s start \<noteq> delimiter
                             then values @ [(start, size_t (int e - int start))] else values)
              in if e = n - 1 then Inr values'
                 else split_loop delimiter s n (Suc e) values')))"
  by pat_completeness auto
termination
  by (relation "measure (\<lambda>(d, s, n, start, vs). Suc (length s) - start)")
    (auto dest: strchr_bounds)

declare split_loop.simps [simp del]

definition StringOps_split :: "char \<Rightarrow> string \<Rightarrow> nat \<Rightarrow> view list checked" where
  "StringOps_split delimiter s n = (if n < 2 then Inr [] else split_loop delimiter s n 0 [])"

text \<open>
  The specification: the maximal runs of characters other than the delimiter. \<open>tokens\<close>
  carries the run read so far.
\<close>

fun tokens :: "char \<Rightarrow> string \<Rightarrow> string \<Rightarrow> string list" where
  "tokens d cur [] = (if cur = [] then [] else [cur])"
| "tokens d cur (c # cs) =
     (if c = d then (if cur = [] then tokens d [] cs else cur # tokens d [] cs)
      else tokens d (cur @ [c]) cs)"

lemma tokens_run: "d \<notin> set xs \<Longrightarrow> tokens d cur (xs @ ys) = tokens d (cur @ xs) ys"
  by (induction xs arbitrary: cur) auto

lemma tokens_last: "d \<notin> set xs \<Longrightarrow> tokens d [] xs = (if xs = [] then [] else [xs])"
  using tokens_run [of d xs "[]" "[]"] by simp

lemma tokens_delim:
  "d \<notin> set xs \<Longrightarrow> tokens d [] (xs @ d # ys) = (if xs = [] then [] else [xs]) @ tokens d [] ys"
  by (simp add: tokens_run)

text \<open>
  The loop over a view that is a whole C string: the views it adds read as the tokens of what
  is left, with one exception, the last token, which is dropped when no token came before it and
  it has more than one character.
\<close>

definition split_rest :: "char \<Rightarrow> bool \<Rightarrow> string \<Rightarrow> string list" where
  "split_rest d any rest =
     (if \<not> any \<and> d \<notin> set (dropWhile (\<lambda>c. c = d) rest)
         \<and> 1 < length (dropWhile (\<lambda>c. c = d) rest)
      then [] else tokens d [] rest)"

lemma split_rest_any [simp]: "split_rest d True rest = tokens d [] rest"
  by (simp add: split_rest_def)

lemma split_rest_delim [simp]: "split_rest d any (d # rest) = split_rest d any rest"
  by (simp add: split_rest_def)

lemma split_rest_run:
  assumes "d \<notin> set xs" and "xs \<noteq> []"
  shows "split_rest d any (xs @ d # ys) = xs # tokens d [] ys"
proof -
  from assms(2) obtain x xs' where x: "xs = x # xs'" by (cases xs) auto
  with assms(1) have "x \<noteq> d" by auto
  with x have "dropWhile (\<lambda>c. c = d) (xs @ d # ys) = xs @ d # ys" by simp
  then show ?thesis using assms by (simp add: split_rest_def tokens_delim)
qed

lemma split_rest_last:
  assumes "d \<notin> set xs"
  shows "split_rest d any xs
    = (if xs = [] then [] else if any \<or> length xs = 1 then [xs] else [])"
proof (cases xs)
  case Nil
  then show ?thesis by (simp add: split_rest_def)
next
  case (Cons x ys)
  with assms have "x \<noteq> d" by auto
  with Cons have "dropWhile (\<lambda>c. c = d) xs = xs" by simp
  with assms tokens_last [OF assms] show ?thesis
    using Cons by (cases ys) (simp_all add: split_rest_def)
qed

lemma run_cases:
  obtains (last) "d \<notin> set rest" | (run) xs ys where "d \<notin> set xs" "rest = xs @ d # ys"
  by (metis split_list_first)

lemma split_loop_run:
  assumes "s = pre @ xs @ d # ys" and "d \<notin> set xs" and "d \<noteq> CHR 0x00"
    and "length s < 2 ^ 32" and "xs = [] \<longrightarrow> ys \<noteq> []"
  shows "split_loop d s (length s) (length pre) vs =
    (let vs' = (if xs \<noteq> [] then vs @ [(length pre, length xs)] else vs)
     in if ys = [] then Inr vs' else split_loop d s (length s) (length pre + length xs + 1) vs')"
proof -
  have e: "strchr d s (length pre) = Some (length pre + length xs)"
    using assms(1,2,3) strchr_append by simp
  have sz: "size_t (int (length pre + length xs) - int (length pre)) = length xs"
    using assms(1,4) size_t_of_nat [of "length xs"] by simp
  have c: "char_at s (length pre) \<noteq> d \<longleftrightarrow> xs \<noteq> []"
    using assms(1,2) by (cases xs) (auto simp: char_at_def nth_append)
  have start: "length pre \<noteq> length s - 1"
    using assms(1,5) by (cases xs; cases ys) auto
  have last: "length pre + length xs = length s - 1 \<longleftrightarrow> ys = []"
    using assms(1) by (cases ys) auto
  have "length pre \<le> length s" using assms(1) by simp
  then show ?thesis
    using e sz c start last
    by (simp add: split_loop.simps [of d s "length s" "length pre" vs] Let_def)
qed

lemma split_loop_spec:
  assumes "s = pre @ rest" and "rest \<noteq> []" and "d \<noteq> CHR 0x00" and "length s < 2 ^ 32"
  shows "\<exists>ws. split_loop d s (length s) (length pre) vs = Inr (vs @ ws)
    \<and> map (view_str s) ws = split_rest d (vs \<noteq> []) rest \<and> list_all (view_ok s) ws"
  using assms(1,2)
proof (induction rest arbitrary: pre vs rule: length_induct)
  case (1 rest)
  have s: "s = pre @ rest" and ne: "rest \<noteq> []" using "1.prems" by auto
  show ?case
  proof (cases "length rest = 1")
    case True
    then obtain c where c: "rest = [c]" by (cases rest) auto
    have "split_loop d s (length s) (length pre) vs
        = Inr (vs @ (if c \<noteq> d then [(length pre, 1)] else []))"
      by (subst split_loop.simps) (simp add: s c char_at_def)
    then show ?thesis
      using s c by (cases "c = d") (simp_all add: split_rest_def view_str_def view_ok_def)
  next
    case False
    show ?thesis
    proof (rule run_cases [of d rest])
      assume nd: "d \<notin> set rest"
      have n: "strchr d s (length pre) = None" using s nd assms(3) strchr_None by simp
      have sz: "size_t (int (length s) - int (length pre)) = length rest"
        using s assms(4) size_t_of_nat [of "length rest"] by simp
      have start: "length pre \<noteq> length s - 1" using s False ne by (cases rest) auto
      have "length pre \<le> length s" using s by simp
      then have "split_loop d s (length s) (length pre) vs
          = Inr (vs @ (if vs \<noteq> [] then [(length pre, length rest)] else []))"
        by (subst split_loop.simps) (use n sz start in simp)
      then show ?thesis
        using s nd ne False
        by (cases "vs = []") (simp_all add: split_rest_last tokens_last view_str_def view_ok_def)
    next
      fix xs ys
      assume nd: "d \<notin> set xs" and rest: "rest = xs @ d # ys"
      let ?vs = "if xs \<noteq> [] then vs @ [(length pre, length xs)] else vs"
      have s': "s = pre @ xs @ d # ys" using s rest by simp
      have ne': "xs = [] \<longrightarrow> ys \<noteq> []" using False rest by auto
      have tok: "view_str s (length pre, length xs) = xs \<and> view_ok s (length pre, length xs)"
        using s' by (simp add: view_str_def view_ok_def)
      note run = split_loop_run [OF s' nd assms(3,4) ne', of vs]
      show ?thesis
      proof (cases "ys = []")
        case True
        then show ?thesis
          using run ne' tok rest nd
          by (auto simp: split_rest_run view_str_def)
      next
        case ys: False
        have "s = (pre @ xs @ [d]) @ ys" using s' by simp
        moreover have "length ys < length rest" using rest by simp
        ultimately obtain ws where ws:
          "split_loop d s (length s) (length (pre @ xs @ [d])) ?vs = Inr (?vs @ ws)"
          "map (view_str s) ws = split_rest d (?vs \<noteq> []) ys" "list_all (view_ok s) ws"
          using "1.IH" [rule_format, of ys "pre @ xs @ [d]" ?vs] ys by blast
        have eq: "split_loop d s (length s) (length pre) vs = Inr (?vs @ ws)"
          using run ys ws(1) by (simp add: Let_def)
        show ?thesis
        proof (cases "xs = []")
          case True
          then show ?thesis using eq ws(2,3) rest by auto
        next
          case False
          then have "map (view_str s) ((length pre, length xs) # ws)
              = split_rest d (vs \<noteq> []) rest"
            using ws(2) tok rest nd by (simp add: split_rest_run)
          then show ?thesis
            using eq ws(3) tok False
            by (intro exI [of _ "(length pre, length xs) # ws"]) simp
        qed
      qed
    qed
  qed
qed

text \<open>
  Three consecutive runs, in a memory that goes on after the view: the loop passes the end of
  the view when the view does not end in a one-character token.
\<close>

lemma split_loop_step:
  assumes "start \<le> length s" and "start \<noteq> n - 1" and "strchr d s start = Some e"
    and "e \<noteq> n - 1" and "char_at s start \<noteq> d"
  shows "split_loop d s n start vs
    = split_loop d s n (Suc e) (vs @ [(start, size_t (int e - int start))])"
  using assms by (subst split_loop.simps) (simp add: Let_def)

lemma split_loop_end:
  assumes "start \<le> length s" and "start \<noteq> n - 1" and "strchr d s start = None" and "vs \<noteq> []"
  shows "split_loop d s n start vs = Inr (vs @ [(start, size_t (int n - int start))])"
  using assms by (subst split_loop.simps) simp

lemma size_t_neg: "0 < k \<Longrightarrow> k < 2 ^ 32 \<Longrightarrow> size_t (- int k) = 2 ^ 32 - k"
proof -
  assume k: "0 < k" "k < 2 ^ 32"
  have "(- int k) mod 2 ^ 32 = (2 ^ 32 + - int k) mod 2 ^ 32"
    by (rule mod_add_self1 [symmetric])
  also have "\<dots> = 2 ^ 32 - int k" using k by (subst mod_pos_pos_trivial) simp_all
  finally show ?thesis by (simp add: size_t_def nat_diff_distrib)
qed

text \<open>
  C27. On a view that is a whole C string (\<open>n\<close> is its length), \<^verbatim>\<open>split\<close> returns exactly the
  non-empty runs between delimiters, as views inside the string. The exceptions the code makes are
  spelled out: a string of fewer than two characters gives nothing, and so does a string whose only
  run has more than one character and is not followed by a delimiter.
\<close>

theorem StringOps_split_tokens:
  assumes "d \<noteq> CHR 0x00" and "length s < 2 ^ 32"
  shows "\<exists>ws. StringOps_split d s (length s) = Inr ws \<and> list_all (view_ok s) ws
    \<and> map (view_str s) ws = (if length s < 2 then [] else split_rest d False s)"
proof (cases "length s < 2")
  case True
  then show ?thesis by (simp add: StringOps_split_def)
next
  case False
  then have "s \<noteq> []" by auto
  with False split_loop_spec [of s "[]" s d "[]"] assms show ?thesis
    by (auto simp: StringOps_split_def)
qed

theorem StringOps_split_tokens_witness:
  "\<exists>ws. StringOps_split CHR '':'' ''a:bc::d'' (length ''a:bc::d'') = Inr ws
    \<and> list_all (view_ok ''a:bc::d'') ws
    \<and> map (view_str ''a:bc::d'') ws = [''a'', ''bc'', ''d'']"
proof -
  have "CHR '':'' \<noteq> CHR 0x00" "length ''a:bc::d'' < 2 ^ 32" by simp_all
  from StringOps_split_tokens [OF this] show ?thesis by (simp add: split_rest_def)
qed

text \<open>
  A view that does not end at the terminator is read past its end: the search for the
  delimiter is bounded by the terminator only. For a view \<open>x d y\<close> followed in memory by
  \<open>post d z\<close> (a query value followed by another query field, say), the second view returned
  includes \<open>post\<close>, which is outside the argument, and the third has a wrapped length that reaches
  far past the end of the string.
\<close>

theorem StringOps_split_reads_past_view:
  assumes "d \<noteq> CHR 0x00" and "d \<notin> set x" and "d \<notin> set y" and "d \<notin> set post" and "d \<notin> set z"
    and "x \<noteq> []" and "2 \<le> length y" and "s = x @ d # y @ post @ d # z"
    and "n = length x + 1 + length y" and "length s < 2 ^ 32"
  shows "StringOps_split d s n = Inr
      [(0, length x), (length x + 1, length y + length post),
       (n + length post + 1, 2 ^ 32 - (length post + 1))]
    \<and> \<not> view_ok s (n + length post + 1, 2 ^ 32 - (length post + 1))"
proof -
  let ?k = "length x + 1" let ?e = "n + length post"
  have y: "y \<noteq> []" using assms(7) by auto
  have e1: "strchr d s 0 = Some (length x)"
    using strchr_append [OF assms(2,1), of "[]"] assms(8) by simp
  have e2: "strchr d s ?k = Some ?e"
    using strchr_append [of d "y @ post" "x @ [d]" z] assms by simp
  have e3: "strchr d s (?e + 1) = None"
    using strchr_None [of d z "x @ d # y @ post @ [d]"] assms by (simp add: add.assoc)
  have c1: "char_at s 0 \<noteq> d" using assms(2,6,8) by (cases x) (auto simp: char_at_def)
  have c2: "char_at s ?k \<noteq> d"
    using assms(3,7,8) by (cases y) (auto simp: char_at_def nth_append)
  have sz1: "size_t (int (length x) - int 0) = length x"
    using size_t_of_nat [of "length x"] assms(8,10) by simp
  have sz2: "size_t (int ?e - int ?k) = length y + length post"
    using size_t_of_nat [of "length y + length post"] assms(8,9,10) by simp
  have sz3: "size_t (int n - int (?e + 1)) = 2 ^ 32 - (length post + 1)"
    using size_t_neg [of "length post + 1"] assms(8,10) by simp
  have "split_loop d s n 0 [] = split_loop d s n (Suc (length x)) [(0, length x)]"
    using split_loop_step [of 0 s n d "length x" "[]"] e1 c1 sz1 y assms(6,7,9) by simp
  also have "\<dots> = split_loop d s n (Suc ?e)
      ([(0, length x)] @ [(?k, length y + length post)])"
    using split_loop_step [of ?k s n d ?e "[(0, length x)]"] e2 c2 sz2 assms(7,8,9) by simp
  also have "\<dots> = Inr (([(0, length x)] @ [(?k, length y + length post)])
      @ [(?e + 1, 2 ^ 32 - (length post + 1))])"
    using split_loop_end [of "?e + 1" s n d "[(0, length x)] @ [(?k, length y + length post)]"]
      e3 sz3 assms(8,9) by simp
  finally show ?thesis
    using y assms(8,9,10) by (simp add: StringOps_split_def view_ok_def)
qed

theorem StringOps_split_reads_past_view_witness:
  "StringOps_split CHR '':'' ''AA:BB&id=1:2'' 5
     = Inr [(0, 2), (3, 7), (11, 4294967290)]"
proof -
  have "''AA:BB&id=1:2'' = ''AA'' @ CHR '':'' # ''BB'' @ ''&id=1'' @ CHR '':'' # ''2''" by simp
  from StringOps_split_reads_past_view [OF _ _ _ _ _ _ _ this, of 5] show ?thesis by simp
qed

section \<open>UriOps\<close>

text \<open>A null \<^verbatim>\<open>uri\<close> is \<open>None\<close>. The path is a prefix of the URI and is returned as a string.\<close>

definition UriOps_parse_path :: "string option \<Rightarrow> string" where
  "UriOps_parse_path uri =
     (case uri of None \<Rightarrow> []
      | Some s \<Rightarrow> (case strchr CHR ''?'' s 0 of
                     Some query_start \<Rightarrow> view_str s (0, query_start)
                   | None \<Rightarrow> view_str s (0, length s)))"

text \<open>
  The map from keys to values is an \<^verbatim>\<open>unordered_map\<close> on string contents, whose \<^verbatim>\<open>emplace\<close>
  keeps the value that is already there. \<open>endp\<close> is the pointer \<^verbatim>\<open>end\<close>, the last character of the
  field, which is one before \<open>begin\<close> for an empty field.
\<close>

type_synonym uri_values = "string \<rightharpoonup> view"

definition emplace :: "uri_values \<Rightarrow> string \<Rightarrow> view \<Rightarrow> uri_values" where
  "emplace values key v = (if key \<in> dom values then values else values(key \<mapsto> v))"

definition parse_key_value :: "string \<Rightarrow> uri_values \<Rightarrow> nat \<Rightarrow> int \<Rightarrow> uri_values" where
  "parse_key_value s values begin endp =
     (case strchr CHR ''='' s begin of
        None \<Rightarrow> values
      | Some delimiter \<Rightarrow>
          if delimiter = begin \<or> int delimiter = endp then values
          else emplace values (view_str s (begin, delimiter - begin))
                 (delimiter + 1, size_t (endp - int delimiter)))"

function parse_query_loop :: "string \<Rightarrow> nat \<Rightarrow> uri_values \<Rightarrow> uri_values" where
  "parse_query_loop s query_start values =
     (if length s \<le> query_start then values
      else
        (case strchr CHR ''&'' s (Suc query_start) of
           None \<Rightarrow> parse_key_value s values (Suc query_start) (int (length s) - 1)
         | Some e \<Rightarrow>
             parse_query_loop s e (parse_key_value s values (Suc query_start) (int e - 1))))"
  by pat_completeness auto
termination
  by (relation "measure (\<lambda>(s, q, vs). length s - q)") (auto dest: strchr_ge)

declare parse_query_loop.simps [simp del]

definition UriOps_parse_query :: "string option \<Rightarrow> uri_values" where
  "UriOps_parse_query uri =
     (case uri of None \<Rightarrow> Map.empty
      | Some s \<Rightarrow> (case strchr CHR ''?'' s 0 of
                     None \<Rightarrow> Map.empty
                   | Some query_start \<Rightarrow> parse_query_loop s query_start Map.empty))"

text \<open>Printing a query: the fields joined with \<^verbatim>\<open>&\<close>.\<close>

type_synonym field = "string \<times> string"

definition field_str :: "field \<Rightarrow> string" where
  "field_str kv = fst kv @ CHR ''='' # snd kv"

fun query_str :: "field list \<Rightarrow> string" where
  "query_str [] = []"
| "query_str [kv] = field_str kv"
| "query_str (kv # kvs) = field_str kv @ CHR ''&'' # query_str kvs"

definition field_ok :: "field \<Rightarrow> bool" where
  "field_ok kv \<longleftrightarrow> fst kv \<noteq> [] \<and> snd kv \<noteq> [] \<and> CHR ''='' \<notin> set (fst kv)
     \<and> CHR ''&'' \<notin> set (fst kv) \<and> CHR ''&'' \<notin> set (snd kv)"

lemma parse_key_value_field:
  assumes "s = pre @ field_str kv @ post" and "field_ok kv" and "length s < 2 ^ 32"
  shows "parse_key_value s values (length pre) (int (length pre + length (field_str kv)) - 1)
    = emplace values (fst kv) (length pre + length (fst kv) + 1, length (snd kv))"
proof -
  have s: "s = pre @ fst kv @ CHR ''='' # snd kv @ post"
    using assms(1) by (simp add: field_str_def)
  have ok: "CHR ''='' \<notin> set (fst kv)" "fst kv \<noteq> []" "snd kv \<noteq> []"
    using assms(2) by (simp_all add: field_ok_def)
  have d: "strchr CHR ''='' s (length pre) = Some (length pre + length (fst kv))"
    using strchr_append [OF ok(1)] s by simp
  have endp: "int (length pre + length (field_str kv)) - 1
      = int (length pre + length (fst kv)) + int (length (snd kv))"
    by (simp add: field_str_def)
  have "length (snd kv) < 2 ^ 32" using s assms(3) by simp
  then have sz: "size_t (int (length (snd kv))) = length (snd kv)" by simp
  have k: "view_str s (length pre, length (fst kv)) = fst kv" using s by simp
  show ?thesis
    unfolding parse_key_value_def endp using d ok(2,3) sz k by simp
qed

lemma strchr_amp_field:
  assumes "s = pre @ c # field_str kv @ CHR ''&'' # rest" and "field_ok kv"
  shows "strchr CHR ''&'' s (Suc (length pre))
    = Some (Suc (length pre) + length (field_str kv))"
  using strchr_append [of "CHR ''&''" "field_str kv" "pre @ [c]" rest] assms
  by (auto simp: field_ok_def field_str_def)

lemma map_option_emplace:
  "map_option f (emplace m k v q)
     = (case map_option f (m q) of Some w \<Rightarrow> Some w | None \<Rightarrow> if q = k then Some (f v) else None)"
  by (auto simp: emplace_def split: option.splits)

lemma ran_emplace: "ran (emplace m k v) \<subseteq> ran m \<union> {v}"
  by (auto simp: emplace_def ran_def)

lemma parse_query_loop_fields:
  assumes "s = pre @ c # query_str kvs" and "list_all field_ok kvs" and "length s < 2 ^ 32"
  shows "map_option (view_str s) (parse_query_loop s (length pre) m q)
      = (case map_option (view_str s) (m q) of Some w \<Rightarrow> Some w | None \<Rightarrow> map_of kvs q)
    \<and> (\<forall>v \<in> ran (parse_query_loop s (length pre) m). v \<in> ran m \<or> view_ok s v)"
  using assms(1,2)
proof (induction kvs arbitrary: pre c m rule: query_str.induct)
  case 1
  have "strchr CHR ''&'' s (Suc (length pre)) = None"
    "strchr CHR ''='' s (Suc (length pre)) = None"
    using strchr_None [of _ "[]" s] "1.prems" by simp_all
  then have "parse_query_loop s (length pre) m = m"
    by (subst parse_query_loop.simps) (simp add: "1.prems" parse_key_value_def)
  then show ?case by (simp split: option.splits)
next
  case (2 kv)
  let ?v = "(length (pre @ [c]) + length (fst kv) + 1, length (snd kv))"
  have ok: "field_ok kv" and s: "s = (pre @ [c]) @ field_str kv @ []"
    using "2.prems" by simp_all
  have "strchr CHR ''&'' s (Suc (length pre)) = None"
    using strchr_None [of "CHR ''&''" "field_str kv" "pre @ [c]"] s ok
    by (auto simp: field_ok_def field_str_def)
  then have "parse_query_loop s (length pre) m = emplace m (fst kv) ?v"
    using parse_key_value_field [OF s ok assms(3), of m]
    by (subst parse_query_loop.simps) (simp add: s)
  moreover have "view_str s ?v = snd kv \<and> view_ok s ?v"
    using s by (simp add: field_str_def view_str_def view_ok_def)
  ultimately show ?case
    using ran_emplace [of m "fst kv" ?v]
    by (cases kv) (auto simp: map_option_emplace split: option.splits)
next
  case (3 kv kv2 kvs)
  let ?v = "(length (pre @ [c]) + length (fst kv) + 1, length (snd kv))"
  let ?pre = "pre @ c # field_str kv"
  have ok: "field_ok kv" and s: "s = ?pre @ CHR ''&'' # query_str (kv2 # kvs)"
    and s2: "s = (pre @ [c]) @ field_str kv @ (CHR ''&'' # query_str (kv2 # kvs))"
    using "3.prems" by simp_all
  have "strchr CHR ''&'' s (Suc (length pre)) = Some (length ?pre)"
    using strchr_amp_field [of s pre c kv] s ok by simp
  then have run: "parse_query_loop s (length pre) m
      = parse_query_loop s (length ?pre) (emplace m (fst kv) ?v)"
    using parse_key_value_field [OF s2 ok assms(3), of m]
    by (subst parse_query_loop.simps) (simp add: s)
  have v: "view_str s ?v = snd kv \<and> view_ok s ?v"
    using s by (simp add: field_str_def view_str_def view_ok_def)
  have "list_all field_ok (kv2 # kvs)" using "3.prems"(2) by simp
  from "3.IH" [OF s this, of "emplace m (fst kv) ?v"] show ?case
    using v ran_emplace [of m "fst kv" ?v] unfolding run
    by (cases kv) (auto simp: map_option_emplace split: option.splits)
qed

text \<open>The first value of a key stays.\<close>

lemma parse_key_value_keeps: "m k = Some v \<Longrightarrow> parse_key_value s m b endp k = Some v"
  by (auto simp: parse_key_value_def emplace_def split: option.splits)

lemma parse_query_loop_keeps: "m k = Some v \<Longrightarrow> parse_query_loop s q m k = Some v"
proof (induction s q m rule: parse_query_loop.induct)
  case (1 s q m)
  then show ?case
    by (subst parse_query_loop.simps) (auto simp: parse_key_value_keeps split: option.splits)
qed

text \<open>
  The value of a key without \<^verbatim>\<open>&\<close> lies inside the URI: only a key that swallowed a separator, from
  a field without \<^verbatim>\<open>=\<close>, has a value that does not.
\<close>

definition values_inside :: "string \<Rightarrow> uri_values \<Rightarrow> bool" where
  "values_inside s m \<longleftrightarrow> (\<forall>k v. m k = Some v \<longrightarrow> CHR ''&'' \<notin> set k \<longrightarrow> view_ok s v)"

lemma parse_key_value_inside:
  assumes "values_inside s m" and "begin \<le> e" and "e \<le> length s" and "e = length s \<or> s ! e = CHR ''&''"
    and "length s < 2 ^ 32"
  shows "values_inside s (parse_key_value s m begin (int e - 1))"
proof (cases "strchr CHR ''='' s begin")
  case None
  then show ?thesis using assms(1) by (simp add: parse_key_value_def)
next
  case (Some d)
  have d: "begin \<le> d" "d < length s" "s ! d = CHR ''=''"
  proof -
    let ?k = "begin + length (takeWhile (\<lambda>x. x \<noteq> CHR ''='') (drop begin s))"
    have k: "d = ?k" "?k < length s" using Some by (auto simp: strchr_def Let_def split: if_splits)
    then show "begin \<le> d" "d < length s" by simp_all
    have "drop begin s ! length (takeWhile (\<lambda>x. x \<noteq> CHR ''='') (drop begin s)) = CHR ''=''"
      using k nth_length_takeWhile [of "\<lambda>x. x \<noteq> CHR ''=''" "drop begin s"] by simp
    then show "s ! d = CHR ''=''" using k by simp
  qed
  have "view_ok s (d + 1, size_t (int e - 1 - int d))"
    if "CHR ''&'' \<notin> set (view_str s (begin, d - begin))"
  proof -
    have "d < e"
    proof (rule ccontr)
      assume "\<not> d < e"
      then have e: "e < d" "s ! e = CHR ''&''" using assms(4) d by (auto simp: less_le)
      then have "view_str s (begin, d - begin) ! (e - begin) = CHR ''&''"
        using assms(2) d(2) by (simp add: view_str_def)
      moreover have "e - begin < length (view_str s (begin, d - begin))"
        using e assms(2) d(2) by (simp add: view_str_def)
      ultimately show False using that by (metis nth_mem)
    qed
    then have "int e - 1 - int d = int (e - 1 - d)" by simp
    moreover have "e - 1 - d < 2 ^ 32" using assms(3,5) by linarith
    ultimately have "size_t (int e - 1 - int d) = e - 1 - d" by (metis size_t_of_nat)
    then show ?thesis using \<open>d < e\<close> assms(3) by (simp add: view_ok_def)
  qed
  then show ?thesis using assms(1) Some
    by (auto simp: parse_key_value_def emplace_def values_inside_def)
qed

lemma parse_query_loop_inside:
  "values_inside s m \<Longrightarrow> length s < 2 ^ 32 \<Longrightarrow> values_inside s (parse_query_loop s q m)"
proof (induction s q m rule: parse_query_loop.induct)
  case (1 s q m)
  show ?case
  proof (cases "length s \<le> q")
    case True
    then show ?thesis using 1(2) by (subst parse_query_loop.simps) simp
  next
    case q: False
    show ?thesis
    proof (cases "strchr CHR ''&'' s (Suc q)")
      case None
      then have "values_inside s (parse_key_value s m (Suc q) (int (length s) - 1))"
        using 1(2,3) q by (intro parse_key_value_inside) simp_all
      then show ?thesis using q None by (subst parse_query_loop.simps) simp
    next
      case (Some e)
      let ?k = "Suc q + length (takeWhile (\<lambda>x. x \<noteq> CHR ''&'') (drop (Suc q) s))"
      have e: "e = ?k" "?k < length s" using Some by (auto simp: strchr_def Let_def split: if_splits)
      have "drop (Suc q) s ! length (takeWhile (\<lambda>x. x \<noteq> CHR ''&'') (drop (Suc q) s)) = CHR ''&''"
        using e nth_length_takeWhile [of "\<lambda>x. x \<noteq> CHR ''&''" "drop (Suc q) s"] by simp
      then have "s ! e = CHR ''&''" using e by simp
      then have "values_inside s (parse_key_value s m (Suc q) (int e - 1))"
        using 1(2,3) e by (intro parse_key_value_inside) simp_all
      then show ?thesis using 1(1) [OF q Some] 1(3) q Some by (subst parse_query_loop.simps) simp
    qed
  qed
qed

lemma UriOps_parse_query_inside:
  "length uri < 2 ^ 32 \<Longrightarrow> values_inside uri (UriOps_parse_query (Some uri))"
  using parse_query_loop_inside [of uri Map.empty]
  by (auto simp: UriOps_parse_query_def values_inside_def split: option.splits)

lemma strchr_query:
  "CHR ''?'' \<notin> set path \<Longrightarrow> strchr CHR ''?'' (path @ CHR ''?'' # q) 0 = Some (length path)"
  using strchr_append [of "CHR ''?''" path "[]" q] by simp

text \<open>
  C14. For a URI made of a path and well-formed fields (non-empty key and value, no stray separator),
  parsing recovers the path and the fields: looking up a key gives the value of its first field, as a
  view that lies inside the URI.
\<close>

theorem UriOps_parse_roundtrip:
  assumes "CHR ''?'' \<notin> set path" and "list_all field_ok kvs"
    and "uri = path @ CHR ''?'' # query_str kvs" and "length uri < 2 ^ 32"
  shows "UriOps_parse_path (Some uri) = path
    \<and> map_option (view_str uri) (UriOps_parse_query (Some uri) q) = map_of kvs q
    \<and> (\<forall>v \<in> ran (UriOps_parse_query (Some uri)). view_ok uri v)"
proof -
  have q: "strchr CHR ''?'' uri 0 = Some (length path)"
    using strchr_query assms(1,3) by simp
  then have "UriOps_parse_path (Some uri) = path"
    by (simp add: UriOps_parse_path_def view_str_def assms(3))
  moreover have "UriOps_parse_query (Some uri) = parse_query_loop uri (length path) Map.empty"
    using q by (simp add: UriOps_parse_query_def)
  ultimately show ?thesis
    using parse_query_loop_fields [OF assms(3,2,4), of Map.empty q] by simp
qed

theorem UriOps_parse_roundtrip_witness:
  "UriOps_parse_path (Some ''/t?id=7&r=12&id=9'') = ''/t''
    \<and> map_option (view_str ''/t?id=7&r=12&id=9'')
        (UriOps_parse_query (Some ''/t?id=7&r=12&id=9'') ''id'') = Some ''7''"
proof -
  have "CHR ''?'' \<notin> set ''/t''"
    and "list_all field_ok [(''id'', ''7''), (''r'', ''12''), (''id'', ''9'')]"
    and "''/t?id=7&r=12&id=9''
      = ''/t'' @ CHR ''?'' # query_str [(''id'', ''7''), (''r'', ''12''), (''id'', ''9'')]"
    and "length ''/t?id=7&r=12&id=9'' < 2 ^ 32"
    by (simp_all add: field_ok_def field_str_def)
  from UriOps_parse_roundtrip [OF this, of "''id''"] show ?thesis by simp
qed

text \<open>
  A field without \<^verbatim>\<open>=\<close> breaks this: the search for \<^verbatim>\<open>=\<close> is not bounded by the end of the field.
  For \<open>path?flag&k=v\<close> the map gets an entry whose key spans the separator, \<open>flag&k\<close>, and whose
  value has a wrapped length of almost 4 GiB.
\<close>

theorem UriOps_parse_query_flag_overruns:
  assumes "CHR ''?'' \<notin> set path" and "CHR ''='' \<notin> set flag" and "CHR ''&'' \<notin> set flag"
    and "flag \<noteq> []" and "field_ok kv"
    and "uri = path @ CHR ''?'' # flag @ CHR ''&'' # field_str kv" and "length uri < 2 ^ 32"
  shows "\<exists>v. UriOps_parse_query (Some uri) (flag @ CHR ''&'' # fst kv) = Some v \<and> \<not> view_ok uri v"
proof -
  let ?q = "length path" let ?k = "flag @ CHR ''&'' # fst kv"
  let ?d = "Suc ?q + length ?k"
  have uri: "uri = (path @ [CHR ''?'']) @ ?k @ CHR ''='' # snd kv"
    using assms(6) by (simp add: field_str_def)
  have amp: "strchr CHR ''&'' uri (Suc ?q) = Some (Suc ?q + length flag)"
    using strchr_append [of "CHR ''&''" flag "path @ [CHR ''?'']" "field_str kv"] assms(3,6)
    by simp
  have "CHR ''='' \<notin> set ?k" using assms(2,5) by (auto simp: field_ok_def)
  from strchr_append [OF this, of "path @ [CHR ''?'']" "snd kv"]
  have eq: "strchr CHR ''='' uri (Suc ?q) = Some ?d" using uri by simp
  have key: "view_str uri (Suc ?q, length ?k) = ?k"
    using view_str_middle [of "path @ [CHR ''?'']" ?k "CHR ''='' # snd kv"] uri by simp
  let ?v = "(?d + 1, size_t (int (Suc ?q + length flag) - 1 - int ?d))"
  have "int (Suc ?q + length flag) - 1 - int ?d = - int (length (fst kv) + 2)" by simp
  moreover have "length (fst kv) + 2 < 2 ^ 32" using uri assms(7) by simp
  ultimately have sz: "size_t (int (Suc ?q + length flag) - 1 - int ?d)
      = 2 ^ 32 - (length (fst kv) + 2)"
    using size_t_neg [of "length (fst kv) + 2"] by (simp only:)
  have kv: "parse_key_value uri Map.empty (Suc ?q) (int (Suc ?q + length flag) - 1) = [?k \<mapsto> ?v]"
    unfolding parse_key_value_def eq using key by (simp add: emplace_def)
  have nle: "(length uri \<le> ?q) = False" using assms(6) by simp
  have "parse_query_loop uri ?q Map.empty
      = parse_query_loop uri (Suc ?q + length flag) [?k \<mapsto> ?v]"
    by (subst parse_query_loop.simps) (simp only: amp kv nle option.case if_False)
  moreover have "strchr CHR ''?'' uri 0 = Some ?q"
    using strchr_query [OF assms(1)] assms(6) by simp
  ultimately have run: "UriOps_parse_query (Some uri)
      = parse_query_loop uri (Suc ?q + length flag) [?k \<mapsto> ?v]"
    by (simp add: UriOps_parse_query_def)
  have "UriOps_parse_query (Some uri) ?k = Some ?v"
    unfolding run by (rule parse_query_loop_keeps) simp
  moreover have "\<not> view_ok uri ?v" using sz uri assms(7) by (simp add: view_ok_def)
  ultimately show ?thesis by blast
qed

theorem UriOps_parse_query_flag_overruns_witness:
  "\<exists>v. UriOps_parse_query (Some ''/t?raw&id=7'') ''raw&id'' = Some v
    \<and> \<not> view_ok ''/t?raw&id=7'' v"
proof -
  have "field_ok (''id'', ''7'')"
    and "''/t?raw&id=7'' = ''/t'' @ CHR ''?'' # ''raw'' @ CHR ''&'' # field_str (''id'', ''7'')"
    by (simp_all add: field_ok_def field_str_def)
  from UriOps_parse_query_flag_overruns [OF _ _ _ _ this] show ?thesis by simp
qed

end
