(* ===== verification/Timing.thy ===== *)
theory Timing
  imports Strings
begin

text \<open>
  Time: \<^verbatim>\<open>TimeOps\<close> (ocs_algo/time_ops.h, time_ops.cpp), \<^verbatim>\<open>core::RateLimiter\<close>
  (ocs_core/rate_limiter.cpp) and the number parsing of the C library they use. The C library is
  modelled for the base 10 conversions the code asks for, with the 32-bit \<^verbatim>\<open>long\<close> of the ESP32.
\<close>

section \<open>Decimal numbers\<close>

definition digit_char :: "nat \<Rightarrow> char" where
  "digit_char d = char_of (48 + d)"

definition is_digit :: "char \<Rightarrow> bool" where
  "is_digit c \<longleftrightarrow> 48 \<le> (of_char c :: nat) \<and> (of_char c :: nat) \<le> 57"

definition digit_val :: "char \<Rightarrow> nat" where
  "digit_val c = of_char c - 48"

definition is_space :: "char \<Rightarrow> bool" where
  "is_space c \<longleftrightarrow> c \<in> {CHR '' '', CHR 0x09, CHR 0x0A, CHR 0x0B, CHR 0x0C, CHR 0x0D}"

text \<open>The text of an unsigned number, \<^verbatim>\<open>%u\<close>.\<close>

fun decimal :: "nat \<Rightarrow> string" where
  "decimal n = (if n < 10 then [digit_char n] else decimal (n div 10) @ [digit_char (n mod 10)])"

declare decimal.simps [simp del]

definition digits_val :: "string \<Rightarrow> nat" where
  "digits_val ds = foldl (\<lambda>a c. 10 * a + digit_val c) 0 ds"

text \<open>
  \<open>scan_int s\<close>: skip white space, read an optional sign and the longest run of digits. The result
  is the sign, the digits' value and the rest of the text; \<open>None\<close> when there is no digit.
\<close>

definition scan_int :: "string \<Rightarrow> (bool \<times> nat \<times> string) option" where
  "scan_int s =
     (let t = dropWhile is_space s;
          neg = (t \<noteq> [] \<and> hd t = CHR ''-'');
          u = (if t \<noteq> [] \<and> (hd t = CHR ''-'' \<or> hd t = CHR ''+'') then tl t else t);
          ds = takeWhile is_digit u
      in if ds = [] then None else Some (neg, digits_val ds, dropWhile is_digit u))"

lemma of_char_digit_char [simp]: "d < 10 \<Longrightarrow> (of_char (digit_char d) :: nat) = 48 + d"
  by (simp add: digit_char_def)

lemma is_digit_digit_char [simp]: "d < 10 \<Longrightarrow> is_digit (digit_char d)"
  by (simp add: is_digit_def)

lemma digit_val_digit_char [simp]: "d < 10 \<Longrightarrow> digit_val (digit_char d) = d"
  by (simp add: digit_val_def)

lemma is_digit_not_space: "is_digit c \<Longrightarrow> \<not> is_space c"
  by (auto simp: is_digit_def is_space_def)

lemma is_digit_not_sign: "is_digit c \<Longrightarrow> c \<noteq> CHR ''-'' \<and> c \<noteq> CHR ''+''"
  by (auto simp: is_digit_def)

lemma decimal_digits: "list_all is_digit (decimal n)"
proof (induction n rule: decimal.induct)
  case (1 n)
  then show ?case by (subst decimal.simps) auto
qed

lemma decimal_nonempty [simp]: "decimal n \<noteq> []"
  by (subst decimal.simps) simp

lemma digits_val_decimal [simp]: "digits_val (decimal n) = n"
proof (induction n rule: decimal.induct)
  case (1 n)
  then show ?case by (subst decimal.simps) (auto simp: digits_val_def)
qed

lemma scan_int_decimal:
  assumes "rest = [] \<or> \<not> is_digit (hd rest)"
  shows "scan_int (decimal n @ rest) = Some (False, n, rest)"
proof -
  obtain c cs where c: "decimal n = c # cs" by (cases "decimal n") auto
  then have d: "is_digit c" using decimal_digits [of n] by simp
  have all: "\<forall>x \<in> set (decimal n). is_digit x"
    using decimal_digits [of n] by (simp add: list_all_iff)
  have t: "dropWhile is_space (decimal n @ rest) = decimal n @ rest"
    using c d is_digit_not_space by simp
  have tw: "takeWhile is_digit (decimal n @ rest) = decimal n"
    using all assms by (cases rest) (simp_all add: takeWhile_append2)
  have dw: "dropWhile is_digit (decimal n @ rest) = rest"
    using all assms by (cases rest) (simp_all add: dropWhile_append2)
  have s: "hd (decimal n @ rest) \<noteq> CHR ''-'' \<and> hd (decimal n @ rest) \<noteq> CHR ''+''"
    using c d is_digit_not_sign by simp
  show ?thesis unfolding scan_int_def t Let_def using s tw dw by simp
qed

section \<open>TimeOps\<close>

text \<open>
  \<^verbatim>\<open>after\<close> is a template. On \<^verbatim>\<open>core::Time\<close> it is \<open>after\<close> at \<open>int\<close>, as long as
  \<open>start + interval\<close> fits; on the unsigned \<^verbatim>\<open>TickType_t\<close> it is \<open>after\<close> at \<open>u32\<close>, where the sum
  wraps.
\<close>

definition TimeOps_after :: "('t :: {plus, linorder}) \<Rightarrow> 't \<Rightarrow> 't \<Rightarrow> bool" where
  "TimeOps_after start now interval =
     (let dest = start + interval
      in if now < start then
           (if start < dest then True else if dest \<le> now then True else False)
         else if now < dest then False
         else if dest < start then False
         else True)"

text \<open>\<^verbatim>\<open>time(nullptr)\<close> is the argument; \<^verbatim>\<open>-1\<close> means that it failed.\<close>

definition TimeOps_get_time :: "time \<Rightarrow> time option" where
  "TimeOps_get_time timestamp = (if timestamp = - 1 then None else Some timestamp)"

definition LONG_MAX :: int where "LONG_MAX = 2 ^ 31 - 1"
definition LONG_MIN :: int where "LONG_MIN = - (2 ^ 31)"

definition strtol10 :: "string \<Rightarrow> int" where
  "strtol10 s =
     (case scan_int s of None \<Rightarrow> 0
      | Some (neg, v, _) \<Rightarrow>
          max LONG_MIN (min LONG_MAX (if neg then - int v else int v)))"

definition TimeOps_parse_time :: "string \<Rightarrow> time option" where
  "TimeOps_parse_time str =
     (let value = strtol10 str
      in if value = 0 then None
         else if value = LONG_MIN \<or> value = LONG_MAX then None
         else Some value)"

text \<open>
  \<open>settimeofday\<close> is the system call: given the seconds and the system state it returns whether it
  succeeded and the new state.
\<close>

definition TimeOps_set_time ::
    "(time \<Rightarrow> 'w \<Rightarrow> bool \<times> 'w) \<Rightarrow> string \<Rightarrow> time \<Rightarrow> 'w step" where
  "TimeOps_set_time settimeofday str start_point w =
     (case TimeOps_parse_time str of
        None \<Rightarrow> (InvalidArg, w)
      | Some timestamp \<Rightarrow>
          if timestamp < start_point then (InvalidArg, w)
          else (case settimeofday timestamp w of
                  (ok, w') \<Rightarrow> (if ok then OK else Error, w')))"

lemma after_int:
  "0 < interval \<Longrightarrow> start \<le> now \<Longrightarrow>
     TimeOps_after start now interval \<longleftrightarrow> interval \<le> now - (start :: int)"
  by (auto simp: TimeOps_after_def Let_def)

lemma after_int_back:
  "0 < interval \<Longrightarrow> now < start \<Longrightarrow> TimeOps_after start now (interval :: int)"
  by (auto simp: TimeOps_after_def Let_def)

lemma after_word_unfold:
  "TimeOps_after (start :: 'a::len word) now interval \<longleftrightarrow>
     (let a = uint start; n = uint now; d = uint (start + interval)
      in if n < a then a < d \<or> d \<le> n else d \<le> n \<and> a \<le> d)"
  by (auto simp: TimeOps_after_def Let_def word_less_def word_le_def)

lemma wrap_elapsed:
  fixes a n i W :: int
  assumes "0 < i" "i < W" "0 \<le> n" "n < W" "0 \<le> a" "a < W"
  shows "(let a = a; n = n; d = if a + i < W then a + i else a + i - W
      in if n < a then a < d \<or> d \<le> n else d \<le> n \<and> a \<le> d)
    \<longleftrightarrow> i \<le> (if a \<le> n then n - a else n - a + W)"
  using assms by (auto simp: Let_def)

section \<open>core::RateLimiter\<close>

record RateLimiter =
  rl_interval :: time
  rl_start :: time

definition RateLimiter_init :: "time \<Rightarrow> RateLimiter checked" where
  "RateLimiter_init interval =
     (if 0 < interval then Inr \<lparr>rl_interval = interval, rl_start = 0\<rparr> else Inl AssertFailed)"

text \<open>\<open>now\<close> is what \<^verbatim>\<open>clock_.now()\<close> returns.\<close>

definition RateLimiter_allow :: "time \<Rightarrow> RateLimiter \<Rightarrow> bool \<times> RateLimiter" where
  "RateLimiter_allow now rl =
     (if rl_start rl \<noteq> 0 \<and> \<not> TimeOps_after (rl_start rl) now (rl_interval rl)
      then (False, rl)
      else (True, rl\<lparr>rl_start := now\<rparr>))"

text \<open>The times at which a sequence of clock readings is let through.\<close>

fun RateLimiter_run :: "time list \<Rightarrow> RateLimiter \<Rightarrow> time list" where
  "RateLimiter_run [] rl = []"
| "RateLimiter_run (now # nows) rl =
     (case RateLimiter_allow now rl of
        (ok, rl') \<Rightarrow> (if ok then [now] else []) @ RateLimiter_run nows rl')"

lemma RateLimiter_allow_interval [simp]:
  "rl_interval (snd (RateLimiter_allow now rl)) = rl_interval rl"
  by (simp add: RateLimiter_allow_def)

lemma RateLimiter_allow_iff:
  assumes "0 < rl_interval rl" and "rl_start rl \<le> now"
  shows "fst (RateLimiter_allow now rl) \<longleftrightarrow>
    rl_start rl = 0 \<or> rl_start rl + rl_interval rl \<le> now"
  using assms by (auto simp: RateLimiter_allow_def after_int)

lemma RateLimiter_allow_start:
  "rl_start (snd (RateLimiter_allow now rl))
     = (if fst (RateLimiter_allow now rl) then now else rl_start rl)"
  by (simp add: RateLimiter_allow_def)

lemma RateLimiter_run_spaced:
  assumes "0 < rl_interval rl" and "0 \<le> rl_start rl"
    and "sorted nows" and "\<forall>t \<in> set nows. 0 < t \<and> rl_start rl \<le> t"
  shows "sorted_wrt (\<lambda>a b. a + rl_interval rl \<le> b) (RateLimiter_run nows rl)
    \<and> (\<forall>t \<in> set (RateLimiter_run nows rl).
         rl_start rl = 0 \<or> rl_start rl + rl_interval rl \<le> t)"
  using assms
proof (induction nows arbitrary: rl)
  case Nil
  then show ?case by simp
next
  case (Cons now nows)
  obtain ok rl' where al: "RateLimiter_allow now rl = (ok, rl')" by fastforce
  have iv: "rl_interval rl' = rl_interval rl"
    using RateLimiter_allow_interval [of now rl] al by simp
  have start: "rl_start rl' = (if ok then now else rl_start rl)"
    using RateLimiter_allow_start [of now rl] al by simp
  have ok: "ok \<longleftrightarrow> rl_start rl = 0 \<or> rl_start rl + rl_interval rl \<le> now"
    using RateLimiter_allow_iff [of rl now] al Cons.prems(1,4) by simp
  have "\<forall>t \<in> set nows. 0 < t \<and> rl_start rl' \<le> t"
    using Cons.prems(3,4) start by auto
  then have IH: "sorted_wrt (\<lambda>a b. a + rl_interval rl \<le> b) (RateLimiter_run nows rl')
    \<and> (\<forall>t \<in> set (RateLimiter_run nows rl').
         rl_start rl' = 0 \<or> rl_start rl' + rl_interval rl \<le> t)"
    using Cons.IH [of rl'] Cons.prems start iv by simp
  show ?case
  proof (cases ok)
    case True
    have "now + rl_interval rl \<le> t" if "t \<in> set (RateLimiter_run nows rl')" for t
      using IH that start True Cons.prems(4) by auto
    with True IH ok al Cons.prems(1) show ?thesis by fastforce
  next
    case False
    with IH al start show ?thesis by simp
  qed
qed

text \<open>
  \<^verbatim>\<open>after\<close> on an unsigned counter is right across the wrap-around: it holds exactly when the
  time elapsed since \<open>start\<close>, computed modulo the width, has reached the (non-zero) interval.
\<close>

theorem TimeOps_after_elapsed:
  "interval \<noteq> 0 \<Longrightarrow>
     TimeOps_after start now interval \<longleftrightarrow> interval \<le> now - (start :: 'a::len word)"
proof -
  assume "interval \<noteq> 0"
  then have "0 < uint interval" by (simp add: less_le unsigned_eq_0_iff)
  then show ?thesis
    unfolding after_word_unfold word_le_def uint_plus_if' uint_sub_if' Let_def
    by (rule wrap_elapsed [unfolded Let_def]) (rule uint_lt2p uint_ge_0)+
qed

theorem TimeOps_after_elapsed_witness:
  "TimeOps_after (0xFFFFFF85 :: u32) 198 321 \<and> \<not> TimeOps_after (0xFFFFFF85 :: u32) 197 321"
  using TimeOps_after_elapsed [of 321 "0xFFFFFF85 :: u32" 198]
    TimeOps_after_elapsed [of 321 "0xFFFFFF85 :: u32" 197]
  by simp

text \<open>
  Setting the system time from a printed number: the clock is set, once and to that number, exactly
  when the number is non-zero, below the 32-bit \<^verbatim>\<open>LONG_MAX\<close> and not before the start point; in every
  other case the request is refused and the system is left as it was.
\<close>

theorem TimeOps_set_time_decimal:
  "TimeOps_set_time settimeofday (decimal v) start_point w =
     (if v = 0 \<or> 2 ^ 31 - 1 \<le> v \<or> int v < start_point then (InvalidArg, w)
      else (case settimeofday (int v) w of (ok, w') \<Rightarrow> (if ok then OK else Error, w')))"
proof -
  have "strtol10 (decimal v) = max LONG_MIN (min LONG_MAX (int v))"
    using scan_int_decimal [of "[]" v] by (simp add: strtol10_def)
  then have "TimeOps_parse_time (decimal v)
      = (if v = 0 \<or> 2 ^ 31 - 1 \<le> v then None else Some (int v))"
    by (auto simp: TimeOps_parse_time_def Let_def LONG_MAX_def LONG_MIN_def max_def min_def)
  then show ?thesis by (simp add: TimeOps_set_time_def)
qed

text \<open>
  A rate limiter never lets two operations through closer than its interval: whatever the
  (non-decreasing, positive) clock readings at which it is asked, the readings it allows are pairwise
  at least one interval apart.
\<close>

theorem RateLimiter_spacing:
  assumes "RateLimiter_init interval = Inr rl" and "sorted nows" and "\<forall>t \<in> set nows. 0 < t"
  shows "sorted_wrt (\<lambda>a b. a + interval \<le> b) (RateLimiter_run nows rl)"
proof -
  have rl: "0 < interval" "rl = \<lparr>rl_interval = interval, rl_start = 0\<rparr>"
    using assms(1) by (auto simp: RateLimiter_init_def split: if_splits)
  moreover have "\<forall>t \<in> set nows. 0 < t \<and> rl_start rl \<le> t"
    using assms(3) rl by (simp add: less_imp_le)
  ultimately show ?thesis using RateLimiter_run_spaced [of rl nows] assms(2) by simp
qed

theorem RateLimiter_spacing_witness:
  "sorted_wrt (\<lambda>a b. a + 10 \<le> b)
     (RateLimiter_run [1, 5, 11, 12, 30] \<lparr>rl_interval = 10, rl_start = 0\<rparr>)
   \<and> RateLimiter_run [1, 5, 11, 12, 30] \<lparr>rl_interval = 10, rl_start = 0\<rparr> = [1, 11, 30]"
proof -
  have "RateLimiter_init 10 = Inr \<lparr>rl_interval = 10, rl_start = 0\<rparr>"
    by (simp add: RateLimiter_init_def)
  moreover have "sorted [1, 5, 11, 12, 30 :: time]" "\<forall>t \<in> set [1, 5, 11, 12, 30 :: time]. 0 < t"
    by simp_all
  ultimately have "sorted_wrt (\<lambda>a b. a + 10 \<le> b)
     (RateLimiter_run [1, 5, 11, 12, 30] \<lparr>rl_interval = 10, rl_start = 0\<rparr>)"
    by (rule RateLimiter_spacing)
  then show ?thesis by (simp add: RateLimiter_allow_def TimeOps_after_def)
qed

end
