(* ===== verification/Storage.thy ===== *)
theory Storage
  imports Prelude
begin

text \<open>
  Persistent storage: the interface \<^verbatim>\<open>storage::IStorage\<close>, its implementation on the
  non-volatile storage of the ESP-IDF (ocs_storage/nvs_storage.cpp), the in-memory implementation the
  repository tests with (ocs_test/test_storage.h), \<^verbatim>\<open>storage::StorageBuilder\<close> and
  \<^verbatim>\<open>algo::StorageOps::prob_read\<close>. The locale \<open>key_value_store\<close> is the contract of the
  interface; its clients (counters, the FSM block, the sensors) are verified against it.
\<close>

section \<open>The interface\<close>

text \<open>
  A virtual table over the state \<open>'w\<close> of the system. A buffer the callee fills is passed in and
  returned, its length being the \<^verbatim>\<open>size\<close> argument; \<open>st_probe\<close> takes and returns the variable
  for the size.
\<close>

record 'w IStorage =
  st_probe :: "string \<Rightarrow> nat \<Rightarrow> 'w \<Rightarrow> status_code \<times> nat \<times> 'w"
  st_read :: "string \<Rightarrow> bytes \<Rightarrow> 'w \<Rightarrow> status_code \<times> bytes \<times> 'w"
  st_write :: "string \<Rightarrow> bytes \<Rightarrow> 'w step"
  st_erase :: "string \<Rightarrow> 'w step"

text \<open>
  The contract. \<open>content\<close> is what is stored; \<open>healthy w n\<close> says that the backend works and takes
  values of \<open>n\<close> bytes.
\<close>

locale key_value_store =
  fixes st :: "'w IStorage"
    and content :: "'w \<Rightarrow> string \<Rightarrow> bytes option"
    and healthy :: "'w \<Rightarrow> nat \<Rightarrow> bool"
  assumes probe_hit: "healthy w n \<Longrightarrow> content w k = Some v \<Longrightarrow>
      \<exists>w'. st_probe st k s w = (OK, length v, w') \<and> content w' = content w \<and> healthy w' = healthy w"
    and probe_miss: "healthy w n \<Longrightarrow> content w k = None \<Longrightarrow>
      \<exists>s' w'. st_probe st k s w = (NoData, s', w') \<and> content w' = content w \<and> healthy w' = healthy w"
    and read_hit: "healthy w (length buf) \<Longrightarrow> content w k = Some v \<Longrightarrow> length v = length buf \<Longrightarrow>
      \<exists>w'. st_read st k buf w = (OK, v, w') \<and> content w' = content w \<and> healthy w' = healthy w"
    and read_miss: "healthy w (length buf) \<Longrightarrow> content w k = None \<Longrightarrow>
      \<exists>w'. st_read st k buf w = (NoData, buf, w') \<and> content w' = content w \<and> healthy w' = healthy w"
    and stores: "healthy w (length v) \<Longrightarrow>
      \<exists>w'. st_write st k v w = (OK, w') \<and> content w' = (content w)(k \<mapsto> v) \<and> healthy w' = healthy w"
    and erases: "healthy w n \<Longrightarrow>
      \<exists>w'. st_erase st k w = ((if content w k = None then NoData else OK), w')
        \<and> content w' = (content w)(k := None) \<and> healthy w' = healthy w"
begin

lemma write_then_read:
  assumes "healthy w (length v)" and "length buf = length v"
  shows "\<exists>w' w''. st_write st k v w = (OK, w') \<and> st_read st k buf w' = (OK, v, w'')
    \<and> content w'' = (content w)(k \<mapsto> v) \<and> healthy w'' = healthy w"
proof -
  obtain w' where w': "st_write st k v w = (OK, w')" "content w' = (content w)(k \<mapsto> v)"
    "healthy w' = healthy w"
    using stores [OF assms(1)] by blast
  have "healthy w' (length buf)" "content w' k = Some v" using w' assms by simp_all
  from read_hit [OF this] assms(2) obtain w'' where
    "st_read st k buf w' = (OK, v, w'')" "content w'' = content w'" "healthy w'' = healthy w'"
    by metis
  with w' show ?thesis by metis
qed

lemma erase_then_read:
  assumes "healthy w (length buf)"
  shows "\<exists>c w' w''. st_erase st k w = (c, w') \<and> st_read st k buf w' = (NoData, buf, w'')
    \<and> content w'' = (content w)(k := None)"
proof -
  obtain c w' where w': "st_erase st k w = (c, w')" "content w' = (content w)(k := None)"
    "healthy w' = healthy w"
    using erases [OF assms] by blast
  have "healthy w' (length buf)" "content w' k = None" using w' assms by simp_all
  from read_miss [OF this] w' show ?thesis by metis
qed

text \<open>A sequence of writes of values of accepted sizes succeeds and stores them in order.\<close>

lemma run_writes:
  assumes "list_all (\<lambda>(k, v). healthy w (length v)) kvs"
  shows "\<exists>w'. run_steps (map (\<lambda>(k, v). st_write st k v) kvs) w = (OK, w')
    \<and> content w' = (content w) ++ map_of (rev kvs) \<and> healthy w' = healthy w"
  using assms
proof (induction kvs arbitrary: w)
  case Nil
  then show ?case by simp
next
  case (Cons kv kvs)
  obtain k v where kv: "kv = (k, v)" by fastforce
  with Cons.prems obtain w1 where w1: "st_write st k v w = (OK, w1)"
    "content w1 = (content w)(k \<mapsto> v)" "healthy w1 = healthy w"
    using stores [of w v k] by auto
  with Cons.prems kv have "list_all (\<lambda>(k, v). healthy w1 (length v)) kvs" by simp
  from Cons.IH [OF this] obtain w' where w':
    "run_steps (map (\<lambda>(k, v). st_write st k v) kvs) w1 = (OK, w')"
    "content w' = content w1 ++ map_of (rev kvs)" "healthy w' = healthy w1"
    by blast
  have c: "content w' = content w ++ map_of (rev (kv # kvs))"
    unfolding w'(2) w1(2) kv by (rule ext) (simp add: map_add_def split: option.splits)
  have "run_steps (map (\<lambda>(k, v). st_write st k v) (kv # kvs)) w = (OK, w')"
    using w'(1) w1(1) kv by simp
  moreover have "healthy w' = healthy w" using w'(3) w1(3) by simp
  ultimately show ?case using c by blast
qed

end

section \<open>algo::StorageOps\<close>

definition StorageOps_prob_read ::
    "'w IStorage \<Rightarrow> string \<Rightarrow> bytes \<Rightarrow> 'w \<Rightarrow> status_code \<times> bytes \<times> 'w" where
  "StorageOps_prob_read st key buf w =
     (case st_probe st key 0 w of
        (code, recv_size, w1) \<Rightarrow>
          if code \<noteq> OK then (code, buf, w1)
          else if length buf < recv_size then (InvalidArg, buf, w1)
          else (case st_read st key (take recv_size buf) w1 of
                  (code, data, w2) \<Rightarrow> (code, data @ drop recv_size buf, w2)))"

context key_value_store
begin

lemma prob_read_fits:
  assumes "healthy w (length v)" and "content w k = Some v" and "length v \<le> length buf"
  shows "\<exists>w'. StorageOps_prob_read st k buf w = (OK, v @ drop (length v) buf, w')
    \<and> content w' = content w"
proof -
  obtain w1 where w1: "st_probe st k 0 w = (OK, length v, w1)" "content w1 = content w"
    "healthy w1 = healthy w"
    using probe_hit [OF assms(1,2), of 0] by blast
  obtain w2 where "st_read st k (take (length v) buf) w1 = (OK, v, w2)" "content w2 = content w1"
    using read_hit [of w1 "take (length v) buf" k v] w1 assms by (auto simp: min_absorb2)
  with w1 assms(3) show ?thesis by (simp add: StorageOps_prob_read_def)
qed

lemma prob_read_large:
  assumes "healthy w n" and "content w k = Some v" and "length buf < length v"
  shows "\<exists>w'. StorageOps_prob_read st k buf w = (InvalidArg, buf, w') \<and> content w' = content w"
  using probe_hit [OF assms(1,2), of 0] assms(3) by (auto simp: StorageOps_prob_read_def)

lemma prob_read_missing:
  assumes "healthy w n" and "content w k = None"
  shows "\<exists>w'. StorageOps_prob_read st k buf w = (NoData, buf, w') \<and> content w' = content w"
  using probe_miss [OF assms, of 0] by (auto simp: StorageOps_prob_read_def)

end

section \<open>test::TestStorage\<close>

text \<open>
  The in-memory storage: one value size for all keys and a configurable status per operation. A size
  that is not \<^verbatim>\<open>sizeof(T)\<close> fails the test that uses it, which the last branch of
  \<open>TestStorage_read\<close> and \<open>TestStorage_write\<close> reports as \<open>Last\<close>, the code no operation returns.
\<close>

record TestStorage =
  ts_size :: nat
  ts_probe_status :: status_code
  ts_read_status :: status_code
  ts_write_status :: status_code
  ts_erase_status :: status_code
  ts_values :: "string \<rightharpoonup> bytes"

definition TestStorage_probe :: "string \<Rightarrow> nat \<Rightarrow> TestStorage \<Rightarrow> status_code \<times> nat \<times> TestStorage" where
  "TestStorage_probe k s t =
     (if ts_probe_status t \<noteq> OK then (ts_probe_status t, s, t)
      else case ts_values t k of None \<Rightarrow> (NoData, s, t) | Some _ \<Rightarrow> (OK, ts_size t, t))"

definition TestStorage_read :: "string \<Rightarrow> bytes \<Rightarrow> TestStorage \<Rightarrow> status_code \<times> bytes \<times> TestStorage" where
  "TestStorage_read k buf t =
     (if length buf \<noteq> ts_size t then (Last, buf, t)
      else if ts_read_status t \<noteq> OK then (ts_read_status t, buf, t)
      else case ts_values t k of None \<Rightarrow> (NoData, buf, t) | Some v \<Rightarrow> (OK, v, t))"

definition TestStorage_write :: "string \<Rightarrow> bytes \<Rightarrow> TestStorage step" where
  "TestStorage_write k v t =
     (if ts_write_status t \<noteq> OK then (ts_write_status t, t)
      else if length v \<noteq> ts_size t then (Last, t)
      else (OK, t\<lparr>ts_values := (ts_values t)(k \<mapsto> v)\<rparr>))"

definition TestStorage_erase :: "string \<Rightarrow> TestStorage step" where
  "TestStorage_erase k t =
     (if ts_erase_status t \<noteq> OK then (ts_erase_status t, t)
      else ((if ts_values t k = None then NoData else OK),
            t\<lparr>ts_values := (ts_values t)(k := None)\<rparr>))"

text \<open>An empty storage that keeps nothing.\<close>

definition no_storage :: "'w IStorage" where
  "no_storage = \<lparr>st_probe = (\<lambda>_ _ w. (NoData, 0, w)), st_read = (\<lambda>_ buf w. (NoData, buf, w)),
     st_write = (\<lambda>_ _ w. (OK, w)), st_erase = (\<lambda>_ w. (OK, w))\<rparr>"

definition TestStorage_vtable :: "TestStorage IStorage" where
  "TestStorage_vtable =
     \<lparr>st_probe = TestStorage_probe, st_read = TestStorage_read,
      st_write = TestStorage_write, st_erase = TestStorage_erase\<rparr>"

text \<open>The values are all of the one size: the C++ type of the map.\<close>

definition TestStorage_typed :: "TestStorage \<Rightarrow> bool" where
  "TestStorage_typed t \<longleftrightarrow> (\<forall>v \<in> ran (ts_values t). length v = ts_size t)"

definition TestStorage_healthy :: "TestStorage \<Rightarrow> nat \<Rightarrow> bool" where
  "TestStorage_healthy t n \<longleftrightarrow> ts_probe_status t = OK \<and> ts_read_status t = OK
     \<and> ts_write_status t = OK \<and> ts_erase_status t = OK \<and> n = ts_size t \<and> TestStorage_typed t"

lemma TestStorage_typed_update:
  "TestStorage_typed t \<Longrightarrow> length v = ts_size t \<Longrightarrow>
     TestStorage_typed (t\<lparr>ts_values := (ts_values t)(k \<mapsto> v)\<rparr>)"
  by (auto simp: TestStorage_typed_def ran_def)

lemma TestStorage_typed_erase:
  "TestStorage_typed t \<Longrightarrow> TestStorage_typed (t\<lparr>ts_values := (ts_values t)(k := None)\<rparr>)"
  by (auto simp: TestStorage_typed_def ran_def)

lemma TestStorage_sizes:
  "TestStorage_healthy t n \<Longrightarrow> ts_values t k = Some v \<Longrightarrow> length v = ts_size t"
  by (auto simp: TestStorage_healthy_def TestStorage_typed_def ran_def)

interpretation test_storage: key_value_store TestStorage_vtable ts_values TestStorage_healthy
proof (unfold_locales, goal_cases)
  case (1 w n k v s)
  then show ?case
    using TestStorage_sizes [OF 1]
    by (auto simp: TestStorage_vtable_def TestStorage_probe_def TestStorage_healthy_def)
next
  case (2 w n k s)
  then show ?case
    by (auto simp: TestStorage_vtable_def TestStorage_probe_def TestStorage_healthy_def)
next
  case (3 w buf k v)
  then show ?case
    by (auto simp: TestStorage_vtable_def TestStorage_read_def TestStorage_healthy_def)
next
  case (4 w buf k)
  then show ?case
    by (auto simp: TestStorage_vtable_def TestStorage_read_def TestStorage_healthy_def)
next
  case (5 w v k)
  then show ?case
    using TestStorage_typed_update [of w v k]
    by (auto simp: TestStorage_vtable_def TestStorage_write_def TestStorage_healthy_def fun_eq_iff)
next
  case (6 w n k)
  then show ?case
    using TestStorage_typed_erase [of w k]
    by (auto simp: TestStorage_vtable_def TestStorage_erase_def TestStorage_healthy_def fun_eq_iff)
qed

section \<open>NvsStorage\<close>

text \<open>
  The NVS library of the ESP-IDF is a parameter: its functions over the state of the system. Handles
  are numbers; \<open>nvs_get_blob\<close> takes the output buffer (\<open>None\<close> for a null pointer) and the size
  variable, and returns both.
\<close>

datatype nvs_open_mode = NVS_READONLY | NVS_READWRITE

record 'w nvs_api =
  nvs_open :: "string \<Rightarrow> nvs_open_mode \<Rightarrow> 'w \<Rightarrow> esp_err \<times> nat \<times> 'w"
  nvs_close :: "nat \<Rightarrow> 'w \<Rightarrow> 'w"
  nvs_get_blob :: "nat \<Rightarrow> string \<Rightarrow> bytes option \<Rightarrow> nat \<Rightarrow> 'w \<Rightarrow>
      esp_err \<times> bytes option \<times> nat \<times> 'w"
  nvs_set_blob :: "nat \<Rightarrow> string \<Rightarrow> bytes \<Rightarrow> 'w \<Rightarrow> esp_err \<times> 'w"
  nvs_commit :: "nat \<Rightarrow> 'w \<Rightarrow> esp_err \<times> 'w"
  nvs_erase_key :: "nat \<Rightarrow> string \<Rightarrow> 'w \<Rightarrow> esp_err \<times> 'w"

record NvsStorage =
  nvs_ns :: string

text \<open>\<^verbatim>\<open>NVS_KEY_NAME_MAX_SIZE\<close> is 16, the terminator included.\<close>

definition NvsStorage_bufsize :: nat where "NvsStorage_bufsize = 16 - 1"

definition NvsStorage_init :: "string \<Rightarrow> NvsStorage" where
  "NvsStorage_init ns = \<lparr>nvs_ns = take (min NvsStorage_bufsize (length ns)) ns\<rparr>"

definition NvsStorage_open ::
    "'w nvs_api \<Rightarrow> NvsStorage \<Rightarrow> nvs_open_mode \<Rightarrow> 'w \<Rightarrow> nat \<times> status_code \<times> 'w" where
  "NvsStorage_open api self mode w =
     (case nvs_open api (nvs_ns self) mode w of
        (err, handle, w') \<Rightarrow>
          if err = ESP_ERR_NVS_NOT_FOUND then (0, NoData, w')
          else if err \<noteq> ESP_OK then (0, Error, w')
          else (handle, OK, w'))"

definition NvsStorage_read_handle ::
    "'w nvs_api \<Rightarrow> nat \<Rightarrow> string \<Rightarrow> bytes option \<Rightarrow> nat \<Rightarrow> 'w \<Rightarrow>
       status_code \<times> bytes option \<times> nat \<times> 'w" where
  "NvsStorage_read_handle api handle key value sz w =
     (case nvs_get_blob api handle key value sz w of
        (err, value', sz', w') \<Rightarrow>
          ((if err = ESP_ERR_NVS_NOT_FOUND then NoData
            else if err \<noteq> ESP_OK then Error else OK), value', sz', w'))"

definition NvsStorage_write_handle ::
    "'w nvs_api \<Rightarrow> nat \<Rightarrow> string \<Rightarrow> bytes \<Rightarrow> 'w step" where
  "NvsStorage_write_handle api handle key value w =
     (case nvs_set_blob api handle key value w of
        (err, w1) \<Rightarrow>
          if err \<noteq> ESP_OK then (Error, w1)
          else (case nvs_commit api handle w1 of
                  (err, w2) \<Rightarrow> ((if err \<noteq> ESP_OK then Error else OK), w2)))"

definition NvsStorage_erase_handle :: "'w nvs_api \<Rightarrow> nat \<Rightarrow> string \<Rightarrow> 'w step" where
  "NvsStorage_erase_handle api handle key w =
     (case nvs_erase_key api handle key w of
        (err, w1) \<Rightarrow>
          if err = ESP_ERR_NVS_NOT_FOUND then (NoData, w1)
          else if err \<noteq> ESP_OK then (Error, w1)
          else (case nvs_commit api handle w1 of
                  (err, w2) \<Rightarrow> ((if err \<noteq> ESP_OK then Error else OK), w2)))"

definition NvsStorage_probe ::
    "'w nvs_api \<Rightarrow> NvsStorage \<Rightarrow> string \<Rightarrow> nat \<Rightarrow> 'w \<Rightarrow> status_code \<times> nat \<times> 'w" where
  "NvsStorage_probe api self key sz w =
     (case NvsStorage_open api self NVS_READONLY w of
        (handle, code, w1) \<Rightarrow>
          if code = OK then
            (case NvsStorage_read_handle api handle key None sz w1 of
               (code, _, sz', w2) \<Rightarrow> (code, sz', nvs_close api handle w2))
          else (code, sz, w1))"

text \<open>
  \<^verbatim>\<open>read\<close> and \<^verbatim>\<open>write\<close> assert that the size is not zero. No caller passes an empty
  buffer; the fault is a value of these two functions, and the virtual table below is meant for
  non-empty buffers.
\<close>

definition NvsStorage_read ::
    "'w nvs_api \<Rightarrow> NvsStorage \<Rightarrow> string \<Rightarrow> bytes \<Rightarrow> 'w \<Rightarrow> (status_code \<times> bytes \<times> 'w) checked" where
  "NvsStorage_read api self key buf w =
     (if buf = [] then Inl AssertFailed
      else Inr
       (case NvsStorage_open api self NVS_READONLY w of
          (handle, code, w1) \<Rightarrow>
            if code = OK then
              (case NvsStorage_read_handle api handle key (Some buf) (length buf) w1 of
                 (code, value', _, w2) \<Rightarrow>
                   (code, (case value' of None \<Rightarrow> buf | Some b \<Rightarrow> b), nvs_close api handle w2))
            else (code, buf, w1)))"

definition NvsStorage_write ::
    "'w nvs_api \<Rightarrow> NvsStorage \<Rightarrow> string \<Rightarrow> bytes \<Rightarrow> 'w \<Rightarrow> (status_code \<times> 'w) checked" where
  "NvsStorage_write api self key value w =
     (if value = [] then Inl AssertFailed
      else Inr
       (case NvsStorage_open api self NVS_READWRITE w of
          (handle, code, w1) \<Rightarrow>
            if code = OK then
              (case NvsStorage_write_handle api handle key value w1 of
                 (code, w2) \<Rightarrow> (code, nvs_close api handle w2))
            else (code, w1)))"

definition NvsStorage_erase :: "'w nvs_api \<Rightarrow> NvsStorage \<Rightarrow> string \<Rightarrow> 'w step" where
  "NvsStorage_erase api self key w =
     (case NvsStorage_open api self NVS_READWRITE w of
        (handle, code, w1) \<Rightarrow>
          if code = OK then
            (case NvsStorage_erase_handle api handle key w1 of
               (code, w2) \<Rightarrow> (code, nvs_close api handle w2))
          else (code, w1))"

definition NvsStorage_vtable :: "'w nvs_api \<Rightarrow> NvsStorage \<Rightarrow> 'w IStorage" where
  "NvsStorage_vtable api self =
     \<lparr>st_probe = NvsStorage_probe api self,
      st_read = (\<lambda>key buf w. case NvsStorage_read api self key buf w of
                   Inl _ \<Rightarrow> (Last, buf, w) | Inr r \<Rightarrow> r),
      st_write = (\<lambda>key value w. case NvsStorage_write api self key value w of
                   Inl _ \<Rightarrow> (Last, w) | Inr r \<Rightarrow> r),
      st_erase = NvsStorage_erase api self\<rparr>"

text \<open>
  The documented behaviour of the NVS library on a working flash: \<open>blobs\<close> is the committed content
  of each namespace, \<open>bound\<close> the namespace of an open handle, \<open>good\<close> says that the flash works and
  has room. Opening read-only fails with \<^verbatim>\<open>NOT_FOUND\<close> on a namespace nothing was written to. A
  value is stored once it is committed.
\<close>

definition nvs_open_law :: "'w nvs_api \<Rightarrow> ('w \<Rightarrow> bool) \<Rightarrow> ('w \<Rightarrow> string \<Rightarrow> string \<rightharpoonup> bytes) \<Rightarrow>
    ('w \<Rightarrow> nat \<Rightarrow> string option) \<Rightarrow> bool" where
  "nvs_open_law api good blobs bound \<longleftrightarrow>
     (\<forall>w ns. good w \<longrightarrow>
        (\<exists>h w'. nvs_open api ns NVS_READWRITE w = (ESP_OK, h, w')
           \<and> good w' \<and> blobs w' = blobs w \<and> bound w' h = Some ns)
      \<and> (\<exists>err h w'. nvs_open api ns NVS_READONLY w = (err, h, w')
           \<and> good w' \<and> blobs w' = blobs w
           \<and> (err = ESP_OK \<and> bound w' h = Some ns
              \<or> err = ESP_ERR_NVS_NOT_FOUND \<and> blobs w ns = Map.empty)))"

definition nvs_read_law :: "'w nvs_api \<Rightarrow> ('w \<Rightarrow> bool) \<Rightarrow> ('w \<Rightarrow> string \<Rightarrow> string \<rightharpoonup> bytes) \<Rightarrow>
    ('w \<Rightarrow> nat \<Rightarrow> string option) \<Rightarrow> bool" where
  "nvs_read_law api good blobs bound \<longleftrightarrow>
     (\<forall>w h ns k buf n. good w \<longrightarrow> bound w h = Some ns \<longrightarrow>
        (\<exists>err buf' n' w'. nvs_get_blob api h k buf n w = (err, buf', n', w')
           \<and> good w' \<and> blobs w' = blobs w
           \<and> (case blobs w ns k of
                None \<Rightarrow> err = ESP_ERR_NVS_NOT_FOUND \<and> buf' = buf
              | Some v \<Rightarrow>
                  (buf = None \<longrightarrow> err = ESP_OK \<and> n' = length v)
                \<and> (\<forall>b. buf = Some b \<longrightarrow> length b = length v \<longrightarrow> n = length v \<longrightarrow>
                     err = ESP_OK \<and> buf' = Some v))))"

definition nvs_write_law :: "'w nvs_api \<Rightarrow> ('w \<Rightarrow> bool) \<Rightarrow> ('w \<Rightarrow> string \<Rightarrow> string \<rightharpoonup> bytes) \<Rightarrow>
    ('w \<Rightarrow> nat \<Rightarrow> string option) \<Rightarrow> bool" where
  "nvs_write_law api good blobs bound \<longleftrightarrow>
     (\<forall>w h. good w \<longrightarrow> good (nvs_close api h w) \<and> blobs (nvs_close api h w) = blobs w)
   \<and> (\<forall>w h ns k v. good w \<longrightarrow> bound w h = Some ns \<longrightarrow>
        (\<exists>w1 w2. nvs_set_blob api h k v w = (ESP_OK, w1) \<and> nvs_commit api h w1 = (ESP_OK, w2)
           \<and> good w2 \<and> blobs w2 = (blobs w)(ns := (blobs w ns)(k \<mapsto> v))))
   \<and> (\<forall>w h ns k. good w \<longrightarrow> bound w h = Some ns \<longrightarrow>
        (if blobs w ns k = None
         then (\<exists>w1. nvs_erase_key api h k w = (ESP_ERR_NVS_NOT_FOUND, w1)
                 \<and> good w1 \<and> blobs w1 = blobs w)
         else (\<exists>w1 w2. nvs_erase_key api h k w = (ESP_OK, w1)
                 \<and> nvs_commit api h w1 = (ESP_OK, w2)
                 \<and> good w2 \<and> blobs w2 = (blobs w)(ns := (blobs w ns)(k := None)))))"

definition nvs_laws :: "'w nvs_api \<Rightarrow> ('w \<Rightarrow> bool) \<Rightarrow> ('w \<Rightarrow> string \<Rightarrow> string \<rightharpoonup> bytes) \<Rightarrow>
    ('w \<Rightarrow> nat \<Rightarrow> string option) \<Rightarrow> bool" where
  "nvs_laws api good blobs bound \<longleftrightarrow> nvs_open_law api good blobs bound
     \<and> nvs_read_law api good blobs bound \<and> nvs_write_law api good blobs bound"

lemma nvs_get_blob_law:
  assumes "nvs_laws api good blobs bound" and "good w" and "bound w h = Some ns"
  shows "\<exists>err buf' n' w'. nvs_get_blob api h k buf n w = (err, buf', n', w')
    \<and> good w' \<and> blobs w' = blobs w
    \<and> (case blobs w ns k of
         None \<Rightarrow> err = ESP_ERR_NVS_NOT_FOUND \<and> buf' = buf
       | Some v \<Rightarrow>
           (buf = None \<longrightarrow> err = ESP_OK \<and> n' = length v)
         \<and> (\<forall>b. buf = Some b \<longrightarrow> length b = length v \<longrightarrow> n = length v \<longrightarrow>
              err = ESP_OK \<and> buf' = Some v))"
  using assms unfolding nvs_laws_def nvs_read_law_def by blast

lemma nvs_close_law:
  "nvs_laws api good blobs bound \<Longrightarrow> good w \<Longrightarrow>
     good (nvs_close api h w) \<and> blobs (nvs_close api h w) = blobs w"
  unfolding nvs_laws_def nvs_write_law_def by blast

lemma NvsStorage_read_content:
  assumes "nvs_laws api good blobs bound" and "good w" and "buf \<noteq> []"
  shows "\<exists>c b w'. NvsStorage_read api self k buf w = Inr (c, b, w')
    \<and> good w' \<and> blobs w' = blobs w
    \<and> (case blobs w (nvs_ns self) k of None \<Rightarrow> c = NoData \<and> b = buf
       | Some v \<Rightarrow> length v = length buf \<longrightarrow> c = OK \<and> b = v)"
proof -
  let ?ns = "nvs_ns self"
  obtain err h w1 where o: "nvs_open api ?ns NVS_READONLY w = (err, h, w1)"
    "good w1" "blobs w1 = blobs w"
    "err = ESP_OK \<and> bound w1 h = Some ?ns \<or> err = ESP_ERR_NVS_NOT_FOUND \<and> blobs w ?ns = Map.empty"
    using assms(1,2) unfolding nvs_laws_def nvs_open_law_def by meson
  show ?thesis
  proof (cases "err = ESP_OK")
    case True
    with o have "bound w1 h = Some ?ns" by simp
    from nvs_get_blob_law [OF assms(1) o(2) this, of k "Some buf" "length buf"]
    obtain err' buf' n' w2 where g:
      "nvs_get_blob api h k (Some buf) (length buf) w1 = (err', buf', n', w2)"
      "good w2" "blobs w2 = blobs w1"
      "case blobs w1 ?ns k of None \<Rightarrow> err' = ESP_ERR_NVS_NOT_FOUND \<and> buf' = Some buf
       | Some v \<Rightarrow> length v = length buf \<longrightarrow> err' = ESP_OK \<and> buf' = Some v"
      by (cases "blobs w1 ?ns k") auto
    with o nvs_close_law [OF assms(1) g(2)] True assms(3) show ?thesis
      by (auto simp: NvsStorage_read_def NvsStorage_open_def NvsStorage_read_handle_def
          split: option.splits)
  next
    case False
    with o assms(3) show ?thesis
      by (auto simp: NvsStorage_read_def NvsStorage_open_def)
  qed
qed

lemma NvsStorage_probe_content:
  assumes "nvs_laws api good blobs bound" and "good w"
  shows "\<exists>c n w'. NvsStorage_probe api self k s w = (c, n, w')
    \<and> good w' \<and> blobs w' = blobs w
    \<and> (case blobs w (nvs_ns self) k of None \<Rightarrow> c = NoData | Some v \<Rightarrow> c = OK \<and> n = length v)"
proof -
  let ?ns = "nvs_ns self"
  obtain err h w1 where o: "nvs_open api ?ns NVS_READONLY w = (err, h, w1)"
    "good w1" "blobs w1 = blobs w"
    "err = ESP_OK \<and> bound w1 h = Some ?ns \<or> err = ESP_ERR_NVS_NOT_FOUND \<and> blobs w ?ns = Map.empty"
    using assms(1,2) unfolding nvs_laws_def nvs_open_law_def by meson
  show ?thesis
  proof (cases "err = ESP_OK")
    case True
    with o have "bound w1 h = Some ?ns" by simp
    from nvs_get_blob_law [OF assms(1) o(2) this, of k None s]
    obtain err' buf' n' w2 where g:
      "nvs_get_blob api h k None s w1 = (err', buf', n', w2)" "good w2" "blobs w2 = blobs w1"
      "case blobs w1 ?ns k of None \<Rightarrow> err' = ESP_ERR_NVS_NOT_FOUND
       | Some v \<Rightarrow> err' = ESP_OK \<and> n' = length v"
      by (auto split: option.splits)
    with o nvs_close_law [OF assms(1) g(2)] True show ?thesis
      by (auto simp: NvsStorage_probe_def NvsStorage_open_def NvsStorage_read_handle_def
          split: option.splits)
  next
    case False
    with o show ?thesis by (auto simp: NvsStorage_probe_def NvsStorage_open_def)
  qed
qed

lemma NvsStorage_open_rw:
  assumes "nvs_laws api good blobs bound" and "good w"
  shows "\<exists>h w1. NvsStorage_open api self NVS_READWRITE w = (h, OK, w1)
    \<and> good w1 \<and> blobs w1 = blobs w \<and> bound w1 h = Some (nvs_ns self)"
proof -
  obtain h w1 where "nvs_open api (nvs_ns self) NVS_READWRITE w = (ESP_OK, h, w1)"
    "good w1" "blobs w1 = blobs w" "bound w1 h = Some (nvs_ns self)"
    using assms unfolding nvs_laws_def nvs_open_law_def by meson
  then show ?thesis by (simp add: NvsStorage_open_def)
qed

lemma NvsStorage_write_content:
  assumes "nvs_laws api good blobs bound" and "good w" and "v \<noteq> []"
  shows "\<exists>w'. NvsStorage_write api self k v w = Inr (OK, w') \<and> good w'
    \<and> blobs w' (nvs_ns self) = (blobs w (nvs_ns self))(k \<mapsto> v)"
proof -
  let ?ns = "nvs_ns self"
  obtain h w1 where o: "NvsStorage_open api self NVS_READWRITE w = (h, OK, w1)"
    "good w1" "blobs w1 = blobs w" "bound w1 h = Some ?ns"
    using NvsStorage_open_rw [OF assms(1,2)] by blast
  then obtain w2 w3 where s: "nvs_set_blob api h k v w1 = (ESP_OK, w2)"
    "nvs_commit api h w2 = (ESP_OK, w3)" "good w3"
    "blobs w3 = (blobs w1)(?ns := (blobs w1 ?ns)(k \<mapsto> v))"
    using assms(1) unfolding nvs_laws_def nvs_write_law_def by meson
  with o nvs_close_law [OF assms(1) s(3)] assms(3) show ?thesis
    by (simp add: NvsStorage_write_def NvsStorage_write_handle_def)
qed

lemma NvsStorage_erase_content:
  assumes "nvs_laws api good blobs bound" and "good w"
  shows "\<exists>w'. NvsStorage_erase api self k w
      = ((if blobs w (nvs_ns self) k = None then NoData else OK), w') \<and> good w'
    \<and> blobs w' (nvs_ns self) = (blobs w (nvs_ns self))(k := None)"
proof -
  let ?ns = "nvs_ns self"
  obtain h w1 where o: "NvsStorage_open api self NVS_READWRITE w = (h, OK, w1)"
    "good w1" "blobs w1 = blobs w" "bound w1 h = Some ?ns"
    using NvsStorage_open_rw [OF assms(1,2)] by blast
  have close: "good (nvs_close api h u) \<and> blobs (nvs_close api h u) = blobs u" if "good u" for u
    using nvs_close_law [OF assms(1) that] .
  show ?thesis
  proof (cases "blobs w ?ns k = None")
    case True
    then obtain w2 where "nvs_erase_key api h k w1 = (ESP_ERR_NVS_NOT_FOUND, w2)"
      "good w2" "blobs w2 = blobs w1"
      using assms(1) o unfolding nvs_laws_def nvs_write_law_def by metis
    with o True close show ?thesis
      by (simp add: NvsStorage_erase_def NvsStorage_erase_handle_def fun_upd_idem)
  next
    case False
    then obtain w2 w3 where "nvs_erase_key api h k w1 = (ESP_OK, w2)"
      "nvs_commit api h w2 = (ESP_OK, w3)" "good w3"
      "blobs w3 = (blobs w1)(?ns := (blobs w1 ?ns)(k := None))"
      using assms(1) o unfolding nvs_laws_def nvs_write_law_def by metis
    with o False close show ?thesis
      by (simp add: NvsStorage_erase_def NvsStorage_erase_handle_def)
  qed
qed

text \<open>So storage on a working flash keeps the contract, for values of at least one byte.\<close>

definition nvs_healthy :: "('w \<Rightarrow> bool) \<Rightarrow> 'w \<Rightarrow> nat \<Rightarrow> bool" where
  "nvs_healthy good w n \<longleftrightarrow> good w \<and> 0 < n"

lemma NvsStorage_key_value_store:
  assumes "nvs_laws api good blobs bound"
  shows "key_value_store (NvsStorage_vtable api self)
    (\<lambda>w. blobs w (nvs_ns self)) (nvs_healthy good)"
proof (unfold_locales, goal_cases)
  case (1 w n k v s)
  then show ?case
    using NvsStorage_probe_content [OF assms, of w self k s]
    by (auto simp: NvsStorage_vtable_def nvs_healthy_def fun_eq_iff)
next
  case (2 w n k s)
  then show ?case
    using NvsStorage_probe_content [OF assms, of w self k s]
    by (auto simp: NvsStorage_vtable_def nvs_healthy_def fun_eq_iff)
next
  case (3 w buf k v)
  then show ?case
    using NvsStorage_read_content [OF assms, of w buf self k]
    by (auto simp: NvsStorage_vtable_def nvs_healthy_def fun_eq_iff)
next
  case (4 w buf k)
  then show ?case
    using NvsStorage_read_content [OF assms, of w buf self k]
    by (auto simp: NvsStorage_vtable_def nvs_healthy_def fun_eq_iff)
next
  case (5 w v k)
  then show ?case
    using NvsStorage_write_content [OF assms, of w v self k]
    by (auto simp: NvsStorage_vtable_def nvs_healthy_def fun_eq_iff)
next
  case (6 w n k)
  then show ?case
    using NvsStorage_erase_content [OF assms, of w self k]
    by (auto simp: NvsStorage_vtable_def nvs_healthy_def fun_eq_iff)
qed

section \<open>StorageBuilder\<close>

definition StorageBuilder_make :: "string \<Rightarrow> string set \<Rightarrow> NvsStorage option \<times> string set" where
  "StorageBuilder_make sid ids =
     (if sid \<in> ids then (None, ids) else (Some (NvsStorage_init sid), insert sid ids))"

text \<open>
  A concrete instance of the parameter, an NVS held in memory, with which the hypotheses about the
  NVS library are shown to be satisfiable. It models no code.
\<close>

record mem_nvs =
  mem_blobs :: "string \<Rightarrow> string \<rightharpoonup> bytes"
  mem_handles :: "string list"

definition mem_bound :: "mem_nvs \<Rightarrow> nat \<Rightarrow> string option" where
  "mem_bound w h = (if h < length (mem_handles w) then Some (mem_handles w ! h) else None)"

definition mem_get_blob :: "nat \<Rightarrow> string \<Rightarrow> bytes option \<Rightarrow> nat \<Rightarrow> mem_nvs \<Rightarrow>
    esp_err \<times> bytes option \<times> nat \<times> mem_nvs" where
  "mem_get_blob h k buf n w =
     (case mem_bound w h of
        None \<Rightarrow> (ESP_ERR_OTHER 1, buf, n, w)
      | Some ns \<Rightarrow>
          (case mem_blobs w ns k of
             None \<Rightarrow> (ESP_ERR_NVS_NOT_FOUND, buf, n, w)
           | Some v \<Rightarrow>
               (case buf of
                  None \<Rightarrow> (ESP_OK, None, length v, w)
                | Some b \<Rightarrow> if length v \<le> n then (ESP_OK, Some (v @ drop (length v) b), length v, w)
                            else (ESP_ERR_OTHER 2, buf, n, w))))"

definition mem_set :: "nat \<Rightarrow> string \<Rightarrow> bytes option \<Rightarrow> mem_nvs \<Rightarrow> mem_nvs" where
  "mem_set h k v w =
     (case mem_bound w h of None \<Rightarrow> w
      | Some ns \<Rightarrow> w\<lparr>mem_blobs := (mem_blobs w)(ns := (mem_blobs w ns)(k := v))\<rparr>)"

definition mem_nvs_api :: "mem_nvs nvs_api" where
  "mem_nvs_api =
     \<lparr>nvs_open = (\<lambda>ns _ w. (ESP_OK, length (mem_handles w), w\<lparr>mem_handles := mem_handles w @ [ns]\<rparr>)),
      nvs_close = (\<lambda>_ w. w),
      nvs_get_blob = mem_get_blob,
      nvs_set_blob = (\<lambda>h k v w. (ESP_OK, mem_set h k (Some v) w)),
      nvs_commit = (\<lambda>_ w. (ESP_OK, w)),
      nvs_erase_key = (\<lambda>h k w.
        case mem_get_blob h k None 0 w of
          (err, _) \<Rightarrow> if err = ESP_OK then (ESP_OK, mem_set h k None w) else (err, w))\<rparr>"

lemma mem_nvs_laws: "nvs_laws mem_nvs_api (\<lambda>_. True) mem_blobs mem_bound"
  by (auto simp: nvs_laws_def nvs_open_law_def nvs_read_law_def nvs_write_law_def mem_nvs_api_def
      mem_bound_def mem_get_blob_def mem_set_def nth_append split: option.splits if_splits)

text \<open>
  The same NVS beside another part of the system: its functions act on the first component of a pair.
\<close>

definition lift_nvs :: "'w nvs_api \<Rightarrow> ('w \<times> 'c) nvs_api" where
  "lift_nvs a =
     \<lparr>nvs_open = (\<lambda>ns m (w, c). case nvs_open a ns m w of (e, h, w') \<Rightarrow> (e, h, (w', c))),
      nvs_close = (\<lambda>h (w, c). (nvs_close a h w, c)),
      nvs_get_blob = (\<lambda>h k b n (w, c). case nvs_get_blob a h k b n w of
          (e, b', n', w') \<Rightarrow> (e, b', n', (w', c))),
      nvs_set_blob = (\<lambda>h k v (w, c). case nvs_set_blob a h k v w of (e, w') \<Rightarrow> (e, (w', c))),
      nvs_commit = (\<lambda>h (w, c). case nvs_commit a h w of (e, w') \<Rightarrow> (e, (w', c))),
      nvs_erase_key = (\<lambda>h k (w, c). case nvs_erase_key a h k w of (e, w') \<Rightarrow> (e, (w', c)))\<rparr>"

lemma lift_mem_nvs_laws:
  "nvs_laws (lift_nvs mem_nvs_api) (\<lambda>_. True) (\<lambda>w. mem_blobs (fst w)) (\<lambda>w. mem_bound (fst w))"
  by (auto simp: nvs_laws_def nvs_open_law_def nvs_read_law_def nvs_write_law_def mem_nvs_api_def
      lift_nvs_def mem_bound_def mem_get_blob_def mem_set_def nth_append split: option.splits if_splits)

abbreviation mem_empty :: mem_nvs where
  "mem_empty \<equiv> \<lparr>mem_blobs = (\<lambda>_. Map.empty), mem_handles = []\<rparr>"



text \<open>
  \<^verbatim>\<open>prob_read\<close> never reads more than the caller's buffer holds: a value that fits is copied
  to the front of the buffer and the rest of the buffer is kept, a longer value is refused with
  \<open>InvalidArg\<close>, a missing one with \<open>NoData\<close>, both leaving the buffer as it was.
\<close>

theorem StorageOps_prob_read_bounded:
  assumes "nvs_laws api good blobs bound" and "good w"
    and "\<forall>v. blobs w (nvs_ns self) k = Some v \<longrightarrow> v \<noteq> []"
  shows "\<exists>w'. StorageOps_prob_read (NvsStorage_vtable api self) k buf w =
      (case blobs w (nvs_ns self) k of
         None \<Rightarrow> (NoData, buf, w')
       | Some v \<Rightarrow> if length v \<le> length buf then (OK, v @ drop (length v) buf, w')
                  else (InvalidArg, buf, w'))"
proof -
  note kv = NvsStorage_key_value_store [OF assms(1), of self]
  have h: "nvs_healthy good w m" if "0 < m" for m using assms(2) that by (simp add: nvs_healthy_def)
  have h1: "nvs_healthy good w 1" by (rule h) simp
  show ?thesis
  proof (cases "blobs w (nvs_ns self) k")
    case None
    then show ?thesis
      using key_value_store.prob_read_missing [OF kv h1, of k buf] by auto
  next
    case (Some v)
    with assms(3) have "0 < length v" by simp
    with Some show ?thesis
      using key_value_store.prob_read_fits [OF kv h, of v k buf]
        key_value_store.prob_read_large [OF kv h1, of k v buf]
      by (cases "length v \<le> length buf") auto
  qed
qed

theorem StorageOps_prob_read_bounded_witness:
  "\<exists>w'. StorageOps_prob_read (NvsStorage_vtable mem_nvs_api (NvsStorage_init ''ns'')) ''k'' [1, 2]
     mem_empty = (NoData, [1, 2], w')"
  using StorageOps_prob_read_bounded [OF mem_nvs_laws, where w = mem_empty and k = "''k''"
      and self = "NvsStorage_init ''ns''" and buf = "[1, 2]"]
  by simp

text \<open>
  The builder refuses an identifier it has already used, and storages for distinct identifiers of at
  most 15 characters live in distinct namespaces.
\<close>

theorem StorageBuilder_unique:
  assumes "StorageBuilder_make a ids = (Some sa, ids1)" and "ids1 \<subseteq> ids2"
    and "length a \<le> 15" and "length b \<le> 15"
  shows "case StorageBuilder_make b ids2 of
      (None, ids3) \<Rightarrow> b \<in> ids2 \<and> ids3 = ids2
    | (Some sb, ids3) \<Rightarrow> b \<noteq> a \<and> nvs_ns sb \<noteq> nvs_ns sa \<and> ids3 = insert b ids2"
  using assms
  by (auto simp: StorageBuilder_make_def NvsStorage_init_def NvsStorage_bufsize_def
      split: if_splits)

theorem StorageBuilder_unique_witness:
  "case StorageBuilder_make ''two_nvs'' {''one_nvs''} of
      (None, ids3) \<Rightarrow> False
    | (Some sb, ids3) \<Rightarrow> nvs_ns sb \<noteq> ''one_nvs''"
proof -
  have "StorageBuilder_make ''one_nvs'' {} = (Some \<lparr>nvs_ns = ''one_nvs''\<rparr>, {''one_nvs''})"
    by (simp add: StorageBuilder_make_def NvsStorage_init_def NvsStorage_bufsize_def)
  from StorageBuilder_unique [OF this, of "{''one_nvs''}" "''two_nvs''"] show ?thesis
    by (simp add: StorageBuilder_make_def NvsStorage_init_def NvsStorage_bufsize_def)
qed

text \<open>
  Uniqueness is lost beyond 15 characters: the namespace is cut without an error, so two
  identifiers that agree on their first 15 characters are both accepted and share one namespace.
\<close>

theorem StorageBuilder_long_ids_alias:
  assumes "a \<noteq> b" and "take 15 a = take 15 b" and "a \<notin> ids" and "b \<notin> ids"
  shows "\<exists>s ids1 ids2. StorageBuilder_make a ids = (Some s, ids1)
    \<and> StorageBuilder_make b ids1 = (Some s, ids2)"
  using assms
  by (simp add: StorageBuilder_make_def NvsStorage_init_def NvsStorage_bufsize_def min_def)
    (metis nat_le_linear take_all)

theorem StorageBuilder_long_ids_alias_witness:
  "\<exists>s ids1 ids2. StorageBuilder_make ''irrigation_valve_1_nvs'' {} = (Some s, ids1)
    \<and> StorageBuilder_make ''irrigation_valve_2_nvs'' ids1 = (Some s, ids2)"
  by (rule StorageBuilder_long_ids_alias) simp_all

end
