(* ===== verification/Control.thy ===== *)
theory Control
  imports Storage
begin

text \<open>
  \<open>components/ocs_control\<close>: the persistent state-machine block \<^verbatim>\<open>FsmBlock\<close>
  (fsm_block.cpp) and \<^verbatim>\<open>FsmStore\<close> (fsm_store.cpp), which runs the handlers of the current state
  and performs the transitions. The clock is a function of the state of the system.
\<close>

section \<open>FsmBlock\<close>

type_synonym State = u16

record FsmBlock =
  fb_resolution :: time
  fb_prev_state :: State
  fb_curr_state :: State
  fb_next_state :: State
  fb_prev_state_dur :: time
  fb_curr_state_dur :: time
  fb_write_count :: u64
  fb_start_ts :: time
  fb_saved_ts :: time

definition FsmBlock_is_in_transit :: "FsmBlock \<Rightarrow> bool" where
  "FsmBlock_is_in_transit b \<longleftrightarrow> fb_next_state b \<noteq> 0 \<and> fb_curr_state b \<noteq> fb_next_state b"

definition FsmBlock_set_next :: "State \<Rightarrow> FsmBlock \<Rightarrow> FsmBlock" where
  "FsmBlock_set_next state b = b\<lparr>fb_next_state := state\<rparr>"

text \<open>The division of C++ truncates.\<close>

definition FsmBlock_update :: "time \<Rightarrow> FsmBlock \<Rightarrow> FsmBlock" where
  "FsmBlock_update now b =
     (let passed_ts = (now - fb_start_ts b) sdiv fb_resolution b
      in b\<lparr>fb_curr_state_dur := fb_saved_ts b + passed_ts\<rparr>)"

definition FsmBlock_writes :: "'w IStorage \<Rightarrow> FsmBlock \<Rightarrow> 'w step list" where
  "FsmBlock_writes st b =
     map (\<lambda>(key, value). st_write st key value)
       [(''write_count'', u64_bytes (fb_write_count b)),
        (''prev_state'', u16_bytes (fb_prev_state b)),
        (''prev_state_dur'', time_bytes (fb_prev_state_dur b)),
        (''curr_state'', u16_bytes (fb_curr_state b)),
        (''curr_state_dur'', time_bytes (fb_curr_state_dur b))]"

definition FsmBlock_write :: "'w IStorage \<Rightarrow> (FsmBlock \<times> 'w) step" where
  "FsmBlock_write st bw =
     (let b = (fst bw)\<lparr>fb_write_count := fb_write_count (fst bw) + 1\<rparr>
      in case run_steps (FsmBlock_writes st b) (snd bw) of (code, w) \<Rightarrow> (code, (b, w)))"

text \<open>
  Reading one field: the storage fills the object representation of the field, whatever code it
  returns.
\<close>

definition read_field ::
    "'w IStorage \<Rightarrow> string \<Rightarrow> ('b \<Rightarrow> bytes) \<Rightarrow> (bytes \<Rightarrow> 'b \<Rightarrow> 'b) \<Rightarrow> ('b \<times> 'w) step" where
  "read_field st key get put bw =
     (case st_read st key (get (fst bw)) (snd bw) of
        (code, buf, w) \<Rightarrow> (code, (put buf (fst bw), w)))"

definition FsmBlock_read :: "'w IStorage \<Rightarrow> (FsmBlock \<times> 'w) step" where
  "FsmBlock_read st =
     run_steps
       [read_field st ''write_count'' (\<lambda>b. u64_bytes (fb_write_count b))
          (\<lambda>v b. b\<lparr>fb_write_count := u64_of_bytes v\<rparr>),
        read_field st ''prev_state'' (\<lambda>b. u16_bytes (fb_prev_state b))
          (\<lambda>v b. b\<lparr>fb_prev_state := u16_of_bytes v\<rparr>),
        read_field st ''prev_state_dur'' (\<lambda>b. time_bytes (fb_prev_state_dur b))
          (\<lambda>v b. b\<lparr>fb_prev_state_dur := time_of_bytes v\<rparr>),
        read_field st ''curr_state'' (\<lambda>b. u16_bytes (fb_curr_state b))
          (\<lambda>v b. b\<lparr>fb_curr_state := u16_of_bytes v\<rparr>),
        read_field st ''curr_state_dur'' (\<lambda>b. time_bytes (fb_curr_state_dur b))
          (\<lambda>v b. b\<lparr>fb_curr_state_dur := time_of_bytes v\<rparr>)]"

definition FsmBlock_zero :: "time \<Rightarrow> FsmBlock" where
  "FsmBlock_zero resolution =
     \<lparr>fb_resolution = resolution, fb_prev_state = 0, fb_curr_state = 0, fb_next_state = 0,
      fb_prev_state_dur = 0, fb_curr_state_dur = 0, fb_write_count = 0,
      fb_start_ts = 0, fb_saved_ts = 0\<rparr>"

definition FsmBlock_init :: "'w IStorage \<Rightarrow> time \<Rightarrow> 'w \<Rightarrow> (FsmBlock \<times> 'w) checked" where
  "FsmBlock_init st resolution w =
     (if resolution = 0 then Inl AssertFailed
      else Inr
       (case FsmBlock_read st (FsmBlock_zero resolution, w) of
          (code, (b, w')) \<Rightarrow>
            if code \<noteq> OK then (b, w') else (b\<lparr>fb_saved_ts := fb_curr_state_dur b\<rparr>, w')))"

definition FsmBlock_handle_reboot :: "('w \<Rightarrow> time) \<Rightarrow> 'w IStorage \<Rightarrow> FsmBlock \<times> 'w \<Rightarrow> FsmBlock \<times> 'w" where
  "FsmBlock_handle_reboot clock st bw =
     snd (FsmBlock_write st (FsmBlock_update (clock (snd bw)) (fst bw), snd bw))"

definition FsmBlock_run :: "'w IStorage \<Rightarrow> (FsmBlock \<times> 'w) step" where
  "FsmBlock_run st bw = FsmBlock_write st bw"

definition FsmBlock_transit :: "('w \<Rightarrow> time) \<Rightarrow> 'w IStorage \<Rightarrow> (FsmBlock \<times> 'w) step" where
  "FsmBlock_transit clock st bw =
     (let b = fst bw;
          b' = b\<lparr>fb_prev_state := fb_curr_state b, fb_prev_state_dur := fb_curr_state_dur b,
                 fb_curr_state := fb_next_state b, fb_curr_state_dur := 0,
                 fb_next_state := 0, fb_start_ts := clock (snd bw), fb_saved_ts := 0\<rparr>
      in FsmBlock_write st (b', snd bw))"

text \<open>What writing changes of the block: the counter only, whatever the storage does.\<close>

lemma FsmBlock_write_block [simp]:
  "fst (snd (FsmBlock_write st bw)) = (fst bw)\<lparr>fb_write_count := fb_write_count (fst bw) + 1\<rparr>"
  by (simp add: FsmBlock_write_def Let_def split: prod.splits)

lemma FsmBlock_transit_block:
  "fst (snd (FsmBlock_transit clock st (b, w))) =
     b\<lparr>fb_prev_state := fb_curr_state b, fb_prev_state_dur := fb_curr_state_dur b,
       fb_curr_state := fb_next_state b, fb_curr_state_dur := 0, fb_next_state := 0,
       fb_start_ts := clock w, fb_saved_ts := 0, fb_write_count := fb_write_count b + 1\<rparr>"
  by (simp add: FsmBlock_transit_def)

subsection \<open>Persistence\<close>

text \<open>What the storage holds after a block was written.\<close>

definition FsmBlock_stored :: "(string \<rightharpoonup> bytes) \<Rightarrow> FsmBlock \<Rightarrow> bool" where
  "FsmBlock_stored c b \<longleftrightarrow>
     c ''write_count'' = Some (u64_bytes (fb_write_count b))
   \<and> c ''prev_state'' = Some (u16_bytes (fb_prev_state b))
   \<and> c ''prev_state_dur'' = Some (time_bytes (fb_prev_state_dur b))
   \<and> c ''curr_state'' = Some (u16_bytes (fb_curr_state b))
   \<and> c ''curr_state_dur'' = Some (time_bytes (fb_curr_state_dur b))"

context key_value_store
begin

lemma FsmBlock_write_stored:
  assumes "healthy w 8" and "healthy w 2"
  shows "\<exists>w'. FsmBlock_write st (b, w) = (OK, (b\<lparr>fb_write_count := fb_write_count b + 1\<rparr>, w'))
    \<and> FsmBlock_stored (content w') (b\<lparr>fb_write_count := fb_write_count b + 1\<rparr>)
    \<and> healthy w' = healthy w"
proof -
  let ?b = "b\<lparr>fb_write_count := fb_write_count b + 1\<rparr>"
  let ?kvs = "[(''write_count'', u64_bytes (fb_write_count ?b)),
        (''prev_state'', u16_bytes (fb_prev_state ?b)),
        (''prev_state_dur'', time_bytes (fb_prev_state_dur ?b)),
        (''curr_state'', u16_bytes (fb_curr_state ?b)),
        (''curr_state_dur'', time_bytes (fb_curr_state_dur ?b))]"
  have "list_all (\<lambda>(k, v). healthy w (length v)) ?kvs" using assms by simp
  from run_writes [OF this] obtain w' where w':
    "run_steps (map (\<lambda>(k, v). st_write st k v) ?kvs) w = (OK, w')"
    "content w' = (content w) ++ map_of (rev ?kvs)" "healthy w' = healthy w"
    by blast
  have "FsmBlock_write st (b, w) = (OK, (?b, w'))"
    using w'(1) by (simp add: FsmBlock_write_def FsmBlock_writes_def Let_def del: run_steps.simps)
  moreover have "FsmBlock_stored (content w') ?b"
    unfolding w'(2) FsmBlock_stored_def by (simp add: map_add_def)
  ultimately show ?thesis using w'(3) by blast
qed

lemma read_field_hit:
  assumes "healthy w (length (get b))" and "content w k = Some v" and "length v = length (get b)"
  shows "\<exists>w'. read_field st k get put (b, w) = (OK, (put v b, w'))
    \<and> content w' = content w \<and> healthy w' = healthy w"
  using read_hit [of w "get b" k v] assms by (auto simp: read_field_def)

lemma read_field_then:
  assumes "healthy w (length (get b))" and "content w k = Some v" and "length v = length (get b)"
    and "\<And>w'. content w' = content w \<Longrightarrow> healthy w' = healthy w \<Longrightarrow>
      \<exists>w''. run_steps ms (put v b, w') = (OK, (r, w''))"
  shows "\<exists>w''. run_steps (read_field st k get put # ms) (b, w) = (OK, (r, w''))"
proof -
  obtain w' where w': "read_field st k get put (b, w) = (OK, (put v b, w'))"
    "content w' = content w" "healthy w' = healthy w"
    using read_field_hit [of w get b k v put] assms(1-3) by blast
  with assms(4) [OF w'(2,3)] show ?thesis by simp
qed

lemma FsmBlock_read_stored:
  assumes "healthy w 8" and "healthy w 2" and "FsmBlock_stored (content w) b"
    and "time_ok (fb_prev_state_dur b)" and "time_ok (fb_curr_state_dur b)"
  shows "\<exists>w'. FsmBlock_read st (b0, w) = (OK, (b0\<lparr>fb_write_count := fb_write_count b,
      fb_prev_state := fb_prev_state b, fb_prev_state_dur := fb_prev_state_dur b,
      fb_curr_state := fb_curr_state b, fb_curr_state_dur := fb_curr_state_dur b\<rparr>, w'))"
  unfolding FsmBlock_read_def
  using assms unfolding FsmBlock_stored_def
  by (auto intro!: read_field_then simp del: run_steps.simps(2))

end




section \<open>FsmStore\<close>

text \<open>
  A handler of a state sees the block and the system; both of its methods return a code that the
  store only logs.
\<close>

record 'w IFsmHandler =
  h_handle_state :: "(FsmBlock \<times> 'w) step"
  h_handle_transit :: "(FsmBlock \<times> 'w) step"

record 'w FsmStore =
  fs_is_transit_begin :: bool
  fs_handlers :: "State \<rightharpoonup> 'w IFsmHandler list"

definition FsmStore_init :: "'w FsmStore" where
  "FsmStore_init = \<lparr>fs_is_transit_begin = False, fs_handlers = Map.empty\<rparr>"

definition FsmStore_add :: "State \<Rightarrow> 'w IFsmHandler \<Rightarrow> 'w FsmStore \<Rightarrow> status_code \<times> 'w FsmStore" where
  "FsmStore_add state handler s =
     (OK, s\<lparr>fs_handlers := (fs_handlers s)(state \<mapsto>
        (case fs_handlers s state of None \<Rightarrow> [] | Some hs \<Rightarrow> hs) @ [handler])\<rparr>)"

definition FsmStore_handle_transit_begin :: "'w FsmStore \<Rightarrow> 'w FsmStore" where
  "FsmStore_handle_transit_begin s = s\<lparr>fs_is_transit_begin := True\<rparr>"

definition FsmStore_handle_transit_end ::
    "('w \<Rightarrow> time) \<Rightarrow> 'w IStorage \<Rightarrow> 'w FsmStore \<Rightarrow> FsmBlock \<times> 'w \<Rightarrow>
       ('w FsmStore \<times> FsmBlock \<times> 'w) checked" where
  "FsmStore_handle_transit_end clock st s bw =
     (case fs_handlers s (fb_curr_state (fst bw)) of
        None \<Rightarrow> Inl AssertFailed
      | Some hs \<Rightarrow>
          let bw1 = fold (\<lambda>h x. snd (h_handle_transit h x)) hs bw;
              bw2 = snd (FsmBlock_transit clock st bw1)
          in Inr (s\<lparr>fs_is_transit_begin := False\<rparr>, bw2))"

definition FsmStore_handle_state ::
    "'w FsmStore \<Rightarrow> FsmBlock \<times> 'w \<Rightarrow> (FsmBlock \<times> 'w) checked" where
  "FsmStore_handle_state s bw =
     (case fs_handlers s (fb_curr_state (fst bw)) of
        None \<Rightarrow> Inl AssertFailed
      | Some hs \<Rightarrow> Inr (fold (\<lambda>h x. snd (h_handle_state h x)) hs bw))"

definition FsmStore_run ::
    "('w \<Rightarrow> time) \<Rightarrow> 'w IStorage \<Rightarrow> 'w FsmStore \<Rightarrow> FsmBlock \<times> 'w \<Rightarrow>
       (status_code \<times> 'w FsmStore \<times> FsmBlock \<times> 'w) checked" where
  "FsmStore_run clock st s bw =
     (let bw0 = (FsmBlock_update (clock (snd bw)) (fst bw), snd bw)
      in case (if fs_is_transit_begin s then FsmStore_handle_transit_end clock st s bw0
               else Inr (s, bw0)) of
           Inl f \<Rightarrow> Inl f
         | Inr (s1, bw1) \<Rightarrow>
             (case FsmStore_handle_state s1 bw1 of
                Inl f \<Rightarrow> Inl f
              | Inr bw2 \<Rightarrow>
                  Inr (OK, (if FsmBlock_is_in_transit (fst bw2)
                            then FsmStore_handle_transit_begin s1 else s1), bw2)))"

subsection \<open>The contract of the handlers and the reachable states\<close>

text \<open>
  A handler influences the block through \<^verbatim>\<open>set_next\<close> only, asks for states that have
  handlers (or none), and does not ask for anything while the transition is being performed.
\<close>

definition handler_ok :: "State set \<Rightarrow> 'w IFsmHandler \<Rightarrow> bool" where
  "handler_ok states h \<longleftrightarrow>
     (\<forall>b w. (\<exists>n. n \<in> insert (fb_next_state b) (insert 0 states)
               \<and> fst (snd (h_handle_state h (b, w))) = FsmBlock_set_next n b)
          \<and> fst (snd (h_handle_transit h (b, w))) = b)"

definition handlers_ok :: "'w FsmStore \<Rightarrow> bool" where
  "handlers_ok s \<longleftrightarrow>
     (\<forall>hs \<in> ran (fs_handlers s). \<forall>h \<in> set hs. handler_ok (dom (fs_handlers s)) h)"

text \<open>
  What happens to a store: it is run, its block is saved by the periodic task, and the rest of the
  system moves.
\<close>

inductive FsmStore_reach ::
    "('w \<Rightarrow> time) \<Rightarrow> 'w IStorage \<Rightarrow> 'w FsmStore \<Rightarrow> FsmBlock \<Rightarrow> 'w \<Rightarrow> bool"
  for clock :: "'w \<Rightarrow> time" and st :: "'w IStorage"
where
  reach_init: "handlers_ok s \<Longrightarrow> \<not> fs_is_transit_begin s \<Longrightarrow> fb_next_state b = 0 \<Longrightarrow>
     fb_curr_state b \<in> dom (fs_handlers s) \<Longrightarrow> FsmStore_reach clock st s b w"
| reach_run: "FsmStore_reach clock st s b w \<Longrightarrow>
     FsmStore_run clock st s (b, w) = Inr (c, s', b', w') \<Longrightarrow> FsmStore_reach clock st s' b' w'"
| reach_save: "FsmStore_reach clock st s b w \<Longrightarrow>
     FsmBlock_run st (b, w) = (c, b', w') \<Longrightarrow> FsmStore_reach clock st s b' w'"
| reach_world: "FsmStore_reach clock st s b w \<Longrightarrow> FsmStore_reach clock st s b w'"

definition FsmStore_inv :: "'w FsmStore \<Rightarrow> FsmBlock \<Rightarrow> bool" where
  "FsmStore_inv s b \<longleftrightarrow> handlers_ok s
     \<and> (fs_is_transit_begin s \<longleftrightarrow> FsmBlock_is_in_transit b)
     \<and> fb_curr_state b \<in> dom (fs_handlers s)
     \<and> (fb_next_state b = 0 \<or> fb_next_state b \<in> dom (fs_handlers s))"

text \<open>Running a list of handlers of one kind.\<close>

lemma fold_handle_transit:
  assumes "\<forall>h \<in> set hs. handler_ok D h"
  shows "fst (fold (\<lambda>h x. snd (h_handle_transit h x)) hs (b, w)) = b"
  using assms
proof (induction hs arbitrary: w)
  case Nil
  show ?case by simp
next
  case (Cons h hs)
  obtain w' where "snd (h_handle_transit h (b, w)) = (b, w')"
    using Cons.prems unfolding handler_ok_def by (metis list.set_intros(1) prod.collapse)
  with Cons show ?case by simp
qed

lemma fold_handle_state:
  assumes "\<forall>h \<in> set hs. handler_ok D h"
  shows "\<exists>n \<in> insert (fb_next_state b) (insert 0 D).
    fst (fold (\<lambda>h x. snd (h_handle_state h x)) hs (b, w)) = FsmBlock_set_next n b"
  using assms
proof (induction hs arbitrary: b w)
  case Nil
  show ?case by (simp add: FsmBlock_set_next_def)
next
  case (Cons h hs)
  obtain n w' where n: "n \<in> insert (fb_next_state b) (insert 0 D)"
    "snd (h_handle_state h (b, w)) = (FsmBlock_set_next n b, w')"
    using Cons.prems unfolding handler_ok_def by (metis list.set_intros(1) prod.collapse)
  with Cons.IH [of "FsmBlock_set_next n b" w'] Cons.prems show ?case
    by (auto simp: FsmBlock_set_next_def)
qed

text \<open>One run from a state with the invariant.\<close>

lemma FsmStore_run_spec:
  assumes "FsmStore_inv s b"
  shows "\<exists>s' b' w'. FsmStore_run clock st s (b, w) = Inr (OK, s', b', w')
    \<and> FsmStore_inv s' b' \<and> fs_handlers s' = fs_handlers s
    \<and> (if FsmBlock_is_in_transit b
       then fb_curr_state b' = fb_next_state b \<and> fb_prev_state b' = fb_curr_state b
          \<and> fb_prev_state_dur b' = fb_curr_state_dur (FsmBlock_update (clock w) b)
          \<and> fb_curr_state_dur b' = 0
       else fb_curr_state b' = fb_curr_state b \<and> fb_prev_state b' = fb_prev_state b
          \<and> fb_prev_state_dur b' = fb_prev_state_dur b
          \<and> fb_curr_state_dur b' = fb_curr_state_dur (FsmBlock_update (clock w) b))"
proof -
  let ?D = "dom (fs_handlers s)"
  let ?u = "FsmBlock_update (clock w) b"
  have u: "fb_curr_state ?u = fb_curr_state b" "fb_next_state ?u = fb_next_state b"
    "fb_prev_state ?u = fb_prev_state b" "fb_prev_state_dur ?u = fb_prev_state_dur b"
    by (simp_all add: FsmBlock_update_def Let_def)
  have ok: "\<forall>h \<in> set hs. handler_ok ?D h" if "fs_handlers s k = Some hs" for k hs
    using assms that unfolding FsmStore_inv_def handlers_ok_def by (meson ranI)
  have state: "\<exists>b2 w2 n. FsmStore_handle_state s1 (b1, w1) = Inr (b2, w2)
      \<and> n \<in> insert (fb_next_state b1) (insert 0 ?D) \<and> b2 = FsmBlock_set_next n b1"
    if "fb_curr_state b1 \<in> ?D" "fs_handlers s1 = fs_handlers s" for s1 :: "'a FsmStore" and b1 w1
  proof -
    from that obtain hs where hs: "fs_handlers s (fb_curr_state b1) = Some hs" by blast
    from fold_handle_state [OF ok [OF hs], of b1 w1] that hs show ?thesis
      by (simp add: FsmStore_handle_state_def) (metis prod.collapse)
  qed
  obtain hs where hs: "fs_handlers s (fb_curr_state b) = Some hs"
    using assms by (auto simp: FsmStore_inv_def)
  show ?thesis
  proof (cases "FsmBlock_is_in_transit b")
    case True
    obtain w1 where w1: "fold (\<lambda>h x. snd (h_handle_transit h x)) hs (?u, w) = (?u, w1)"
      using fold_handle_transit [OF ok [OF hs]] by (metis prod.collapse)
    obtain b2 w2 where b2: "snd (FsmBlock_transit clock st (?u, w1)) = (b2, w2)" by fastforce
    let ?s1 = "s\<lparr>fs_is_transit_begin := False\<rparr>"
    have te: "FsmStore_handle_transit_end clock st s (?u, w) = Inr (?s1, b2, w2)"
      using w1 hs b2 u by (simp add: FsmStore_handle_transit_end_def)
    have b2s: "fb_curr_state b2 = fb_next_state b" "fb_prev_state b2 = fb_curr_state b"
      "fb_prev_state_dur b2 = fb_curr_state_dur ?u" "fb_curr_state_dur b2 = 0"
      "fb_next_state b2 = 0"
      using FsmBlock_transit_block [of clock st ?u w1] b2 u by simp_all
    have "fb_curr_state b2 \<in> ?D"
      using assms True b2s by (auto simp: FsmStore_inv_def FsmBlock_is_in_transit_def)
    from state [OF this, of ?s1 w2] obtain b3 w3 n where b3:
      "FsmStore_handle_state ?s1 (b2, w2) = Inr (b3, w3)" "n \<in> insert 0 ?D"
      "b3 = FsmBlock_set_next n b2"
      using b2s by auto
    have flag: "fs_is_transit_begin s" using assms True by (simp add: FsmStore_inv_def)
    let ?s2 = "if FsmBlock_is_in_transit b3 then FsmStore_handle_transit_begin ?s1 else ?s1"
    have "FsmStore_run clock st s (b, w) = Inr (OK, ?s2, b3, w3)"
      using te b3(1) flag by (simp add: FsmStore_run_def)
    moreover have "FsmStore_inv ?s2 b3"
      using assms b3 \<open>fb_curr_state b2 \<in> ?D\<close>
      by (auto simp: FsmStore_inv_def handlers_ok_def FsmBlock_set_next_def
          FsmStore_handle_transit_begin_def)
    moreover have "fs_handlers ?s2 = fs_handlers s"
      by (simp add: FsmStore_handle_transit_begin_def)
    ultimately show ?thesis using True b3 b2s by (simp add: FsmBlock_set_next_def)
  next
    case False
    from state [of ?u s w] obtain b3 w3 n where b3:
      "FsmStore_handle_state s (?u, w) = Inr (b3, w3)" "n \<in> insert (fb_next_state b) (insert 0 ?D)"
      "b3 = FsmBlock_set_next n ?u"
      using u hs by auto
    have flag: "\<not> fs_is_transit_begin s" using assms False by (simp add: FsmStore_inv_def)
    let ?s2 = "if FsmBlock_is_in_transit b3 then FsmStore_handle_transit_begin s else s"
    have "FsmStore_run clock st s (b, w) = Inr (OK, ?s2, b3, w3)"
      using b3(1) flag by (simp add: FsmStore_run_def)
    moreover have "FsmStore_inv ?s2 b3"
      using assms b3 u flag
      by (auto simp: FsmStore_inv_def handlers_ok_def FsmBlock_set_next_def
          FsmStore_handle_transit_begin_def)
    moreover have "fs_handlers ?s2 = fs_handlers s"
      by (simp add: FsmStore_handle_transit_begin_def)
    ultimately show ?thesis using False b3 u by (simp add: FsmBlock_set_next_def)
  qed
qed

lemma FsmStore_reach_inv: "FsmStore_reach clock st s b w \<Longrightarrow> FsmStore_inv s b"
proof (induction rule: FsmStore_reach.induct)
  case (reach_init s b w)
  then show ?case by (auto simp: FsmStore_inv_def FsmBlock_is_in_transit_def)
next
  case (reach_run s b w c s' b' w')
  with FsmStore_run_spec [of s b clock st w] show ?case by auto
next
  case (reach_save s b w c b' w')
  have "b' = b\<lparr>fb_write_count := fb_write_count b + 1\<rparr>"
    using FsmBlock_write_block [of st "(b, w)"] reach_save(2)
    by (simp add: FsmBlock_run_def del: FsmBlock_write_block)
  with reach_save show ?case
    by (simp add: FsmStore_inv_def FsmBlock_is_in_transit_def)
next
  case (reach_world s b w w')
  then show ?case by simp
qed


text \<open>A store with two states whose handlers toggle between them, for the witnesses.\<close>

definition toggle_handler :: "State \<Rightarrow> 'w IFsmHandler" where
  "toggle_handler n = \<lparr>h_handle_state = (\<lambda>(b, w). (OK, FsmBlock_set_next n b, w)),
     h_handle_transit = (\<lambda>x. (OK, x))\<rparr>"

definition toggle_store :: "'w FsmStore" where
  "toggle_store =
     snd (FsmStore_add 2 (toggle_handler 1) (snd (FsmStore_add 1 (toggle_handler 2) FsmStore_init)))"

lemma toggle_store_handlers [simp]:
  "fs_handlers toggle_store = [1 \<mapsto> [toggle_handler 2], 2 \<mapsto> [toggle_handler 1]]"
  "\<not> fs_is_transit_begin toggle_store"
  by (simp_all add: toggle_store_def FsmStore_add_def FsmStore_init_def)

lemma toggle_handlers_ok: "handlers_ok toggle_store"
proof -
  have "handler_ok {1, 2} (toggle_handler n)" if "n \<in> {1, 2}" for n :: State
    using that unfolding handler_ok_def toggle_handler_def by auto
  moreover have "dom (fs_handlers toggle_store) = {1, 2}" by auto
  moreover have "ran (fs_handlers toggle_store) \<subseteq> {[toggle_handler 1], [toggle_handler 2]}"
    by (auto simp: ran_def split: if_splits)
  ultimately show ?thesis unfolding handlers_ok_def by fastforce
qed

lemma toggle_reach:
  "FsmStore_reach clock st toggle_store ((FsmBlock_zero 1)\<lparr>fb_curr_state := 1\<rparr>) w"
  by (rule FsmStore_reach.reach_init) (simp_all add: toggle_handlers_ok FsmBlock_zero_def)


text \<open>
  Transitions take two runs: a run in which a transition is pending performs it (the pending state
  becomes current, the old one becomes previous with the time it lasted, and the new state starts at
  zero), a run without one leaves the states as they are; so a state that was requested in one run is
  current after the next, and a transition always leads to another state, never to state 0.
\<close>

theorem FsmStore_run_transits:
  assumes "FsmStore_reach clock st s b w"
    and "FsmStore_run clock st s (b, w) = Inr (c, s', b', w')"
  shows "if fs_is_transit_begin s
    then fb_curr_state b' = fb_next_state b \<and> fb_curr_state b' \<noteq> 0
       \<and> fb_prev_state b' = fb_curr_state b \<and> fb_prev_state b' \<noteq> fb_curr_state b'
       \<and> fb_prev_state_dur b' = fb_curr_state_dur (FsmBlock_update (clock w) b)
       \<and> fb_curr_state_dur b' = 0
    else fb_curr_state b' = fb_curr_state b \<and> fb_prev_state b' = fb_prev_state b
       \<and> fb_prev_state_dur b' = fb_prev_state_dur b
       \<and> fb_curr_state_dur b' = fb_curr_state_dur (FsmBlock_update (clock w) b)"
proof -
  have inv: "FsmStore_inv s b" using FsmStore_reach_inv [OF assms(1)] .
  with FsmStore_run_spec [OF inv, of clock st w] assms(2) show ?thesis
    by (auto simp: FsmStore_inv_def FsmBlock_is_in_transit_def split: if_splits)
qed

theorem FsmStore_run_transits_witness:
  "\<exists>s' b' w'. FsmStore_run (\<lambda>_. 5) (NvsStorage_vtable mem_nvs_api (NvsStorage_init ''n''))
     toggle_store ((FsmBlock_zero 1)\<lparr>fb_curr_state := 1\<rparr>, mem_empty) = Inr (OK, s', b', w')
   \<and> fb_curr_state b' = 1 \<and> fb_curr_state_dur b' = 5"
proof -
  let ?st = "NvsStorage_vtable mem_nvs_api (NvsStorage_init ''n'')"
  let ?b = "(FsmBlock_zero 1)\<lparr>fb_curr_state := 1\<rparr>"
  obtain s' b' w' where run:
    "FsmStore_run (\<lambda>_. 5) ?st toggle_store (?b, mem_empty) = Inr (OK, s', b', w')"
    using FsmStore_run_spec [OF FsmStore_reach_inv [OF toggle_reach], where clock = "\<lambda>_. 5"
        and st = ?st and w = mem_empty] by blast
  from FsmStore_run_transits [OF toggle_reach run] run show ?thesis
    by (auto simp: FsmBlock_zero_def FsmBlock_update_def)
qed

end
