(* ===== verification/Diagnostic.thy ===== *)
theory Diagnostic
  imports Storage
begin

text \<open>
  \<open>components/ocs_diagnostic\<close>: counters with bounded identifiers, the time counter, and the
  two counters that persist their value across reboots. A counter is used through the interface
  \<^verbatim>\<open>ICounter\<close>; what it returns is a function of the state of the system.
\<close>

section \<open>Counters\<close>

record 'w ICounter =
  ct_id :: string
  ct_get :: "'w \<Rightarrow> u64"

record BasicCounter =
  bc_id :: string

definition BasicCounter_bufsize :: nat where "BasicCounter_bufsize = 15"

definition BasicCounter_init :: "string \<Rightarrow> BasicCounter checked" where
  "BasicCounter_init cid =
     (if cid = [] then Inl AssertFailed
      else Inr \<lparr>bc_id = take (min BasicCounter_bufsize (length cid)) cid\<rparr>)"

text \<open>\<^verbatim>\<open>get\<close> converts the signed quotient to \<^verbatim>\<open>uint64_t\<close>.\<close>

record TimeCounter = BasicCounter +
  tc_resolution :: time
  tc_offset :: time

definition TimeCounter_init :: "string \<Rightarrow> time \<Rightarrow> TimeCounter checked" where
  "TimeCounter_init cid resolution =
     (case BasicCounter_init cid of
        Inl f \<Rightarrow> Inl f
      | Inr bc \<Rightarrow>
          if resolution = 0 then Inl AssertFailed
          else Inr \<lparr>bc_id = bc_id bc, tc_resolution = resolution, tc_offset = 0\<rparr>)"

definition TimeCounter_get :: "TimeCounter \<Rightarrow> time \<Rightarrow> u64" where
  "TimeCounter_get c now = word_of_int ((now - tc_offset c) sdiv tc_resolution c)"

definition TimeCounter_reset :: "time \<Rightarrow> TimeCounter \<Rightarrow> TimeCounter" where
  "TimeCounter_reset now c = c\<lparr>tc_offset := now\<rparr>"

definition BasicCounterHolder_add :: "'c \<Rightarrow> 'c list \<Rightarrow> 'c list" where
  "BasicCounterHolder_add counter counters = counters @ [counter]"

section \<open>Persistent counters\<close>

text \<open>
  \<^verbatim>\<open>BasicPersistentCounter\<close> reads the stored value once, when it is created, and stores
  \<^verbatim>\<open>get()\<close>, which is virtual and so a parameter.
\<close>

record 'w BasicPersistentCounter =
  pc_counter :: "'w ICounter"
  pc_value :: u64

definition BasicPersistentCounter_init ::
    "'w IStorage \<Rightarrow> 'w ICounter \<Rightarrow> 'w \<Rightarrow> 'w BasicPersistentCounter \<times> 'w" where
  "BasicPersistentCounter_init st counter w =
     (case st_read st (ct_id counter) (u64_bytes 0) w of
        (code, value, w') \<Rightarrow> (\<lparr>pc_counter = counter, pc_value = u64_of_bytes value\<rparr>, w'))"

definition BasicPersistentCounter_id :: "'w BasicPersistentCounter \<Rightarrow> string" where
  "BasicPersistentCounter_id pc = ct_id (pc_counter pc)"

definition BasicPersistentCounter_save ::
    "('w BasicPersistentCounter \<Rightarrow> 'w \<Rightarrow> u64) \<Rightarrow> 'w IStorage \<Rightarrow> 'w BasicPersistentCounter \<Rightarrow>
       'w step" where
  "BasicPersistentCounter_save get st pc w =
     st_write st (ct_id (pc_counter pc)) (u64_bytes (get pc w)) w"

definition BasicPersistentCounter_run ::
    "('w BasicPersistentCounter \<Rightarrow> 'w \<Rightarrow> u64) \<Rightarrow> 'w IStorage \<Rightarrow> 'w BasicPersistentCounter \<Rightarrow>
       'w step" where
  "BasicPersistentCounter_run get st pc w = BasicPersistentCounter_save get st pc w"

definition BasicPersistentCounter_handle_reboot ::
    "('w BasicPersistentCounter \<Rightarrow> 'w \<Rightarrow> u64) \<Rightarrow> 'w IStorage \<Rightarrow> 'w BasicPersistentCounter \<Rightarrow>
       'w \<Rightarrow> 'w" where
  "BasicPersistentCounter_handle_reboot get st pc w =
     snd (BasicPersistentCounter_save get st pc w)"

definition AccPersistentCounter_init ::
    "'w IStorage \<Rightarrow> 'w ICounter \<Rightarrow> 'w \<Rightarrow> 'w BasicPersistentCounter \<times> 'w" where
  "AccPersistentCounter_init st counter w = BasicPersistentCounter_init st counter w"

definition AccPersistentCounter_get :: "'w BasicPersistentCounter \<Rightarrow> 'w \<Rightarrow> u64" where
  "AccPersistentCounter_get pc w = pc_value pc + ct_get (pc_counter pc) w"

definition MemPersistentCounter_init ::
    "'w IStorage \<Rightarrow> 'w ICounter \<Rightarrow> 'w \<Rightarrow> 'w BasicPersistentCounter \<times> 'w" where
  "MemPersistentCounter_init st counter w =
     (case BasicPersistentCounter_init st counter w of
        (pc, w1) \<Rightarrow> (pc, snd (st_erase st (BasicPersistentCounter_id pc) w1)))"

definition MemPersistentCounter_get :: "'w BasicPersistentCounter \<Rightarrow> 'w \<Rightarrow> u64" where
  "MemPersistentCounter_get pc w = pc_value pc + ct_get (pc_counter pc) w"

subsection \<open>What a stored counter is worth\<close>

definition stored_value :: "bytes option \<Rightarrow> u64" where
  "stored_value c = (case c of None \<Rightarrow> 0 | Some v \<Rightarrow> u64_of_bytes v)"

definition counter_sized :: "bytes option \<Rightarrow> bool" where
  "counter_sized c \<longleftrightarrow> (case c of None \<Rightarrow> True | Some v \<Rightarrow> length v = 8)"

lemma stored_value_simps [simp]:
  "stored_value None = 0" "stored_value (Some (u64_bytes x)) = x"
  "counter_sized None" "counter_sized (Some (u64_bytes x))"
  by (simp_all add: stored_value_def counter_sized_def)

context key_value_store
begin

lemma counter_init:
  assumes "healthy w 8" and "counter_sized (content w (ct_id c))"
  shows "\<exists>w'. BasicPersistentCounter_init st c w
      = (\<lparr>pc_counter = c, pc_value = stored_value (content w (ct_id c))\<rparr>, w')
    \<and> content w' = content w \<and> healthy w' = healthy w"
proof (cases "content w (ct_id c)")
  case None
  then show ?thesis
    using read_miss [of w "u64_bytes 0" "ct_id c"] assms
    by (auto simp: BasicPersistentCounter_init_def)
next
  case (Some v)
  then show ?thesis
    using read_hit [of w "u64_bytes 0" "ct_id c" v] assms
    by (auto simp: BasicPersistentCounter_init_def counter_sized_def stored_value_def)
qed

lemma counter_run:
  assumes "healthy w 8"
  shows "\<exists>w'. BasicPersistentCounter_run get st pc w = (OK, w')
    \<and> content w' = (content w)(ct_id (pc_counter pc) \<mapsto> u64_bytes (get pc w))
    \<and> healthy w' = healthy w"
  using stores [of w "u64_bytes (get pc w)" "ct_id (pc_counter pc)"] assms
  by (simp add: BasicPersistentCounter_run_def BasicPersistentCounter_save_def)

lemma mem_counter_init:
  assumes "healthy w 8" and "counter_sized (content w (ct_id c))"
  shows "\<exists>w'. MemPersistentCounter_init st c w
      = (\<lparr>pc_counter = c, pc_value = stored_value (content w (ct_id c))\<rparr>, w')
    \<and> content w' = (content w)(ct_id c := None) \<and> healthy w' = healthy w"
proof -
  obtain w1 where w1: "BasicPersistentCounter_init st c w
      = (\<lparr>pc_counter = c, pc_value = stored_value (content w (ct_id c))\<rparr>, w1)"
    "content w1 = content w" "healthy w1 = healthy w"
    using counter_init [OF assms] by blast
  then have "healthy w1 8" using assms by simp
  from erases [OF this, of "ct_id c"] w1 show ?thesis
    by (auto simp: MemPersistentCounter_init_def BasicPersistentCounter_id_def)
qed

end

subsection \<open>Lives of a device\<close>

text \<open>
  A life of the device, from its boot to its reboot: the counter is created, and saved once for each
  reading in a non-empty list, the last one by \<^verbatim>\<open>handle_reboot\<close> or by the last periodic
  run. Between two saves the system moves: \<open>tick r\<close> changes the state in a way that leaves the
  storage alone and makes the underlying counter read \<open>r\<close>.
\<close>

definition counter_life ::
    "('w IStorage \<Rightarrow> 'w ICounter \<Rightarrow> 'w \<Rightarrow> 'w BasicPersistentCounter \<times> 'w) \<Rightarrow>
     ('w BasicPersistentCounter \<Rightarrow> 'w \<Rightarrow> u64) \<Rightarrow> (u64 \<Rightarrow> 'w \<Rightarrow> 'w) \<Rightarrow> 'w IStorage \<Rightarrow> 'w ICounter \<Rightarrow>
     u64 list \<Rightarrow> 'w \<Rightarrow> 'w" where
  "counter_life init get tick st c rs w =
     (case init st c w of
        (pc, w1) \<Rightarrow> fold (\<lambda>r v. snd (BasicPersistentCounter_run get st pc (tick r v))) rs w1)"

definition tick_ok ::
    "('w \<Rightarrow> bool) \<Rightarrow> ('w \<Rightarrow> string \<Rightarrow> string \<rightharpoonup> bytes) \<Rightarrow> 'w ICounter \<Rightarrow> (u64 \<Rightarrow> 'w \<Rightarrow> 'w) \<Rightarrow> bool" where
  "tick_ok good blobs c tick \<longleftrightarrow>
     (\<forall>r w. (good w \<longrightarrow> good (tick r w)) \<and> blobs (tick r w) = blobs w \<and> ct_get c (tick r w) = r)"

lemma counter_saves:
  assumes "nvs_laws api good blobs bound" and "tick_ok good blobs c tick" and "good w"
    and "get = AccPersistentCounter_get \<or> get = MemPersistentCounter_get" and "pc_counter pc = c"
  shows "good (fold (\<lambda>r v. snd (BasicPersistentCounter_run get
            (NvsStorage_vtable api self) pc (tick r v))) rs w)
    \<and> blobs (fold (\<lambda>r v. snd (BasicPersistentCounter_run get
            (NvsStorage_vtable api self) pc (tick r v))) rs w) (nvs_ns self) (ct_id c)
      = (if rs = [] then blobs w (nvs_ns self) (ct_id c)
         else Some (u64_bytes (pc_value pc + List.last rs)))"
  using assms(3)
proof (induction rs arbitrary: w)
  case Nil
  then show ?case by simp
next
  case (Cons r rs)
  note kv = NvsStorage_key_value_store [OF assms(1), of self]
  have "good (tick r w)" using assms(2) Cons.prems by (simp add: tick_ok_def)
  then have h: "nvs_healthy good (tick r w) 8" by (simp add: nvs_healthy_def)
  from key_value_store.counter_run [OF kv h, of get pc]
  obtain w' where w': "BasicPersistentCounter_run get (NvsStorage_vtable api self) pc (tick r w) = (OK, w')"
    "blobs w' (nvs_ns self)
       = (blobs (tick r w) (nvs_ns self))(ct_id c \<mapsto> u64_bytes (get pc (tick r w)))"
    "nvs_healthy good w' = nvs_healthy good (tick r w)"
    using assms(5) by blast
  have "good w'" using w'(3) h by (simp add: nvs_healthy_def fun_eq_iff) blast
  moreover have "get pc (tick r w) = pc_value pc + r"
    using assms(2,4,5)
    by (auto simp: AccPersistentCounter_get_def MemPersistentCounter_get_def tick_ok_def)
  ultimately show ?case using Cons.IH [of w'] w'(1,2) by (cases rs) simp_all
qed

text \<open>
  The accumulating counter loses nothing that was saved and counts nothing twice: after any number of
  lives, each with any number of periodic saves, the stored value is the initial one plus the last
  saved reading of every life, modulo the width of the counter.
\<close>

theorem AccPersistentCounter_accumulates:
  assumes "nvs_laws api good blobs bound" and "tick_ok good blobs c tick" and "good w"
    and "counter_sized (blobs w (nvs_ns self) (ct_id c))" and "[] \<notin> set lives"
  shows "stored_value (blobs (fold (counter_life AccPersistentCounter_init AccPersistentCounter_get
        tick (NvsStorage_vtable api self) c) lives w) (nvs_ns self) (ct_id c))
    = stored_value (blobs w (nvs_ns self) (ct_id c)) + sum_list (map List.last lives)"
  using assms(3-5)
proof (induction lives arbitrary: w)
  case Nil
  then show ?case by simp
next
  case (Cons rs lives)
  note kv = NvsStorage_key_value_store [OF assms(1), of self]
  let ?c = "blobs w (nvs_ns self) (ct_id c)"
  let ?pc = "\<lparr>pc_counter = c, pc_value = stored_value ?c\<rparr>"
  have h: "nvs_healthy good w 8" using Cons.prems by (simp add: nvs_healthy_def)
  from key_value_store.counter_init [OF kv h, of c] Cons.prems(2)
  obtain w1 where w1: "AccPersistentCounter_init (NvsStorage_vtable api self) c w = (?pc, w1)"
    "nvs_healthy good w1 = nvs_healthy good w"
    by (auto simp: AccPersistentCounter_init_def)
  have "good w1" using w1(2) h by (simp add: nvs_healthy_def fun_eq_iff) blast
  let ?w = "counter_life AccPersistentCounter_init AccPersistentCounter_get
        tick (NvsStorage_vtable api self) c rs w"
  have "good ?w \<and> blobs ?w (nvs_ns self) (ct_id c)
      = Some (u64_bytes (stored_value ?c + List.last rs))"
    using counter_saves [OF assms(1,2) \<open>good w1\<close>, of AccPersistentCounter_get ?pc self rs] w1(1)
      Cons.prems(3)
    by (auto simp: counter_life_def)
  with Cons.IH [of ?w] Cons.prems(3) show ?case by (simp add: add.assoc)
qed

text \<open>A counter register beside the NVS, for the witnesses.\<close>

definition register_counter :: "(mem_nvs \<times> u64) ICounter" where
  "register_counter = \<lparr>ct_id = ''c'', ct_get = snd\<rparr>"

lemma register_tick_ok:
  "tick_ok (\<lambda>_. True) (\<lambda>w. mem_blobs (fst w)) register_counter (\<lambda>r w. (fst w, r))"
  by (simp add: tick_ok_def register_counter_def)

theorem AccPersistentCounter_accumulates_witness:
  "stored_value (mem_blobs (fst (fold (counter_life AccPersistentCounter_init
      AccPersistentCounter_get (\<lambda>r w. (fst w, r)) (NvsStorage_vtable (lift_nvs mem_nvs_api)
      (NvsStorage_init ''ns'')) register_counter) [[1, 5], [2], [3, 4]] (mem_empty, 0))) ''ns'' ''c'')
   = 11"
  using AccPersistentCounter_accumulates [OF lift_mem_nvs_laws register_tick_ok, of "(mem_empty, 0)"
      "NvsStorage_init ''ns''" "[[1, 5], [2], [3, 4]]"]
  by (simp add: NvsStorage_init_def NvsStorage_bufsize_def register_counter_def)

text \<open>
  The in-memory counter hands its value over to the next life only: creating it takes the stored
  value and erases it, so that a life that saves leaves the sum for the next one, and a life that ends
  without a save (a crash) leaves nothing.
\<close>

theorem MemPersistentCounter_once:
  assumes "nvs_laws api good blobs bound" and "tick_ok good blobs c tick" and "good w"
    and "counter_sized (blobs w (nvs_ns self) (ct_id c))"
  shows "blobs (counter_life MemPersistentCounter_init MemPersistentCounter_get tick
        (NvsStorage_vtable api self) c rs w) (nvs_ns self) (ct_id c)
    = (if rs = [] then None
       else Some (u64_bytes (stored_value (blobs w (nvs_ns self) (ct_id c)) + List.last rs)))"
proof -
  note kv = NvsStorage_key_value_store [OF assms(1), of self]
  let ?pc = "\<lparr>pc_counter = c, pc_value = stored_value (blobs w (nvs_ns self) (ct_id c))\<rparr>"
  have h: "nvs_healthy good w 8" using assms by (simp add: nvs_healthy_def)
  from key_value_store.mem_counter_init [OF kv h, of c] assms(4)
  obtain w1 where w1: "MemPersistentCounter_init (NvsStorage_vtable api self) c w = (?pc, w1)"
    "blobs w1 (nvs_ns self) = (blobs w (nvs_ns self))(ct_id c := None)"
    "nvs_healthy good w1 = nvs_healthy good w"
    by auto
  have "good w1" using w1(3) h by (simp add: nvs_healthy_def fun_eq_iff) blast
  from counter_saves [OF assms(1,2) this, of MemPersistentCounter_get ?pc self rs] w1(1,2)
  show ?thesis by (simp add: counter_life_def)
qed

theorem MemPersistentCounter_once_witness:
  "mem_blobs (fst (counter_life MemPersistentCounter_init MemPersistentCounter_get
      (\<lambda>r w. (fst w, r)) (NvsStorage_vtable (lift_nvs mem_nvs_api) (NvsStorage_init ''ns''))
      register_counter [7] (mem_empty, 0))) ''ns'' ''c'' = Some (u64_bytes 7)"
  using MemPersistentCounter_once [OF lift_mem_nvs_laws register_tick_ok, of "(mem_empty, 0)"
      "NvsStorage_init ''ns''" "[7]"]
  by (simp add: NvsStorage_init_def NvsStorage_bufsize_def register_counter_def)

end
