(* ===== verification/Core.thy ===== *)
theory Core
  imports Timing
begin

text \<open>
  \<open>components/ocs_core\<close>: versions (version.cpp, version_to_str.cpp) and byte streams
  (stream_transceiver.cpp, file_stream_reader.cpp), with the writer for chunked HTTP responses
  (ocs_http/chunk_stream_writer.cpp), which the transceiver is used with. The C library's
  \<^verbatim>\<open>sscanf\<close> and \<^verbatim>\<open>FILE\<close> are modelled for the calls the code makes.
\<close>

section \<open>Version\<close>

datatype Version = Version (v_major: u16) (v_minor: u16) (v_patch: u16)

text \<open>\<^verbatim>\<open>memcmp\<close> of three 16-bit fields without padding is equality.\<close>

definition Version_equal :: "Version \<Rightarrow> Version \<Rightarrow> bool" where
  "Version_equal a b \<longleftrightarrow> v_major a = v_major b \<and> v_minor a = v_minor b \<and> v_patch a = v_patch b"

definition Version_less :: "Version \<Rightarrow> Version \<Rightarrow> bool" where
  "Version_less a b =
     (if v_major a < v_major b then True
      else if v_minor a < v_minor b then True
      else v_patch a < v_patch b)"

text \<open>The order of semantic versions, the order the operator is meant to be.\<close>

instantiation Version :: linorder
begin

definition less_Version :: "Version \<Rightarrow> Version \<Rightarrow> bool" where
  "less_Version a b \<longleftrightarrow> v_major a < v_major b
     \<or> v_major a = v_major b \<and> (v_minor a < v_minor b
        \<or> v_minor a = v_minor b \<and> v_patch a < v_patch b)"

definition less_eq_Version :: "Version \<Rightarrow> Version \<Rightarrow> bool" where
  "less_eq_Version a b \<longleftrightarrow> a < b \<or> a = (b :: Version)"

instance
proof
  fix a b c :: Version
  show "a < b \<longleftrightarrow> a \<le> b \<and> \<not> b \<le> a"
    by (auto simp: less_Version_def less_eq_Version_def)
  show "a \<le> a" by (simp add: less_eq_Version_def)
  show "a \<le> b \<Longrightarrow> b \<le> c \<Longrightarrow> a \<le> c"
    by (auto simp: less_Version_def less_eq_Version_def)
  show "a \<le> b \<Longrightarrow> b \<le> a \<Longrightarrow> a = b"
    by (auto simp: less_Version_def less_eq_Version_def)
  show "a \<le> b \<or> b \<le> a"
    by (cases a; cases b) (auto simp: less_Version_def less_eq_Version_def)
qed

end

text \<open>
  \<^verbatim>\<open>%lu\<close> reads with \<^verbatim>\<open>strtoul\<close>, which saturates and negates modulo the width of
  \<^verbatim>\<open>unsigned long\<close>, 32 bits here; \<open>scan_dots n\<close> is the list of values that a format of \<open>n\<close>
  such numbers separated by dots assigns.
\<close>

definition strtoul :: "bool \<Rightarrow> nat \<Rightarrow> u32" where
  "strtoul neg v = (if 2 ^ 32 \<le> v then - 1 else if neg then - of_nat v else of_nat v)"

fun scan_dots :: "nat \<Rightarrow> string \<Rightarrow> u32 list" where
  "scan_dots 0 s = []"
| "scan_dots (Suc n) s =
     (case scan_int s of
        None \<Rightarrow> []
      | Some (neg, v, rest) \<Rightarrow>
          strtoul neg v #
            (case rest of [] \<Rightarrow> [] | c # cs \<Rightarrow> if c = CHR ''.'' then scan_dots n cs else []))"

definition assign :: "'a list \<Rightarrow> 'a list \<Rightarrow> 'a list" where
  "assign vs regs = vs @ drop (length vs) regs"

definition Version_parse :: "string \<Rightarrow> Version \<Rightarrow> bool \<times> Version" where
  "Version_parse str self =
     (let r1 = assign (scan_dots 3 str) [0, 0, 0];
          ok1 = (length (scan_dots 3 str) = 3);
          r2 = (if ok1 then r1 else assign (scan_dots 2 str) r1);
          ok2 = (ok1 \<or> length (scan_dots 2 str) = 2);
          r3 = (if ok2 then r2 else assign (scan_dots 1 str) r2);
          ok3 = (ok2 \<or> length (scan_dots 1 str) = 1)
      in if \<not> ok3 then (False, self)
         else if r3 ! 0 > 65535 \<or> r3 ! 1 > 65535 \<or> r3 ! 2 > 65535 then (False, self)
         else (True, Version (ucast (r3 ! 0)) (ucast (r3 ! 1)) (ucast (r3 ! 2))))"

text \<open>\<^verbatim>\<open>snprintf\<close> into a buffer with room for 17 characters and the terminator.\<close>

definition version_to_str :: "Version \<Rightarrow> string" where
  "version_to_str v =
     take (length ''65535.65535.65535'')
       (decimal (unat (v_major v)) @ ''.'' @ decimal (unat (v_minor v)) @ ''.''
          @ decimal (unat (v_patch v)))"

lemma length_decimal: "length (decimal n) = (if n < 10 then 1 else Suc (length (decimal (n div 10))))"
  by (subst decimal.simps) simp

lemma length_decimal_u16: "n < 65536 \<Longrightarrow> length (decimal n) \<le> 5"
  by (subst length_decimal, simp, subst length_decimal, simp, subst length_decimal, simp,
      subst length_decimal, simp, subst length_decimal, simp)

lemma version_to_str_full:
  "version_to_str v = decimal (unat (v_major v)) @ ''.'' @ decimal (unat (v_minor v)) @ ''.''
     @ decimal (unat (v_patch v))"
  using length_decimal_u16 [of "unat (v_major v)"] length_decimal_u16 [of "unat (v_minor v)"]
    length_decimal_u16 [of "unat (v_patch v)"]
  by (simp add: version_to_str_def)

lemma ucast_u32_of_u16 [simp]:
  "unat (ucast (x :: u16) :: u32) = unat x" "ucast (ucast x :: u32) = x"
proof -
  have "uint x < 2 ^ 32" using uint_lt2p [of x] by simp
  then have "uint (ucast x :: u32) = uint x"
    by (simp add: unsigned_ucast_eq take_bit_int_eq_self)
  then show "unat (ucast x :: u32) = unat x" by (simp only: unat_eq_nat_uint)
  show "ucast (ucast x :: u32) = x"
    by (rule ucast_up_ucast_id) (simp add: is_up_def source_size_def target_size_def word_size)
qed

lemma ucast_u16_le [simp]: "(ucast (x :: u16) :: u32) \<le> 65535"
proof -
  have "unat x < 65536" by simp
  then have "unat x \<le> 65535" by linarith
  then show ?thesis by (simp add: word_le_nat_alt)
qed

lemma strtoul_u16 [simp]: "strtoul False (unat (x :: u16)) = ucast x"
proof -
  have "unat x < 65536" by simp
  moreover have "(2 :: nat) ^ 32 = 4294967296" by simp
  ultimately have "\<not> 2 ^ 32 \<le> unat x" by linarith
  then show ?thesis by (simp add: strtoul_def)
qed

lemma scan_dots_decimal:
  "scan_dots (Suc k) (decimal (unat (x :: u16)) @ CHR ''.'' # rest) = ucast x # scan_dots k rest"
  "scan_dots (Suc k) (decimal (unat x)) = [ucast x]"
  using scan_int_decimal [of "CHR ''.'' # rest" "unat x"] scan_int_decimal [of "[]" "unat x"]
  by (simp_all add: is_digit_def)

text \<open>
  Printing and parsing versions are inverse: every version is read back from its text, whatever
  the variable held before.
\<close>

theorem Version_parse_to_str: "Version_parse (version_to_str v) self = (True, v)"
proof -
  have d: "scan_dots 3 (version_to_str v) = [ucast (v_major v), ucast (v_minor v), ucast (v_patch v)]"
    by (simp add: version_to_str_full numeral_3_eq_3 scan_dots_decimal del: scan_dots.simps)
  show ?thesis
    unfolding Version_parse_def Let_def d by (simp add: assign_def not_less)
qed

text \<open>
  The comparison of versions is not the order of versions: it never misses a smaller version, but
  it also accepts every pair in which some component is smaller, so two versions neither of which has
  all components at least as large as the other are each less than the other.
\<close>

theorem Version_less_not_semver:
  "(a < b \<longrightarrow> Version_less a b)
   \<and> (Version_less a b \<and> Version_less b a \<longleftrightarrow>
        \<not> (v_major b \<le> v_major a \<and> v_minor b \<le> v_minor a \<and> v_patch b \<le> v_patch a)
      \<and> \<not> (v_major a \<le> v_major b \<and> v_minor a \<le> v_minor b \<and> v_patch a \<le> v_patch b))
   \<and> Version_less (Version 2 0 0) (Version 1 5 0) \<and> (Version 1 5 0) < (Version 2 0 0)"
proof -
  have "a < b \<longrightarrow> Version_less a b" by (auto simp: Version_less_def less_Version_def)
  moreover have "Version_less a b \<and> Version_less b a \<longleftrightarrow>
        \<not> (v_major b \<le> v_major a \<and> v_minor b \<le> v_minor a \<and> v_patch b \<le> v_patch a)
      \<and> \<not> (v_major a \<le> v_major b \<and> v_minor a \<le> v_minor b \<and> v_patch a \<le> v_patch b)"
    by (auto simp: Version_less_def not_le)
  moreover have "Version_less (Version 2 0 0) (Version 1 5 0) \<and> Version 1 5 0 < Version 2 0 0"
    by (simp add: Version_less_def less_Version_def)
  ultimately show ?thesis by blast
qed

theorem Version_less_not_semver_witness:
  "Version_less (Version 1 5 0) (Version 2 0 0) \<and> Version_less (Version 2 0 0) (Version 1 5 0)"
  using Version_less_not_semver [of "Version 1 5 0" "Version 2 0 0"] by blast

section \<open>Streams\<close>

text \<open>
  The interfaces, over the state of the reader and of the writer. A read asks for a number of bytes
  and returns the bytes read; it may fail an assertion.
\<close>

record 'r IStreamReader =
  sr_begin :: "'r step"
  sr_end :: "'r step"
  sr_cancel :: "'r step"
  sr_read :: "nat \<Rightarrow> 'r \<Rightarrow> (status_code \<times> bytes \<times> 'r) checked"

record 's IStreamWriter =
  sw_begin :: "'s step"
  sw_end :: "'s step"
  sw_cancel :: "'s step"
  sw_write :: "bytes \<Rightarrow> 's step"

text \<open>
  \<^verbatim>\<open>transceive\<close>: the loop asks for as many bytes as the copied buffer has room for. It ends
  only when a call does not return \<open>OK\<close>, so it is a partial function. \<open>cap\<close> is the capacity of the
  transceiver's copy of the buffer, which is the size of the buffer it was given.
\<close>

partial_function (option) transceive_loop ::
    "'r IStreamReader \<Rightarrow> 's IStreamWriter \<Rightarrow> nat \<Rightarrow> 'r \<Rightarrow> 's \<Rightarrow> (status_code \<times> 'r \<times> 's) checked option" where
  "transceive_loop reader writer cap r s =
     (case sr_read reader cap r of
        Inl f \<Rightarrow> Some (Inl f)
      | Inr (code, data, r') \<Rightarrow>
          (case (if code = OK then sw_write writer data s else (code, s)) of
             (code', s') \<Rightarrow>
               if code' = OK then transceive_loop reader writer cap r' s'
               else if code' = NoData then Some (Inr (OK, r', s'))
               else Some (Inr (code', r', s'))))"

definition StreamTransceiver_transceive ::
    "'r IStreamReader \<Rightarrow> 's IStreamWriter \<Rightarrow> nat \<Rightarrow> 'r \<Rightarrow> 's \<Rightarrow>
       (status_code \<times> 'r \<times> 's) checked option" where
  "StreamTransceiver_transceive reader writer cap r s =
     (case sr_begin reader r of
        (code, r1) \<Rightarrow>
          if code \<noteq> OK then Some (Inr (code, r1, s))
          else (case sw_begin writer s of
                  (code, s1) \<Rightarrow>
                    if code \<noteq> OK then Some (Inr (code, r1, s1))
                    else transceive_loop reader writer cap r1 s1))"

text \<open>The destructor ends both streams and only logs what they return.\<close>

definition StreamTransceiver_destroy ::
    "'r IStreamReader \<Rightarrow> 's IStreamWriter \<Rightarrow> 'r \<Rightarrow> 's \<Rightarrow> 'r \<times> 's" where
  "StreamTransceiver_destroy reader writer r s = (snd (sr_end reader r), snd (sw_end writer s))"

subsection \<open>FileStreamReader\<close>

text \<open>
  An open \<^verbatim>\<open>FILE\<close>: its bytes, the position, and the two indicators. \<open>f_bad\<close> is the offset
  from which the device cannot be read, if there is one. \<open>fread\<close> sets the end-of-file indicator when
  it comes to the end before it has all the bytes it was asked for.
\<close>

record FILE =
  f_data :: bytes
  f_pos :: nat
  f_eof :: bool
  f_err :: bool
  f_bad :: "nat option"

definition fread :: "nat \<Rightarrow> FILE \<Rightarrow> bytes \<times> FILE" where
  "fread n f =
     (let readable = (case f_bad f of None \<Rightarrow> f_data f | Some k \<Rightarrow> take k (f_data f));
          got = take n (drop (f_pos f) readable);
          short = (length got < n);
          bad = (f_bad f \<noteq> None \<and> the (f_bad f) < length (f_data f))
      in (got, f\<lparr>f_pos := f_pos f + length got,
                 f_eof := f_eof f \<or> short \<and> \<not> bad,
                 f_err := f_err f \<or> short \<and> bad\<rparr>))"

text \<open>The files that can be opened, with their contents and their bad offsets.\<close>

type_synonym files = "string \<rightharpoonup> bytes \<times> nat option"

record FileStreamReader =
  fr_path :: string
  fr_file :: "FILE option"

definition FileStreamReader_init :: "string \<Rightarrow> FileStreamReader checked" where
  "FileStreamReader_init path =
     (if path = [] then Inl AssertFailed else Inr \<lparr>fr_path = path, fr_file = None\<rparr>)"

definition FileStreamReader_destroy :: "FileStreamReader \<Rightarrow> unit checked" where
  "FileStreamReader_destroy self = (if fr_file self \<noteq> None then Inl AssertFailed else Inr ())"

definition FileStreamReader_begin :: "files \<Rightarrow> FileStreamReader step" where
  "FileStreamReader_begin fs self =
     (let self' =
        (if fr_file self = None
         then self\<lparr>fr_file := (case fs (fr_path self) of
                None \<Rightarrow> None
              | Some (data, bad) \<Rightarrow>
                  Some \<lparr>f_data = data, f_pos = 0, f_eof = False, f_err = False, f_bad = bad\<rparr>)\<rparr>
         else self)
      in ((if fr_file self' \<noteq> None then OK else Error), self'))"

text \<open>
  \<open>fclose\<close> and \<open>fseek\<close> on a file that is open for reading: whether they fail is an argument.
\<close>

definition FileStreamReader_end :: "bool \<Rightarrow> FileStreamReader step" where
  "FileStreamReader_end fclose_fails self =
     ((if fr_file self \<noteq> None \<and> fclose_fails then Error else OK), self\<lparr>fr_file := None\<rparr>)"

definition FileStreamReader_cancel :: "bool \<Rightarrow> FileStreamReader step" where
  "FileStreamReader_cancel fseek_fails self =
     (case fr_file self of
        None \<Rightarrow> (OK, self)
      | Some f \<Rightarrow>
          if fseek_fails then (Error, self)
          else (OK, self\<lparr>fr_file := Some (f\<lparr>f_pos := 0, f_eof := False\<rparr>)\<rparr>))"

definition FileStreamReader_read ::
    "nat \<Rightarrow> FileStreamReader \<Rightarrow> (status_code \<times> bytes \<times> FileStreamReader) checked" where
  "FileStreamReader_read n self =
     (case fr_file self of
        None \<Rightarrow> Inl AssertFailed
      | Some f \<Rightarrow>
          if f_eof f then Inr (NoData, [], self)
          else (case fread n f of
                  (got, f') \<Rightarrow>
                    if length got < n \<and> f_err f' then Inr (Error, got, self\<lparr>fr_file := Some f'\<rparr>)
                    else Inr (OK, got, self\<lparr>fr_file := Some f'\<rparr>)))"

definition FileStreamReader_vtable :: "files \<Rightarrow> FileStreamReader IStreamReader" where
  "FileStreamReader_vtable fs =
     \<lparr>sr_begin = FileStreamReader_begin fs, sr_end = FileStreamReader_end False,
      sr_cancel = FileStreamReader_cancel False, sr_read = FileStreamReader_read\<rparr>"

subsection \<open>ChunkStreamWriter\<close>

text \<open>
  \<^verbatim>\<open>httpd_resp_send_chunk\<close> of the ESP-IDF is a parameter. A chunk without bytes ends the
  response.
\<close>

definition ChunkStreamWriter_send :: "(bytes \<Rightarrow> 's \<Rightarrow> esp_err \<times> 's) \<Rightarrow> bytes \<Rightarrow> 's step" where
  "ChunkStreamWriter_send send_chunk data s =
     (case send_chunk data s of (err, s') \<Rightarrow> ((if err \<noteq> ESP_OK then Error else OK), s'))"

definition ChunkStreamWriter_begin :: "'s step" where
  "ChunkStreamWriter_begin s = (OK, s)"

definition ChunkStreamWriter_end :: "(bytes \<Rightarrow> 's \<Rightarrow> esp_err \<times> 's) \<Rightarrow> 's step" where
  "ChunkStreamWriter_end send_chunk = ChunkStreamWriter_send send_chunk []"

definition ChunkStreamWriter_cancel :: "(bytes \<Rightarrow> 's \<Rightarrow> esp_err \<times> 's) \<Rightarrow> 's step" where
  "ChunkStreamWriter_cancel send_chunk = ChunkStreamWriter_end send_chunk"

definition ChunkStreamWriter_write :: "(bytes \<Rightarrow> 's \<Rightarrow> esp_err \<times> 's) \<Rightarrow> bytes \<Rightarrow> 's step" where
  "ChunkStreamWriter_write send_chunk data = ChunkStreamWriter_send send_chunk data"

definition ChunkStreamWriter_vtable :: "(bytes \<Rightarrow> 's \<Rightarrow> esp_err \<times> 's) \<Rightarrow> 's IStreamWriter" where
  "ChunkStreamWriter_vtable send_chunk =
     \<lparr>sw_begin = ChunkStreamWriter_begin, sw_end = ChunkStreamWriter_end send_chunk,
      sw_cancel = ChunkStreamWriter_cancel send_chunk,
      sw_write = ChunkStreamWriter_write send_chunk\<rparr>"

subsection \<open>Serving a file\<close>

text \<open>Sending works and \<open>sent\<close> is the list of the chunks sent on the connection.\<close>

definition sends :: "(bytes \<Rightarrow> 's \<Rightarrow> esp_err \<times> 's) \<Rightarrow> ('s \<Rightarrow> bytes list) \<Rightarrow> bool" where
  "sends send_chunk sent \<longleftrightarrow>
     (\<forall>data s. \<exists>s'. send_chunk data s = (ESP_OK, s') \<and> sent s' = sent s @ [data])"

text \<open>Full chunks as long as there are any, and then one short chunk, perhaps without bytes.\<close>

function chunks :: "nat \<Rightarrow> bytes \<Rightarrow> bytes list" where
  "chunks cap data =
     (if cap = 0 \<or> length data < cap then [data] else take cap data # chunks cap (drop cap data))"
  by auto
termination by (relation "measure (\<lambda>(cap, data). length data)") auto

declare chunks.simps [simp del]

lemma concat_chunks: "concat (chunks cap data) = data"
proof (induction cap data rule: chunks.induct)
  case (1 cap data)
  then show ?case by (subst chunks.simps) auto
qed

lemma empty_chunk_iff: "0 < cap \<Longrightarrow> [] \<in> set (chunks cap data) \<longleftrightarrow> cap dvd length data"
proof (induction cap data rule: chunks.induct)
  case (1 cap data)
  show ?case
  proof (cases "length data < cap")
    case True
    with 1(2) have "cap dvd length data \<longleftrightarrow> data = []" using nat_dvd_not_less by auto
    with True show ?thesis by (subst chunks.simps) auto
  next
    case False
    with 1 have "[] \<in> set (chunks cap (drop cap data)) \<longleftrightarrow> cap dvd length data"
      by (simp add: dvd_minus_self)
    moreover have "take cap data \<noteq> []" using False 1(2) by (cases data) auto
    ultimately show ?thesis using False 1(2) by (subst chunks.simps) auto
  qed
qed

lemma ChunkStreamWriter_writes:
  assumes "sends send_chunk sent"
  shows "\<exists>s'. sw_write (ChunkStreamWriter_vtable send_chunk) data s = (OK, s')
    \<and> sent s' = sent s @ [data]"
proof -
  obtain s' where "send_chunk data s = (ESP_OK, s')" "sent s' = sent s @ [data]"
    using assms unfolding sends_def by blast
  then show ?thesis
    by (simp add: ChunkStreamWriter_vtable_def ChunkStreamWriter_write_def ChunkStreamWriter_send_def)
qed

lemma FileStreamReader_read_good:
  assumes "fr_file r = Some f" and "\<not> f_eof f" and "\<not> f_err f" and "f_bad f = None"
    and "rest = drop (f_pos f) (f_data f)"
  shows "FileStreamReader_read cap r = Inr (OK, take cap rest,
    r\<lparr>fr_file := Some (f\<lparr>f_pos := f_pos f + length (take cap rest), f_eof := length rest < cap\<rparr>)\<rparr>)"
  using assms
  by (cases f) (auto simp: FileStreamReader_read_def fread_def Let_def min_less_iff_disj)

lemma transceive_file_loop:
  assumes "sends send_chunk sent" and "0 < cap" and "rest = drop (f_pos f) (f_data f)"
    and "\<not> f_eof f" and "\<not> f_err f" and "f_bad f = None" and "fr_file r = Some f"
  shows "\<exists>r' s'. transceive_loop (FileStreamReader_vtable fs) (ChunkStreamWriter_vtable send_chunk)
      cap r s = Some (Inr (OK, r', s')) \<and> sent s' = sent s @ chunks cap rest
    \<and> s' = fold (\<lambda>d s. snd (send_chunk d s)) (chunks cap rest) s"
  using assms(2-)
proof (induction cap rest arbitrary: f r s rule: chunks.induct)
  case (1 cap rest)
  let ?R = "FileStreamReader_vtable fs" and ?W = "ChunkStreamWriter_vtable send_chunk"
  let ?f = "f\<lparr>f_pos := f_pos f + length (take cap rest), f_eof := length rest < cap\<rparr>"
  let ?r = "r\<lparr>fr_file := Some ?f\<rparr>"
  have read: "sr_read ?R cap r = Inr (OK, take cap rest, ?r)"
    using FileStreamReader_read_good [OF 1(7) 1(4-6) 1(3)] by (simp add: FileStreamReader_vtable_def)
  obtain s1 where s1: "sw_write ?W (take cap rest) s = (OK, s1)"
    "sent s1 = sent s @ [take cap rest]"
    using ChunkStreamWriter_writes [OF assms(1)] by blast
  have s1w: "snd (send_chunk (take cap rest) s) = s1"
    using s1(1) by (simp add: ChunkStreamWriter_vtable_def ChunkStreamWriter_write_def
        ChunkStreamWriter_send_def split: prod.splits)
  have step: "transceive_loop ?R ?W cap r s = transceive_loop ?R ?W cap ?r s1"
    by (subst transceive_loop.simps) (simp add: read s1)
  show ?case
  proof (cases "length rest < cap")
    case True
    have "sr_read ?R cap ?r = Inr (NoData, [], ?r)"
      using True by (simp add: FileStreamReader_vtable_def FileStreamReader_read_def)
    then have "transceive_loop ?R ?W cap ?r s1 = Some (Inr (OK, ?r, s1))"
      by (subst transceive_loop.simps) simp
    with step s1 s1w True show ?thesis by (subst (1 2) chunks.simps) simp
  next
    case False
    have rest: "drop cap rest = drop (f_pos ?f) (f_data ?f)"
      using False 1(3) by (simp add: add.commute)
    obtain r' s' where "transceive_loop ?R ?W cap ?r s1 = Some (Inr (OK, r', s'))"
      "sent s' = sent s1 @ chunks cap (drop cap rest)"
      "s' = fold (\<lambda>d s. snd (send_chunk d s)) (chunks cap (drop cap rest)) s1"
      using 1(1) [of ?f ?r s1] 1(2,4-6) False rest by auto
    with step s1 s1w False 1(2) show ?thesis by (subst (1 2) chunks.simps) auto
  qed
qed

text \<open>
  C13. Serving a file: for a buffer of at least one byte the transceiver stops, reports success and the
  bytes of the chunks it sent are the file's. But the end of a file is noticed by a short read only, so
  when the size of the file is a multiple of the buffer the last chunk is empty, which ends the HTTP
  response, and the destructor then sends another empty chunk after the end.
\<close>

theorem StreamTransceiver_serves_file:
  assumes "sends send_chunk sent" and "0 < cap" and "fs path = Some (data, None)"
  shows "\<exists>r1 s1 r2 s2.
      StreamTransceiver_transceive (FileStreamReader_vtable fs) (ChunkStreamWriter_vtable send_chunk)
        cap \<lparr>fr_path = path, fr_file = None\<rparr> s = Some (Inr (OK, r1, s1))
    \<and> StreamTransceiver_destroy (FileStreamReader_vtable fs) (ChunkStreamWriter_vtable send_chunk)
        r1 s1 = (r2, s2)
    \<and> FileStreamReader_destroy r2 = Inr ()
    \<and> (\<exists>cs. sent s1 = sent s @ cs \<and> concat cs = data \<and> ([] \<in> set cs \<longleftrightarrow> cap dvd length data))
    \<and> sent s2 = sent s1 @ [[]]"
proof -
  let ?R = "FileStreamReader_vtable fs" and ?W = "ChunkStreamWriter_vtable send_chunk"
  let ?f = "\<lparr>f_data = data, f_pos = 0, f_eof = False, f_err = False, f_bad = None\<rparr>"
  let ?r = "\<lparr>fr_path = path, fr_file = Some ?f\<rparr>"
  obtain r1 s1 where loop: "transceive_loop ?R ?W cap ?r s = Some (Inr (OK, r1, s1))"
    "sent s1 = sent s @ chunks cap data"
    using transceive_file_loop [OF assms(1,2), of data ?f ?r fs s] by auto
  have run: "StreamTransceiver_transceive ?R ?W cap \<lparr>fr_path = path, fr_file = None\<rparr> s
      = Some (Inr (OK, r1, s1))"
    using loop(1) assms(3)
    by (simp add: StreamTransceiver_transceive_def FileStreamReader_vtable_def
        FileStreamReader_begin_def ChunkStreamWriter_vtable_def ChunkStreamWriter_begin_def Let_def)
  obtain s2 where s2: "send_chunk [] s1 = (ESP_OK, s2)" "sent s2 = sent s1 @ [[]]"
    using assms(1) unfolding sends_def by blast
  have "StreamTransceiver_destroy ?R ?W r1 s1 = (r1\<lparr>fr_file := None\<rparr>, s2)"
    using s2(1)
    by (simp add: StreamTransceiver_destroy_def FileStreamReader_vtable_def
        FileStreamReader_end_def ChunkStreamWriter_vtable_def ChunkStreamWriter_end_def
        ChunkStreamWriter_send_def)
  moreover have "\<exists>cs. sent s1 = sent s @ cs \<and> concat cs = data
      \<and> ([] \<in> set cs \<longleftrightarrow> cap dvd length data)"
    using loop(2) concat_chunks [of cap data] empty_chunk_iff [OF assms(2), of data] by blast
  ultimately show ?thesis using run s2(2) by (simp add: FileStreamReader_destroy_def)
qed

theorem StreamTransceiver_serves_file_witness:
  "\<exists>r1 s1. StreamTransceiver_transceive
      (FileStreamReader_vtable [''/www/index.html.gz'' \<mapsto> ([1, 2, 3, 4], None)])
      (ChunkStreamWriter_vtable (\<lambda>data sent. (ESP_OK, sent @ [data])))
      2 \<lparr>fr_path = ''/www/index.html.gz'', fr_file = None\<rparr> [] = Some (Inr (OK, r1, s1))
    \<and> [] \<in> set s1 \<and> concat s1 = [1, 2, 3, 4]"
proof -
  let ?fs = "[''/www/index.html.gz'' \<mapsto> ([1, 2, 3, 4], None)] :: files"
  have "sends (\<lambda>data sent. (ESP_OK, sent @ [data])) (\<lambda>s. s)" by (simp add: sends_def)
  from StreamTransceiver_serves_file [OF this, of 2 ?fs "''/www/index.html.gz''" "[1, 2, 3, 4]" "[]"]
  show ?thesis by auto
qed

end
