(* ===== verification/Scheduler.thy ===== *)
theory Scheduler
  imports Algo Timing
begin

text \<open>
  \<open>components/ocs_scheduler\<close>: the cooperative periodic scheduler, the event-driven scheduler with
  one timer and one event bit per task, the queue of deferred functions and the task combinators. A task
  is a step on the state of the system. The locale \<open>task_registry\<close> is what the clients of
  \<^verbatim>\<open>ITaskScheduler::add\<close> rely on, and both schedulers provide it.
\<close>

section \<open>Tasks\<close>

type_synonym 'w ITask = "'w step"

text \<open>\<^verbatim>\<open>FanoutTask\<close> stops at the first failure.\<close>

fun FanoutTask_run :: "'w ITask list \<Rightarrow> 'w step" where
  "FanoutTask_run [] w = (OK, w)"
| "FanoutTask_run (task # tasks) w =
     (case task w of (code, w') \<Rightarrow> if code \<noteq> OK then (code, w') else FanoutTask_run tasks w')"

definition FanoutTask_add :: "'w ITask \<Rightarrow> 'w ITask list \<Rightarrow> 'w ITask list" where
  "FanoutTask_add task tasks = tasks @ [task]"

text \<open>
  \<^verbatim>\<open>OperationGuardTask\<close> runs its task with the FreeRTOS scheduler suspended; suspending,
  resuming (which says whether a context switch happened) and yielding are parameters.
\<close>

definition OperationGuardTask_run ::
    "('w \<Rightarrow> 'w) \<Rightarrow> ('w \<Rightarrow> bool \<times> 'w) \<Rightarrow> ('w \<Rightarrow> 'w) \<Rightarrow> 'w ITask \<Rightarrow> 'w step" where
  "OperationGuardTask_run suspend_all resume_all yield_ctx task w =
     (case task (suspend_all w) of
        (code, w1) \<Rightarrow>
          (case resume_all w1 of
             (switched, w2) \<Rightarrow> (code, (if \<not> switched then yield_ctx w2 else w2))))"

lemma FanoutTask_run_steps: "FanoutTask_run tasks = run_steps tasks"
proof
  fix w
  show "FanoutTask_run tasks w = run_steps tasks w"
    by (induction tasks arbitrary: w) (simp_all add: and_then_def split: prod.splits)
qed

section \<open>The registry contract of a scheduler\<close>

text \<open>Registering a list of identifiers one after the other, and the results.\<close>

fun add_all :: "(string \<Rightarrow> 's \<Rightarrow> (status_code \<times> 's) checked) \<Rightarrow> string list \<Rightarrow> 's \<Rightarrow> status_code list \<times> 's" where
  "add_all adds [] s = ([], s)"
| "add_all adds (k # ks) s =
     (case adds k s of
        Inl f \<Rightarrow> ([], s)
      | Inr (c, s') \<Rightarrow> (case add_all adds ks s' of (cs, s'') \<Rightarrow> (c # cs, s'')))"

text \<open>
  \<open>ids\<close> are the identifiers of the registered tasks in the order of registration, \<open>adds k\<close> is the
  registration of a fixed task under \<open>k\<close>, \<open>limit\<close> the number of tasks the scheduler takes.
\<close>

locale task_registry =
  fixes ids :: "'s \<Rightarrow> string list"
    and limit :: "'s \<Rightarrow> nat"
    and adds :: "string \<Rightarrow> 's \<Rightarrow> (status_code \<times> 's) checked"
  assumes add_fresh: "length (ids s) < limit s \<Longrightarrow> k \<notin> set (ids s) \<Longrightarrow>
      \<exists>s'. adds k s = Inr (OK, s') \<and> ids s' = ids s @ [k] \<and> limit s' = limit s"
    and add_full: "length (ids s) = limit s \<Longrightarrow> adds k s = Inr (Error, s)"
    and add_twice: "length (ids s) \<noteq> limit s \<Longrightarrow> k \<in> set (ids s) \<Longrightarrow> adds k s = Inr (InvalidArg, s)"
begin

definition wf :: "'s \<Rightarrow> bool" where
  "wf s \<longleftrightarrow> distinct (ids s) \<and> length (ids s) \<le> limit s"

lemma add_cases:
  assumes "wf s"
  obtains (fresh) s' where "length (ids s) < limit s" "k \<notin> set (ids s)" "adds k s = Inr (OK, s')"
      "ids s' = ids s @ [k]" "limit s' = limit s" "wf s'"
    | (full) "length (ids s) = limit s" "adds k s = Inr (Error, s)"
    | (twice) "length (ids s) < limit s" "k \<in> set (ids s)" "adds k s = Inr (InvalidArg, s)"
proof (cases "length (ids s) = limit s")
  case True
  then show thesis using add_full full by blast
next
  case False
  with assms have lt: "length (ids s) < limit s" by (simp add: wf_def)
  show thesis
  proof (cases "k \<in> set (ids s)")
    case True
    then show thesis using add_twice False lt twice by blast
  next
    case k: False
    from add_fresh [OF lt k] obtain s' where s': "adds k s = Inr (OK, s')"
      "ids s' = ids s @ [k]" "limit s' = limit s" by blast
    moreover have "wf s'" using assms s' lt k by (simp add: wf_def)
    ultimately show thesis using fresh lt k by blast
  qed
qed

text \<open>
  The tasks registered are the first occurrences of the identifiers, cut at the limit, and a task is
  registered exactly when \<open>OK\<close> is returned.
\<close>

lemma add_all_spec:
  assumes "wf s" and "add_all adds ks s = (cs, s')"
  shows "wf s' \<and> length cs = length ks \<and> limit s' = limit s
    \<and> ids s' = ids s @ map fst (filter (\<lambda>(k, c). c = OK) (zip ks cs))
    \<and> set cs \<subseteq> {OK, Error, InvalidArg}"
  using assms
proof (induction ks arbitrary: s cs)
  case Nil
  then show ?case by simp
next
  case (Cons k ks)
  show ?case
  proof (rule add_cases [OF Cons.prems(1), of k])
    fix s1
    assume a: "adds k s = Inr (OK, s1)" "ids s1 = ids s @ [k]" "limit s1 = limit s" "wf s1"
    obtain cs1 where "add_all adds ks s1 = (cs1, s')" "cs = OK # cs1"
      using Cons.prems(2) a(1) by (auto split: prod.splits)
    with Cons.IH [OF a(4)] a(2,3) show ?thesis by simp
  next
    assume a: "adds k s = Inr (Error, s)"
    obtain cs1 where "add_all adds ks s = (cs1, s')" "cs = Error # cs1"
      using Cons.prems(2) a(1) by (auto split: prod.splits)
    with Cons.IH [OF Cons.prems(1)] show ?thesis by simp
  next
    assume a: "adds k s = Inr (InvalidArg, s)"
    obtain cs1 where "add_all adds ks s = (cs1, s')" "cs = InvalidArg # cs1"
      using Cons.prems(2) a(1) by (auto split: prod.splits)
    with Cons.IH [OF Cons.prems(1)] show ?thesis by simp
  qed
qed

lemma add_all_fresh:
  assumes "wf s" and "distinct ks" and "set ks \<inter> set (ids s) = {}"
    and "length (ids s) + length ks \<le> limit s"
  shows "\<exists>s'. add_all adds ks s = (replicate (length ks) OK, s') \<and> ids s' = ids s @ ks"
  using assms
proof (induction ks arbitrary: s)
  case Nil
  then show ?case by simp
next
  case (Cons k ks)
  then have "length (ids s) < limit s" "k \<notin> set (ids s)" by auto
  from add_fresh [OF this] obtain s1 where s1: "adds k s = Inr (OK, s1)" "ids s1 = ids s @ [k]"
    "limit s1 = limit s" by blast
  have "wf s1" using Cons.prems s1 by (simp add: wf_def)
  with Cons.IH [of s1] Cons.prems s1 show ?case by auto
qed

end

section \<open>PeriodicTaskScheduler\<close>

record 'w PTNode =
  ptn_id :: string
  ptn_task :: "'w ITask"
  ptn_limiter :: RateLimiter

record 'w PeriodicTaskScheduler =
  pts_max_count :: nat
  pts_task_min_interval :: time
  pts_total_ts_min :: time
  pts_total_ts_max :: time
  pts_nodes :: "'w PTNode list"

definition INT64_MAX :: time where "INT64_MAX = 2 ^ 63 - 1"
definition INT64_MIN :: time where "INT64_MIN = - (2 ^ 63)"

definition PeriodicTaskScheduler_init :: "nat \<Rightarrow> 'w PeriodicTaskScheduler checked" where
  "PeriodicTaskScheduler_init max_count =
     (if max_count = 0 then Inl AssertFailed
      else Inr \<lparr>pts_max_count = max_count, pts_task_min_interval = INT64_MAX,
                pts_total_ts_min = INT64_MAX, pts_total_ts_max = INT64_MIN, pts_nodes = []\<rparr>)"

definition PeriodicTaskScheduler_count :: "'w PeriodicTaskScheduler \<Rightarrow> nat" where
  "PeriodicTaskScheduler_count s = length (pts_nodes s)"

definition PTNode_init :: "'w ITask \<Rightarrow> string \<Rightarrow> time \<Rightarrow> 'w PTNode checked" where
  "PTNode_init task k interval =
     (case RateLimiter_init interval of
        Inl f \<Rightarrow> Inl f
      | Inr limiter \<Rightarrow> Inr \<lparr>ptn_id = k, ptn_task = task, ptn_limiter = limiter\<rparr>)"

definition PeriodicTaskScheduler_add ::
    "'w ITask \<Rightarrow> string \<Rightarrow> time \<Rightarrow> 'w PeriodicTaskScheduler \<Rightarrow>
       (status_code \<times> 'w PeriodicTaskScheduler) checked" where
  "PeriodicTaskScheduler_add task k interval s =
     (if \<not> 0 < interval then Inl AssertFailed
      else if \<not> millisecond \<le> interval then Inl AssertFailed
      else if length (pts_nodes s) = pts_max_count s then Inr (Error, s)
      else if list_ex (\<lambda>n. ptn_id n = k) (pts_nodes s) then Inr (InvalidArg, s)
      else (case PTNode_init task k interval of
              Inl f \<Rightarrow> Inl f
            | Inr node \<Rightarrow>
                Inr (OK, s\<lparr>pts_task_min_interval := min (pts_task_min_interval s) interval,
                           pts_nodes := pts_nodes s @ [node]\<rparr>)))"

definition PTNode_run :: "('w \<Rightarrow> time) \<Rightarrow> 'w PTNode \<Rightarrow> 'w \<Rightarrow> status_code \<times> 'w PTNode \<times> 'w" where
  "PTNode_run clock n w =
     (case RateLimiter_allow (clock w) (ptn_limiter n) of
        (ok, limiter) \<Rightarrow>
          let n' = n\<lparr>ptn_limiter := limiter\<rparr>
          in if ok then (case ptn_task n w of (code, w') \<Rightarrow> (code, n', w')) else (OK, n', w))"

text \<open>The loop over the nodes; a failure is only logged.\<close>

fun PeriodicTaskScheduler_run_nodes ::
    "('w \<Rightarrow> time) \<Rightarrow> 'w PTNode list \<Rightarrow> 'w \<Rightarrow> 'w PTNode list \<times> 'w" where
  "PeriodicTaskScheduler_run_nodes clock [] w = ([], w)"
| "PeriodicTaskScheduler_run_nodes clock (n # ns) w =
     (case PTNode_run clock n w of
        (code, n', w1) \<Rightarrow>
          (case PeriodicTaskScheduler_run_nodes clock ns w1 of (ns', w2) \<Rightarrow> (n' # ns', w2)))"

text \<open>
  The estimator and \<^verbatim>\<open>vTaskDelay\<close> are parameters; a delay is a number of ticks.
\<close>

record 'w IDelayEstimator =
  de_begin :: "'w \<Rightarrow> 'w"
  de_estimate :: "'w \<Rightarrow> u32 \<times> 'w"

definition ConstantDelayEstimator_init :: "u32 \<Rightarrow> 'w IDelayEstimator" where
  "ConstantDelayEstimator_init delay = \<lparr>de_begin = (\<lambda>w. w), de_estimate = (\<lambda>w. (delay, w))\<rparr>"

definition PeriodicTaskScheduler_run ::
    "('w \<Rightarrow> time) \<Rightarrow> 'w IDelayEstimator \<Rightarrow> (u32 \<Rightarrow> 'w \<Rightarrow> 'w) \<Rightarrow>
       ('w PeriodicTaskScheduler \<times> 'w) step" where
  "PeriodicTaskScheduler_run clock estimator vTaskDelay sw =
     (case sw of (s, w) \<Rightarrow>
        let w1 = de_begin estimator w;
            start_ts = clock w1
        in case PeriodicTaskScheduler_run_nodes clock (pts_nodes s) w1 of
             (nodes, w2) \<Rightarrow>
               let total_ts = clock w2 - start_ts;
                   s' = s\<lparr>pts_nodes := nodes,
                         pts_total_ts_min := min (pts_total_ts_min s) total_ts,
                         pts_total_ts_max := max (pts_total_ts_max s) total_ts\<rparr>
               in case de_estimate estimator w2 of
                    (estimated_delay, w3) \<Rightarrow> (OK, (s', vTaskDelay estimated_delay w3)))"

definition PeriodicTaskScheduler_start :: "'w PeriodicTaskScheduler step" where
  "PeriodicTaskScheduler_start s = (OK, s)"

definition PeriodicTaskScheduler_stop :: "'w PeriodicTaskScheduler step" where
  "PeriodicTaskScheduler_stop s = (OK, s)"

text \<open>The registry, for one task and one valid interval.\<close>

definition pts_ids :: "'w PeriodicTaskScheduler \<Rightarrow> string list" where
  "pts_ids s = map ptn_id (pts_nodes s)"

lemma PeriodicTaskScheduler_registry:
  assumes "millisecond \<le> interval"
  shows "task_registry pts_ids pts_max_count
    (\<lambda>k. PeriodicTaskScheduler_add task k interval)"
proof -
  have i: "0 < interval"
    using assms by (simp add: millisecond_def microsecond_def)
  show ?thesis
    using assms i
    by unfold_locales
      (auto simp: PeriodicTaskScheduler_add_def pts_ids_def PTNode_init_def RateLimiter_init_def
        list_ex_iff)
qed

interpretation periodic_registry:
  task_registry pts_ids pts_max_count "\<lambda>k. PeriodicTaskScheduler_add (\<lambda>w. (OK, w)) k second"
  by (rule PeriodicTaskScheduler_registry)
    (simp add: second_def millisecond_def microsecond_def)


lemma pts_wf:
  assumes "millisecond \<le> interval" and "PeriodicTaskScheduler_init n = Inr s"
  shows "task_registry.wf pts_ids pts_max_count s" and "pts_ids s = []" and "pts_max_count s = n"
proof -
  have s: "pts_nodes s = []" "pts_max_count s = n"
    using assms(2) by (auto simp: PeriodicTaskScheduler_init_def split: if_splits)
  then show "task_registry.wf pts_ids pts_max_count s" "pts_ids s = []" "pts_max_count s = n"
    by (simp_all add: task_registry.wf_def [OF PeriodicTaskScheduler_registry [OF assms(1)]]
        pts_ids_def)
qed

subsection \<open>When tasks run\<close>

text \<open>
  To speak about the times at which tasks run, the tasks are assumed to leave their identifier and the
  time in a log that nothing else touches; the clock does not go backwards.
\<close>

definition times :: "string \<Rightarrow> (string \<times> time) list \<Rightarrow> time list" where
  "times k l = map snd (filter (\<lambda>p. fst p = k) l)"

definition logs :: "('w \<Rightarrow> time) \<Rightarrow> ('w \<Rightarrow> (string \<times> time) list) \<Rightarrow> 'w PTNode \<Rightarrow> bool" where
  "logs clock log n \<longleftrightarrow>
     (\<forall>w. log (snd (ptn_task n w)) = log w @ [(ptn_id n, clock w)] \<and> clock w \<le> clock (snd (ptn_task n w)))"

definition quiet :: "('w \<Rightarrow> time) \<Rightarrow> ('w \<Rightarrow> (string \<times> time) list) \<Rightarrow> ('w \<Rightarrow> 'w) \<Rightarrow> bool" where
  "quiet clock log f \<longleftrightarrow> (\<forall>w. log (f w) = log w \<and> clock w \<le> clock (f w))"

text \<open>The rate limiter of a node knows the last time its task ran.\<close>

definition node_inv :: "(string \<times> time) list \<Rightarrow> time \<Rightarrow> 'w PTNode \<Rightarrow> bool" where
  "node_inv l now n \<longleftrightarrow>
     (let ts = times (ptn_id n) l; i = rl_interval (ptn_limiter n)
      in 0 < i \<and> sorted_wrt (\<lambda>a b. a + i \<le> b) ts \<and> (\<forall>t \<in> set ts. 0 < t \<and> t \<le> now)
       \<and> rl_start (ptn_limiter n) = (if ts = [] then 0 else List.last ts))"

definition due :: "time \<Rightarrow> 'w PTNode \<Rightarrow> bool" where
  "due now n \<longleftrightarrow> rl_start (ptn_limiter n) = 0
     \<or> rl_start (ptn_limiter n) + rl_interval (ptn_limiter n) \<le> now"

text \<open>What a node is, apart from the state of its limiter.\<close>

definition node_key :: "'w PTNode \<Rightarrow> string \<times> 'w ITask \<times> time" where
  "node_key n = (ptn_id n, ptn_task n, rl_interval (ptn_limiter n))"

lemma times_snoc: "times k (l @ [(k', t)]) = times k l @ (if k' = k then [t] else [])"
  by (simp add: times_def)

lemma spaced_snoc:
  assumes "sorted_wrt (\<lambda>a b. a + i \<le> b) ts" and "ts \<noteq> [] \<Longrightarrow> List.last ts + i \<le> t" and "(0 :: int) < i"
  shows "sorted_wrt (\<lambda>a b. a + i \<le> b) (ts @ [t])"
proof (cases ts rule: rev_cases)
  case Nil
  then show ?thesis by simp
next
  case (snoc us u)
  then show ?thesis using assms by (auto simp: sorted_wrt_append)
qed

lemma node_inv_mono:
  "node_inv l now n \<Longrightarrow> times (ptn_id n) l' = times (ptn_id n) l \<Longrightarrow> now \<le> now' \<Longrightarrow> node_inv l' now' n"
  by (auto simp: node_inv_def Let_def)

lemma PTNode_run_spec:
  assumes "logs clock log n" and "node_inv (log w) (clock w) n" and "0 < clock w"
    and "PTNode_run clock n w = (c, n', w')"
  shows "node_inv (log w') (clock w') n' \<and> node_key n' = node_key n \<and> clock w \<le> clock w'
    \<and> log w' = (if due (clock w) n then log w @ [(ptn_id n, clock w)] else log w)"
proof -
  let ?i = "rl_interval (ptn_limiter n)" and ?ts = "times (ptn_id n) (log w)"
  let ?ok = "fst (RateLimiter_allow (clock w) (ptn_limiter n))"
  have inv: "0 < ?i" "sorted_wrt (\<lambda>a b. a + ?i \<le> b) ?ts" "\<forall>t \<in> set ?ts. 0 < t \<and> t \<le> clock w"
    "rl_start (ptn_limiter n) = (if ?ts = [] then 0 else List.last ?ts)"
    using assms(2) by (simp_all add: node_inv_def Let_def)
  have le: "rl_start (ptn_limiter n) \<le> clock w" using inv(3,4) assms(3) by auto
  have ok: "?ok \<longleftrightarrow> due (clock w) n"
    using RateLimiter_allow_iff [OF inv(1) le] by (simp add: due_def)
  obtain lim where lim: "RateLimiter_allow (clock w) (ptn_limiter n) = (?ok, lim)"
    by (metis prod.collapse)
  have i': "rl_interval lim = ?i"
    using RateLimiter_allow_interval [of "clock w" "ptn_limiter n"] lim by (metis snd_conv)
  have st: "rl_start lim = (if ?ok then clock w else rl_start (ptn_limiter n))"
    using RateLimiter_allow_start [of "clock w" "ptn_limiter n"] lim by (metis snd_conv)
  show ?thesis
  proof (cases "due (clock w) n")
    case True
    obtain c' w1 where task: "ptn_task n w = (c', w1)" by fastforce
    then have r: "n' = n\<lparr>ptn_limiter := lim\<rparr>" "w' = w1"
      using assms(4) lim ok True by (simp_all add: PTNode_run_def)
    have l: "log w' = log w @ [(ptn_id n, clock w)]" "clock w \<le> clock w'"
      using assms(1) task r unfolding logs_def by (metis snd_conv)+
    have "?ts \<noteq> [] \<Longrightarrow> List.last ?ts + ?i \<le> clock w"
      using True inv(3,4) last_in_set [of ?ts] by (fastforce simp: due_def)
    from spaced_snoc [OF inv(2) this inv(1)]
    show ?thesis
      using True l r i' st ok inv(1,3) assms(3)
      by (auto simp: node_inv_def Let_def times_snoc node_key_def)
  next
    case False
    then have r: "n' = n\<lparr>ptn_limiter := lim\<rparr>" "w' = w"
      using assms(4) lim ok by (simp_all add: PTNode_run_def)
    then show ?thesis
      using False i' st ok inv by (auto simp: node_inv_def Let_def node_key_def)
  qed
qed

lemma run_nodes_spec:
  assumes "\<forall>n \<in> set ns. logs clock log n \<and> node_inv (log w) (clock w) n"
    and "distinct (map ptn_id ns)" and "0 < clock w"
    and "PeriodicTaskScheduler_run_nodes clock ns w = (ns', w')"
  shows "map node_key ns' = map node_key ns \<and> clock w \<le> clock w'
    \<and> (\<forall>n \<in> set ns'. node_inv (log w') (clock w') n)
    \<and> (\<forall>k. k \<notin> ptn_id ` set ns \<longrightarrow> times k (log w') = times k (log w))
    \<and> (\<forall>n \<in> set ns. due (clock w) n \<longrightarrow>
          (\<exists>t. clock w \<le> t \<and> t \<le> clock w' \<and> times (ptn_id n) (log w') = times (ptn_id n) (log w) @ [t]))"
  using assms
proof (induction ns arbitrary: w ns')
  case Nil
  then show ?case by simp
next
  case (Cons n ns)
  obtain c n1 w1 where r1: "PTNode_run clock n w = (c, n1, w1)" by (metis prod_cases3)
  obtain ns1 where r2: "PeriodicTaskScheduler_run_nodes clock ns w1 = (ns1, w')" "ns' = n1 # ns1"
    using Cons.prems(4) r1 by (auto split: prod.splits)
  have "logs clock log n" "node_inv (log w) (clock w) n" using Cons.prems(1) by auto
  note s1 = PTNode_run_spec [OF this Cons.prems(3) r1]
  have k1: "times k (log w1) = times k (log w)" if "k \<noteq> ptn_id n" for k
    using s1 that by (auto simp: times_snoc split: if_splits)
  have other: "m \<in> set ns \<Longrightarrow> ptn_id m \<noteq> ptn_id n" for m
    using Cons.prems(2) by (simp, metis image_eqI)
  have "\<forall>m \<in> set ns. logs clock log m \<and> node_inv (log w1) (clock w1) m"
    using Cons.prems(1) k1 other s1 by (metis list.set_intros(2) node_inv_mono)
  moreover have "distinct (map ptn_id ns)" "0 < clock w1" using Cons.prems(2,3) s1 by auto
  ultimately have IH: "map node_key ns1 = map node_key ns \<and> clock w1 \<le> clock w'
    \<and> (\<forall>m \<in> set ns1. node_inv (log w') (clock w') m)
    \<and> (\<forall>k. k \<notin> ptn_id ` set ns \<longrightarrow> times k (log w') = times k (log w1))
    \<and> (\<forall>m \<in> set ns. due (clock w1) m \<longrightarrow> (\<exists>t. clock w1 \<le> t \<and> t \<le> clock w'
          \<and> times (ptn_id m) (log w') = times (ptn_id m) (log w1) @ [t]))"
    using Cons.IH [OF _ _ _ r2(1)] by blast
  have id1: "ptn_id n1 = ptn_id n" using s1 by (simp add: node_key_def)
  have notin: "ptn_id n \<notin> ptn_id ` set ns" using Cons.prems(2) by simp
  have "node_inv (log w') (clock w') n1"
    using node_inv_mono [of "log w1" "clock w1" n1 "log w'" "clock w'"] s1 IH id1 notin by auto
  moreover have "\<exists>t. clock w \<le> t \<and> t \<le> clock w' \<and> times (ptn_id m) (log w') = times (ptn_id m) (log w) @ [t]"
    if "m \<in> set (n # ns)" "due (clock w) m" for m
  proof (cases "m = n")
    case True
    then have "times (ptn_id m) (log w') = times (ptn_id m) (log w) @ [clock w]"
      using s1 IH notin that(2) by (simp add: times_snoc)
    then show ?thesis using s1 IH by (intro exI [of _ "clock w"]) auto
  next
    case False
    then have m: "m \<in> set ns" using that by simp
    then have "due (clock w1) m" using that(2) s1 by (auto simp: due_def)
    with IH m obtain t where "clock w1 \<le> t" "t \<le> clock w'"
      "times (ptn_id m) (log w') = times (ptn_id m) (log w1) @ [t]" by blast
    then show ?thesis using k1 [OF other [OF m]] s1 by (intro exI [of _ t]) auto
  qed
  moreover have "times k (log w') = times k (log w)" if "k \<notin> ptn_id ` set (n # ns)" for k
    using that IH k1 by auto
  ultimately show ?case using IH s1 r2(2) by auto
qed


lemma node_key_parts:
  assumes "map node_key ns' = map node_key ns"
  shows "map ptn_id ns' = map ptn_id ns"
    and "\<forall>n \<in> set ns. logs clock log n \<Longrightarrow> \<forall>n \<in> set ns'. logs clock log n"
proof -
  have "map fst (map node_key ns') = map fst (map node_key ns)" using assms by simp
  then show "map ptn_id ns' = map ptn_id ns" by (simp add: node_key_def comp_def)
  assume l: "\<forall>n \<in> set ns. logs clock log n"
  show "\<forall>n \<in> set ns'. logs clock log n"
  proof
    fix n' assume "n' \<in> set ns'"
    then have "node_key n' \<in> set (map node_key ns)" using assms by (metis image_eqI set_map)
    then obtain n where "n \<in> set ns" "node_key n' = node_key n" by auto
    then show "logs clock log n'" using l by (auto simp: node_key_def logs_def)
  qed
qed

text \<open>One run of the scheduler, whose estimator and delay leave the log alone.\<close>

definition waits_quietly :: "('w \<Rightarrow> time) \<Rightarrow> ('w \<Rightarrow> (string \<times> time) list) \<Rightarrow> 'w IDelayEstimator \<Rightarrow>
    (u32 \<Rightarrow> 'w \<Rightarrow> 'w) \<Rightarrow> bool" where
  "waits_quietly clock log est vTaskDelay \<longleftrightarrow> quiet clock log (de_begin est)
     \<and> quiet clock log (\<lambda>w. snd (de_estimate est w)) \<and> (\<forall>d. quiet clock log (vTaskDelay d))"

definition pts_inv :: "('w \<Rightarrow> time) \<Rightarrow> ('w \<Rightarrow> (string \<times> time) list) \<Rightarrow>
    'w PeriodicTaskScheduler \<Rightarrow> 'w \<Rightarrow> bool" where
  "pts_inv clock log s w \<longleftrightarrow> distinct (pts_ids s) \<and> 0 < clock w
     \<and> (\<forall>n \<in> set (pts_nodes s). logs clock log n \<and> node_inv (log w) (clock w) n)"

lemma PeriodicTaskScheduler_run_spec:
  assumes "waits_quietly clock log est vTaskDelay" and "pts_inv clock log s w"
    and "PeriodicTaskScheduler_run clock est vTaskDelay (s, w) = (c, (s', w'))"
  shows "pts_inv clock log s' w' \<and> map node_key (pts_nodes s') = map node_key (pts_nodes s)
    \<and> (\<forall>n \<in> set (pts_nodes s). due (clock w) n \<longrightarrow>
        (\<exists>t. clock w \<le> t \<and> t \<le> clock w' \<and> times (ptn_id n) (log w') = times (ptn_id n) (log w) @ [t]))"
proof -
  let ?w1 = "de_begin est w"
  obtain ns w2 where r: "PeriodicTaskScheduler_run_nodes clock (pts_nodes s) ?w1 = (ns, w2)"
    by fastforce
  obtain d w3 where e: "de_estimate est w2 = (d, w3)" by fastforce
  have s': "pts_nodes s' = ns" "w' = vTaskDelay d w3"
    using assms(3) r e by (auto simp: PeriodicTaskScheduler_run_def Let_def)
  have q1: "log ?w1 = log w" "clock w \<le> clock ?w1"
    using assms(1) by (simp_all add: waits_quietly_def quiet_def)
  have "log w3 = log w2" "clock w2 \<le> clock w3"
    using assms(1) e unfolding waits_quietly_def quiet_def by (metis snd_conv)+
  moreover have "log w' = log w3" "clock w3 \<le> clock w'"
    using assms(1) s'(2) by (simp_all add: waits_quietly_def quiet_def)
  ultimately have q2: "log w' = log w2" "clock w2 \<le> clock w'" by simp_all
  have "\<forall>n \<in> set (pts_nodes s). logs clock log n \<and> node_inv (log ?w1) (clock ?w1) n"
    using assms(2) q1 by (metis node_inv_mono pts_inv_def)
  moreover have "distinct (map ptn_id (pts_nodes s))" "0 < clock ?w1"
    using assms(2) q1 by (simp_all add: pts_inv_def pts_ids_def)
  ultimately have rn: "map node_key ns = map node_key (pts_nodes s) \<and> clock ?w1 \<le> clock w2
    \<and> (\<forall>n \<in> set ns. node_inv (log w2) (clock w2) n)
    \<and> (\<forall>k. k \<notin> ptn_id ` set (pts_nodes s) \<longrightarrow> times k (log w2) = times k (log ?w1))
    \<and> (\<forall>n \<in> set (pts_nodes s). due (clock ?w1) n \<longrightarrow> (\<exists>t. clock ?w1 \<le> t \<and> t \<le> clock w2
          \<and> times (ptn_id n) (log w2) = times (ptn_id n) (log ?w1) @ [t]))"
    using run_nodes_spec [OF _ _ _ r] by blast
  have "\<forall>n \<in> set ns. node_inv (log w') (clock w') n"
    using rn q2 by (metis node_inv_mono)
  then have "pts_inv clock log s' w'"
    using rn assms(2) q1 q2 s' node_key_parts [of ns "pts_nodes s"]
    by (auto simp: pts_inv_def pts_ids_def)
  moreover have "\<exists>t. clock w \<le> t \<and> t \<le> clock w'
      \<and> times (ptn_id n) (log w') = times (ptn_id n) (log w) @ [t]"
    if "n \<in> set (pts_nodes s)" "due (clock w) n" for n
  proof -
    have "due (clock ?w1) n" using that(2) q1(2) by (auto simp: due_def)
    with rn that(1) obtain t where "clock ?w1 \<le> t" "t \<le> clock w2"
      "times (ptn_id n) (log w2) = times (ptn_id n) (log ?w1) @ [t]" by blast
    then show ?thesis using q1 q2 by (intro exI [of _ t]) auto
  qed
  ultimately show ?thesis using rn s'(1) by blast
qed

text \<open>
  C29. A run of the cooperative scheduler keeps every task's schedule: a task that is due when the run
  begins is executed exactly once in it, whatever the other tasks return, and however many runs follow
  each other the executions of a task are at least its interval apart.
\<close>

theorem PeriodicTaskScheduler_schedule:
  assumes "waits_quietly clock log est vTaskDelay" and "0 < clock w" and "log w = []"
    and "distinct (pts_ids s)"
    and "\<forall>n \<in> set (pts_nodes s). logs clock log n \<and> 0 < rl_interval (ptn_limiter n)
           \<and> rl_start (ptn_limiter n) = 0"
    and "((\<lambda>sw. snd (PeriodicTaskScheduler_run clock est vTaskDelay sw)) ^^ m) (s, w) = (s1, w1)"
    and "PeriodicTaskScheduler_run clock est vTaskDelay (s1, w1) = (c, (s2, w2))"
  shows "c = OK
    \<and> (\<forall>n \<in> set (pts_nodes s1). sorted_wrt (\<lambda>a b. a + rl_interval (ptn_limiter n) \<le> b)
          (times (ptn_id n) (log w1)))
    \<and> (\<forall>n \<in> set (pts_nodes s1). due (clock w1) n \<longrightarrow>
        (\<exists>t. clock w1 \<le> t \<and> t \<le> clock w2 \<and> times (ptn_id n) (log w2) = times (ptn_id n) (log w1) @ [t]))
    \<and> map node_key (pts_nodes s1) = map node_key (pts_nodes s)"
proof -
  let ?run = "\<lambda>sw. snd (PeriodicTaskScheduler_run clock est vTaskDelay sw)"
  have i0: "pts_inv clock log s w"
    using assms(2-5) by (simp add: pts_inv_def node_inv_def times_def)
  have inv: "case (?run ^^ m) (s, w) of (s1, w1) \<Rightarrow> pts_inv clock log s1 w1
      \<and> map node_key (pts_nodes s1) = map node_key (pts_nodes s)" for m
  proof (induction m)
    case 0
    show ?case using i0 by simp
  next
    case (Suc m)
    obtain sm wm where m: "(?run ^^ m) (s, w) = (sm, wm)" by fastforce
    obtain c s' w' where r: "PeriodicTaskScheduler_run clock est vTaskDelay (sm, wm) = (c, (s', w'))"
      by (metis prod_cases3)
    have "pts_inv clock log sm wm" using Suc m by simp
    from PeriodicTaskScheduler_run_spec [OF assms(1) this r] Suc m r show ?case by simp
  qed
  have i1: "pts_inv clock log s1 w1" "map node_key (pts_nodes s1) = map node_key (pts_nodes s)"
    using inv [of m] assms(6) by simp_all
  have "c = OK" using assms(7) by (auto simp: PeriodicTaskScheduler_run_def Let_def split: prod.splits)
  moreover have "\<forall>n \<in> set (pts_nodes s1). sorted_wrt (\<lambda>a b. a + rl_interval (ptn_limiter n) \<le> b)
          (times (ptn_id n) (log w1))"
    using i1(1) by (auto simp: pts_inv_def node_inv_def Let_def)
  ultimately show ?thesis
    using PeriodicTaskScheduler_run_spec [OF assms(1) i1(1) assms(7)] i1(2) by blast
qed

text \<open>For the witness: a system of a clock and a log, and a task that takes two microseconds.\<close>

definition log_node :: "string \<Rightarrow> time \<Rightarrow> (time \<times> (string \<times> time) list) PTNode" where
  "log_node k i = \<lparr>ptn_id = k, ptn_task = (\<lambda>(t, l). (Error, (t + 2, l @ [(k, t)]))),
     ptn_limiter = \<lparr>rl_interval = i, rl_start = 0\<rparr>\<rparr>"

definition log_scheduler :: "(time \<times> (string \<times> time) list) PeriodicTaskScheduler" where
  "log_scheduler = \<lparr>pts_max_count = 2, pts_task_min_interval = 1000, pts_total_ts_min = INT64_MAX,
     pts_total_ts_max = INT64_MIN, pts_nodes = [log_node ''a'' 1000, log_node ''b'' 3000]\<rparr>"

theorem PeriodicTaskScheduler_schedule_witness:
  "\<exists>s2 w2 t. PeriodicTaskScheduler_run fst (ConstantDelayEstimator_init 5)
      (\<lambda>d (t, l). (t + 1000 * uint d, l)) (log_scheduler, (1, [])) = (OK, (s2, w2))
    \<and> times ''b'' (snd w2) = [t]"
proof -
  let ?run = "PeriodicTaskScheduler_run fst (ConstantDelayEstimator_init 5)
      (\<lambda>d (t, l). (t + 1000 * uint d, l))"
  obtain c s2 w2 where r: "?run (log_scheduler, (1, [])) = (c, (s2, w2))" by (metis prod_cases3)
  have "waits_quietly fst snd (ConstantDelayEstimator_init 5)
      (\<lambda>d (t, l). (t + 1000 * uint d, l)) \<and> distinct (pts_ids log_scheduler)"
    by (simp add: waits_quietly_def quiet_def ConstantDelayEstimator_init_def log_scheduler_def
        log_node_def pts_ids_def split_beta)
  moreover have "\<forall>n \<in> set (pts_nodes log_scheduler). logs fst snd n
      \<and> 0 < rl_interval (ptn_limiter n) \<and> rl_start (ptn_limiter n) = 0"
    by (simp add: log_scheduler_def log_node_def logs_def split_beta)
  ultimately have "c = OK \<and> (\<forall>n \<in> set (pts_nodes log_scheduler). due 1 n \<longrightarrow>
      (\<exists>t. 1 \<le> t \<and> t \<le> fst w2 \<and> times (ptn_id n) (snd w2) = times (ptn_id n) [] @ [t]))"
    using PeriodicTaskScheduler_schedule [of fst snd "ConstantDelayEstimator_init 5"
        "\<lambda>d (t, l). (t + 1000 * uint d, l)" "(1, [])" log_scheduler 0 log_scheduler "(1, [])" c s2 w2] r
    by simp
  moreover have "log_node ''b'' 3000 \<in> set (pts_nodes log_scheduler)" "due 1 (log_node ''b'' 3000)"
    by (simp_all add: log_scheduler_def log_node_def due_def)
  ultimately obtain t where "c = OK" "times ''b'' (snd w2) = times ''b'' [] @ [t]"
    by (auto simp: log_node_def)
  with r show ?thesis by (auto simp: times_def)
qed

section \<open>AsyncTaskScheduler\<close>

text \<open>
  The timers of the ESP-IDF and the event groups of FreeRTOS are parameters. A timer is created with a
  name, its callback being the task it is for; handles are numbers.
\<close>

record 'w esp_timer_api =
  esp_timer_create :: "string \<Rightarrow> 'w ITask \<Rightarrow> 'w \<Rightarrow> esp_err \<times> nat \<times> 'w"
  esp_timer_start_periodic :: "nat \<Rightarrow> time \<Rightarrow> 'w \<Rightarrow> esp_err \<times> 'w"
  esp_timer_stop :: "nat \<Rightarrow> 'w \<Rightarrow> esp_err \<times> 'w"

record 'w event_group_api =
  eg_set_bits :: "u32 \<Rightarrow> 'w \<Rightarrow> 'w"
  eg_wait_bits :: "u32 \<Rightarrow> bool \<Rightarrow> bool \<Rightarrow> u32 \<Rightarrow> 'w \<Rightarrow> u32 \<times> 'w"

definition AsyncTask_run :: "'w event_group_api \<Rightarrow> u32 \<Rightarrow> 'w step" where
  "AsyncTask_run eg event w = (OK, eg_set_bits eg event w)"

record HighResolutionTimer =
  hrt_interval :: time
  hrt_handle :: nat

text \<open>\<^verbatim>\<open>handle_cb_\<close>, which the timer calls, runs the task and logs its failure.\<close>

definition HighResolutionTimer_handle_cb :: "'w ITask \<Rightarrow> 'w \<Rightarrow> 'w" where
  "HighResolutionTimer_handle_cb task w = snd (task w)"

definition HighResolutionTimer_init ::
    "'w esp_timer_api \<Rightarrow> 'w ITask \<Rightarrow> string \<Rightarrow> time \<Rightarrow> 'w \<Rightarrow> (HighResolutionTimer \<times> 'w) checked" where
  "HighResolutionTimer_init api task name interval w =
     (if interval = 0 then Inl AssertFailed
      else case esp_timer_create api name (\<lambda>v. (OK, HighResolutionTimer_handle_cb task v)) w of
             (err, handle, w') \<Rightarrow>
               if err \<noteq> ESP_OK then Inl AssertFailed
               else Inr (\<lparr>hrt_interval = interval, hrt_handle = handle\<rparr>, w'))"

definition HighResolutionTimer_start :: "'w esp_timer_api \<Rightarrow> HighResolutionTimer \<Rightarrow> 'w step" where
  "HighResolutionTimer_start api t w =
     (case esp_timer_start_periodic api (hrt_handle t) (hrt_interval t) w of
        (err, w') \<Rightarrow> ((if err \<noteq> ESP_OK then Error else OK), w'))"

definition HighResolutionTimer_stop :: "'w esp_timer_api \<Rightarrow> HighResolutionTimer \<Rightarrow> 'w step" where
  "HighResolutionTimer_stop api t w =
     (case esp_timer_stop api (hrt_handle t) w of
        (err, w') \<Rightarrow> ((if err \<noteq> ESP_OK then Error else OK), w'))"

record 'w ATNode =
  atn_id :: string
  atn_event :: u32
  atn_task :: "'w ITask"
  atn_timer :: HighResolutionTimer

record 'w AsyncTaskScheduler =
  ats_nodes :: "'w ATNode list"
  ats_bits_all :: u32

definition AsyncTaskScheduler_init :: "'w AsyncTaskScheduler" where
  "AsyncTaskScheduler_init = \<lparr>ats_nodes = [], ats_bits_all = 0\<rparr>"

text \<open>\<^verbatim>\<open>EventBits_t\<close> has 4 bytes; FreeRTOS keeps its upper 8 bits for itself.\<close>

definition AsyncTaskScheduler_max_count :: nat where
  "AsyncTaskScheduler_max_count = 4 * 8 - 8"

definition ATNode_init ::
    "'w esp_timer_api \<Rightarrow> 'w event_group_api \<Rightarrow> 'w ITask \<Rightarrow> u32 \<Rightarrow> time \<Rightarrow> string \<Rightarrow> 'w \<Rightarrow>
       ('w ATNode \<times> 'w) checked" where
  "ATNode_init tm eg task event interval k w =
     (case HighResolutionTimer_init tm (AsyncTask_run eg event) k interval w of
        Inl f \<Rightarrow> Inl f
      | Inr (timer, w') \<Rightarrow>
          Inr (\<lparr>atn_id = k, atn_event = event, atn_task = task, atn_timer = timer\<rparr>, w'))"

definition AsyncTaskScheduler_add ::
    "'w esp_timer_api \<Rightarrow> 'w event_group_api \<Rightarrow> 'w ITask \<Rightarrow> string \<Rightarrow> time \<Rightarrow>
       'w AsyncTaskScheduler \<times> 'w \<Rightarrow> (status_code \<times> 'w AsyncTaskScheduler \<times> 'w) checked" where
  "AsyncTaskScheduler_add tm eg task k interval sw =
     (case sw of (s, w) \<Rightarrow>
        if \<not> 0 < interval then Inl AssertFailed
        else if \<not> microsecond \<le> interval then Inl AssertFailed
        else if length (ats_nodes s) = AsyncTaskScheduler_max_count then Inr (Error, s, w)
        else if list_ex (\<lambda>n. atn_id n = k) (ats_nodes s) then Inr (InvalidArg, s, w)
        else let event = BitOps_mask (of_nat (length (ats_nodes s)))
             in case ATNode_init tm eg task event interval k w of
                  Inl f \<Rightarrow> Inl f
                | Inr (node, w') \<Rightarrow>
                    Inr (OK, s\<lparr>ats_nodes := ats_nodes s @ [node],
                               ats_bits_all := ats_bits_all s OR event\<rparr>, w'))"

definition AsyncTaskScheduler_start :: "'w esp_timer_api \<Rightarrow> 'w AsyncTaskScheduler \<Rightarrow> 'w step" where
  "AsyncTaskScheduler_start tm s w =
     (let w1 = fold (\<lambda>n v. snd (atn_task n v)) (ats_nodes s) w;
          w2 = fold (\<lambda>n v. snd (HighResolutionTimer_start tm (atn_timer n) v)) (ats_nodes s) w1
      in (OK, w2))"

definition AsyncTaskScheduler_stop :: "'w esp_timer_api \<Rightarrow> 'w AsyncTaskScheduler \<Rightarrow> 'w step" where
  "AsyncTaskScheduler_stop tm s w =
     (OK, fold (\<lambda>n v. snd (HighResolutionTimer_stop tm (atn_timer n) v)) (ats_nodes s) w)"

fun AsyncTaskScheduler_run_nodes :: "u32 \<Rightarrow> 'w ATNode list \<Rightarrow> 'w \<Rightarrow> 'w" where
  "AsyncTaskScheduler_run_nodes bits [] w = w"
| "AsyncTaskScheduler_run_nodes bits (n # ns) w =
     AsyncTaskScheduler_run_nodes bits ns
       (if bits AND atn_event n \<noteq> 0 then snd (atn_task n w) else w)"

definition AsyncTaskScheduler_run ::
    "'w event_group_api \<Rightarrow> 'w IDelayEstimator \<Rightarrow> 'w AsyncTaskScheduler \<Rightarrow> 'w step" where
  "AsyncTaskScheduler_run eg estimator s w =
     (case de_estimate estimator (de_begin estimator w) of
        (delay, w1) \<Rightarrow>
          (case eg_wait_bits eg (ats_bits_all s) True False delay w1 of
             (bits, w2) \<Rightarrow> (OK, AsyncTaskScheduler_run_nodes bits (ats_nodes s) w2)))"

subsection \<open>Registration\<close>

definition ats_ids :: "'w AsyncTaskScheduler \<times> 'w \<Rightarrow> string list" where
  "ats_ids sw = map atn_id (ats_nodes (fst sw))"

definition timers_ok :: "'w esp_timer_api \<Rightarrow> bool" where
  "timers_ok tm \<longleftrightarrow> (\<forall>name cb w. \<exists>h w'. esp_timer_create tm name cb w = (ESP_OK, h, w'))"

lemma AsyncTaskScheduler_registry:
  assumes "timers_ok tm" and "0 < interval"
  shows "task_registry ats_ids (\<lambda>_. AsyncTaskScheduler_max_count)
    (\<lambda>k. AsyncTaskScheduler_add tm eg task k interval)"
proof -
  have m: "microsecond \<le> interval" using assms(2) by (simp add: microsecond_def)
  show ?thesis
  proof (unfold_locales, goal_cases)
    case (1 sw k)
    obtain s w where sw: "sw = (s, w)" by fastforce
    obtain h w' where "esp_timer_create tm k (\<lambda>v. (OK, HighResolutionTimer_handle_cb
        (AsyncTask_run eg (BitOps_mask (of_nat (length (ats_nodes s))))) v)) w = (ESP_OK, h, w')"
      using assms(1) unfolding timers_ok_def by blast
    then show ?case
      using 1 assms(2) m
      by (auto simp: sw AsyncTaskScheduler_add_def ATNode_init_def HighResolutionTimer_init_def
          ats_ids_def Let_def list_ex_iff)
  next
    case (2 sw k)
    then show ?case
      using assms(2) m by (cases sw) (simp add: AsyncTaskScheduler_add_def ats_ids_def)
  next
    case (3 sw k)
    then show ?case
      using assms(2) m
      by (cases sw) (auto simp: AsyncTaskScheduler_add_def ats_ids_def list_ex_iff)
  qed
qed

text \<open>Timers that always work, to interpret the contract on the event-driven scheduler.\<close>

definition null_timers :: "'w esp_timer_api" where
  "null_timers = \<lparr>esp_timer_create = (\<lambda>_ _ w. (ESP_OK, 0, w)),
     esp_timer_start_periodic = (\<lambda>_ _ w. (ESP_OK, w)), esp_timer_stop = (\<lambda>_ w. (ESP_OK, w))\<rparr>"

lemma null_timers_ok: "timers_ok null_timers"
  by (simp add: timers_ok_def null_timers_def)

interpretation async_registry:
  task_registry ats_ids "\<lambda>_. AsyncTaskScheduler_max_count"
    "\<lambda>k. AsyncTaskScheduler_add null_timers eg (\<lambda>w. (OK, w)) k second" for eg
  by (rule AsyncTaskScheduler_registry [OF null_timers_ok])
    (simp add: second_def millisecond_def microsecond_def)

text \<open>
  Both schedulers register a task exactly when they return \<open>OK\<close>: from an empty scheduler, the
  tasks registered are those whose addition returned \<open>OK\<close>, in order, without duplicates and within
  the limit (the configured one, or the 24 usable event bits), and as long as the identifiers are new and
  there is room every addition succeeds.
\<close>

theorem schedulers_register:
  assumes "PeriodicTaskScheduler_init m = Inr p" and "millisecond \<le> interval" and "timers_ok tm"
    and "add_all (\<lambda>k. PeriodicTaskScheduler_add task k interval) ks p = (cs, p')"
    and "add_all (\<lambda>k. AsyncTaskScheduler_add tm eg task k interval) ks
      (AsyncTaskScheduler_init, w) = (ds, a')"
  shows "pts_ids p' = map fst (filter (\<lambda>(k, c). c = OK) (zip ks cs))
    \<and> ats_ids a' = map fst (filter (\<lambda>(k, c). c = OK) (zip ks ds))
    \<and> distinct (pts_ids p') \<and> distinct (ats_ids a')
    \<and> length (pts_ids p') \<le> m \<and> length (ats_ids a') \<le> 24
    \<and> (distinct ks \<and> length ks \<le> m \<longrightarrow> cs = replicate (length ks) OK)
    \<and> (distinct ks \<and> length ks \<le> 24 \<longrightarrow> ds = replicate (length ks) OK)"
proof -
  have i: "0 < interval" using assms(2) by (simp add: millisecond_def microsecond_def)
  note P = PeriodicTaskScheduler_registry [OF assms(2), of task]
  note A = AsyncTaskScheduler_registry [OF assms(3) i, of eg task]
  note p = pts_wf [OF assms(2,1)]
  have a: "task_registry.wf ats_ids (\<lambda>_. AsyncTaskScheduler_max_count) (AsyncTaskScheduler_init, w)"
    "ats_ids (AsyncTaskScheduler_init, w) = []"
    by (simp_all add: task_registry.wf_def [OF A] ats_ids_def AsyncTaskScheduler_init_def)
  note sp = task_registry.add_all_spec [OF P p(1) assms(4)]
  note sa = task_registry.add_all_spec [OF A a(1) assms(5)]
  have fp: "distinct ks \<and> length ks \<le> m \<Longrightarrow> cs = replicate (length ks) OK"
    using task_registry.add_all_fresh [OF P p(1), of ks] p(2,3) assms(4) by auto
  have fa: "distinct ks \<and> length ks \<le> 24 \<Longrightarrow> ds = replicate (length ks) OK"
    using task_registry.add_all_fresh [OF A a(1), of ks] a(2) assms(5)
    by (auto simp: AsyncTaskScheduler_max_count_def)
  have wp: "distinct (pts_ids p') \<and> length (pts_ids p') \<le> m"
    using sp p(3) unfolding task_registry.wf_def [OF P] by metis
  have wa: "distinct (ats_ids a') \<and> length (ats_ids a') \<le> 24"
  proof -
    have "AsyncTaskScheduler_max_count = 24" by (simp add: AsyncTaskScheduler_max_count_def)
    then show ?thesis using sa unfolding task_registry.wf_def [OF A] by metis
  qed
  have "pts_ids p' = map fst (filter (\<lambda>(k, c). c = OK) (zip ks cs))"
    "ats_ids a' = map fst (filter (\<lambda>(k, c). c = OK) (zip ks ds))"
    using sp sa p(2) a(2) by simp_all
  then show ?thesis using wp wa fp fa by blast
qed

theorem schedulers_register_witness:
  "\<exists>cs p'. add_all (\<lambda>k. PeriodicTaskScheduler_add (\<lambda>w. (OK, w :: unit)) k second) [''a'', ''b'']
     \<lparr>pts_max_count = 4, pts_task_min_interval = INT64_MAX, pts_total_ts_min = INT64_MAX,
      pts_total_ts_max = INT64_MIN, pts_nodes = []\<rparr> = ([OK, OK], p')"
proof -
  let ?p = "\<lparr>pts_max_count = 4, pts_task_min_interval = INT64_MAX, pts_total_ts_min = INT64_MAX,
      pts_total_ts_max = INT64_MIN, pts_nodes = []\<rparr> :: unit PeriodicTaskScheduler"
  have p: "PeriodicTaskScheduler_init 4 = Inr ?p" by (simp add: PeriodicTaskScheduler_init_def)
  have i: "millisecond \<le> second" by (simp add: second_def millisecond_def microsecond_def)
  let ?eg = "\<lparr>eg_set_bits = (\<lambda>_ w. w), eg_wait_bits = (\<lambda>_ _ _ _ w. (0, w))\<rparr> :: unit event_group_api"
  obtain cs p' where c: "add_all (\<lambda>k. PeriodicTaskScheduler_add (\<lambda>w. (OK, w)) k second)
      [''a'', ''b''] ?p = (cs, p')" by (metis surj_pair)
  obtain ds a' where d: "add_all (\<lambda>k. AsyncTaskScheduler_add null_timers ?eg (\<lambda>w. (OK, w)) k second)
      [''a'', ''b''] (AsyncTaskScheduler_init, ()) = (ds, a')" by (metis surj_pair)
  from schedulers_register [OF p i null_timers_ok c d] c show ?thesis by auto
qed

subsection \<open>Dispatching events\<close>

inductive ATS_built ::
    "'w esp_timer_api \<Rightarrow> 'w event_group_api \<Rightarrow> 'w AsyncTaskScheduler \<Rightarrow> bool"
  for tm :: "'w esp_timer_api" and eg :: "'w event_group_api"
where
  built_init: "ATS_built tm eg AsyncTaskScheduler_init"
| built_add: "ATS_built tm eg s \<Longrightarrow>
     AsyncTaskScheduler_add tm eg task k interval (s, w) = Inr (c, s', w') \<Longrightarrow> ATS_built tm eg s'"

text \<open>Every node has the event bit of its position, and the scheduler waits for all of them.\<close>

definition ats_events :: "'w AsyncTaskScheduler \<Rightarrow> bool" where
  "ats_events s \<longleftrightarrow> length (ats_nodes s) \<le> 24
     \<and> (\<forall>i < length (ats_nodes s). atn_event (ats_nodes s ! i) = BitOps_mask (of_nat i))
     \<and> (\<forall>i. bit (ats_bits_all s) i \<longleftrightarrow> i < length (ats_nodes s))"

lemma ATNode_init_event:
  "ATNode_init tm eg task event interval k w = Inr (node, w') \<Longrightarrow> atn_event node = event"
  by (auto simp: ATNode_init_def split: sum.splits prod.splits)

lemma AsyncTaskScheduler_add_OK:
  assumes "AsyncTaskScheduler_add tm eg task k interval (s, w) = Inr (c, s', w')"
  shows "s' = s \<or> length (ats_nodes s) \<noteq> 24 \<and> (\<exists>node.
      atn_event node = BitOps_mask (of_nat (length (ats_nodes s)))
    \<and> s' = s\<lparr>ats_nodes := ats_nodes s @ [node],
             ats_bits_all := ats_bits_all s OR BitOps_mask (of_nat (length (ats_nodes s)))\<rparr>)"
proof (cases "\<exists>node w1. ATNode_init tm eg task
    (BitOps_mask (of_nat (length (ats_nodes s)))) interval k w = Inr (node, w1)")
  case True
  then obtain node w1 where n: "ATNode_init tm eg task
    (BitOps_mask (of_nat (length (ats_nodes s)))) interval k w = Inr (node, w1)" by blast
  then show ?thesis
    using assms ATNode_init_event [OF n]
    by (auto simp: AsyncTaskScheduler_add_def Let_def AsyncTaskScheduler_max_count_def
        split: if_splits)
next
  case False
  then show ?thesis
    using assms
    by (auto simp: AsyncTaskScheduler_add_def Let_def split: if_splits sum.splits prod.splits)
qed

lemma ATS_built_events: "ATS_built tm eg s \<Longrightarrow> ats_events s"
proof (induction rule: ATS_built.induct)
  case built_init
  show ?case by (simp add: ats_events_def AsyncTaskScheduler_init_def)
next
  case (built_add s task k interval w c s' w')
  from AsyncTaskScheduler_add_OK [OF built_add(2)] show ?case
  proof
    assume "s' = s"
    then show ?thesis using built_add(3) by simp
  next
    let ?n = "length (ats_nodes s)"
    assume "?n \<noteq> 24 \<and> (\<exists>node. atn_event node = BitOps_mask (of_nat ?n)
      \<and> s' = s\<lparr>ats_nodes := ats_nodes s @ [node],
               ats_bits_all := ats_bits_all s OR BitOps_mask (of_nat ?n)\<rparr>)"
    then obtain node where n: "?n \<noteq> 24" "atn_event node = BitOps_mask (of_nat ?n)"
      "s' = s\<lparr>ats_nodes := ats_nodes s @ [node],
               ats_bits_all := ats_bits_all s OR BitOps_mask (of_nat ?n)\<rparr>" by blast
    have lt: "?n < 24" using n(1) built_add(3) by (simp add: ats_events_def)
    then have u: "unat (of_nat ?n :: u8) = ?n" by (simp add: unat_of_nat)
    have "bit (ats_bits_all s') i \<longleftrightarrow> i < Suc ?n" for i
      using built_add(3) n(3) u lt by (auto simp: ats_events_def bit_or_iff bit_BitOps_mask)
    then show ?thesis
      using built_add(3) n lt by (auto simp: ats_events_def nth_append less_Suc_eq)
  qed
qed

lemma and_mask_bit: "i < 24 \<Longrightarrow> (b :: u32) AND BitOps_mask (of_nat i) \<noteq> 0 \<longleftrightarrow> bit b i"
  using BitOps_nth_bit [of b "of_nat i"]
  by (simp add: BitOps_nth_def unat_of_nat and.commute split: if_splits)

lemma run_nodes_filter:
  "AsyncTaskScheduler_run_nodes bits ns w =
     fold (\<lambda>n v. snd (atn_task n v)) (filter (\<lambda>n. bits AND atn_event n \<noteq> 0) ns) w"
  by (induction ns arbitrary: w) simp_all

lemma filter_nth_upt:
  "filter P xs = map ((!) xs) (filter (\<lambda>i. P (xs ! i)) [0..<length xs])"
proof -
  have "filter P (map ((!) xs) [0..<length xs])
      = map ((!) xs) (filter (\<lambda>i. P (xs ! i)) [0..<length xs])"
    by (simp add: filter_map comp_def)
  then show ?thesis by (simp add: map_nth)
qed

lemma run_nodes_events:
  assumes "ats_events s"
  shows "AsyncTaskScheduler_run_nodes bits (ats_nodes s) w =
    fold (\<lambda>i v. snd (atn_task (ats_nodes s ! i) v))
      (filter (bit bits) [0..<length (ats_nodes s)]) w"
proof -
  have "bits AND atn_event (ats_nodes s ! i) \<noteq> 0 \<longleftrightarrow> bit bits i" if "i < length (ats_nodes s)" for i
    using assms that and_mask_bit [of i bits] by (simp add: ats_events_def)
  then have "filter (\<lambda>i. bits AND atn_event (ats_nodes s ! i) \<noteq> 0) [0..<length (ats_nodes s)]
      = filter (bit bits) [0..<length (ats_nodes s)]"
    by (intro filter_cong) auto
  then show ?thesis
    unfolding run_nodes_filter
    by (subst filter_nth_upt) (simp add: fold_map comp_def)
qed

text \<open>
  What FreeRTOS documents of event groups: setting bits adds them; waiting for some of a non-zero set
  of bits with clearing on exit returns the bits at the time it ends, which are the bits that were set
  and those that were added meanwhile, and leaves none of the bits waited for when one was set.
\<close>

definition event_group_laws :: "'w event_group_api \<Rightarrow> ('w \<Rightarrow> u32) \<Rightarrow> bool" where
  "event_group_laws eg pending \<longleftrightarrow>
     (\<forall>e w. pending (eg_set_bits eg e w) = pending w OR e)
   \<and> (\<forall>m d w. m \<noteq> 0 \<longrightarrow> (\<exists>v w'. eg_wait_bits eg m True False d w = (v, w')
        \<and> pending w AND v = pending w
        \<and> pending w' = (if v AND m \<noteq> 0 then v AND NOT m else v)))"

text \<open>A timer that fires leaves its event in the group, and the wait takes the events of all nodes out of it.\<close>

lemma AsyncTask_run_pending:
  assumes "event_group_laws eg pending" and "n \<in> set ns \<and> bit (atn_event n) i \<or> bit (pending u) i"
  shows "bit (pending (fold (\<lambda>n v. snd (AsyncTask_run eg (atn_event n) v)) ns u)) i"
  using assms(2)
proof (induction ns arbitrary: u)
  case (Cons a ns)
  have p: "pending (snd (AsyncTask_run eg (atn_event a) u)) = pending u OR atn_event a"
    using assms(1) by (simp add: AsyncTask_run_def event_group_laws_def)
  from Cons.prems show ?case
    using Cons.IH [of "snd (AsyncTask_run eg (atn_event a) u)"] by (auto simp: p bit_or_iff)
qed simp

lemma cleared_bits:
  fixes all :: u32
  assumes "p = (if v AND all \<noteq> 0 then v AND NOT all else v)" and "bit all i"
  shows "\<not> bit p i"
proof (cases "v AND all = 0")
  case True
  have "\<not> bit (v AND all) i" unfolding True by simp
  then have "\<not> bit v i" using assms(2) by (simp add: bit_and_iff)
  then show ?thesis using assms(1) True by simp
qed (use assms in \<open>simp add: bit_and_iff bit_not_iff\<close>)


text \<open>For the witness, an event group that is a word, and three tasks that count their executions.\<close>

definition word_events :: "(u32 \<times> nat list) event_group_api" where
  "word_events = \<lparr>eg_set_bits = (\<lambda>e (p, l). (p OR e, l)),
     eg_wait_bits = (\<lambda>m _ _ _ (p, l). (p, (if p AND m \<noteq> 0 then p AND NOT m else p, l)))\<rparr>"

definition count_node :: "nat \<Rightarrow> (u32 \<times> nat list) ATNode" where
  "count_node i = \<lparr>atn_id = replicate (Suc i) CHR ''t'', atn_event = BitOps_mask (of_nat i),
     atn_task = (\<lambda>(p, l). (OK, (p, l @ [i]))), atn_timer = \<lparr>hrt_interval = second, hrt_handle = 0\<rparr>\<rparr>"

definition count_scheduler :: "(u32 \<times> nat list) AsyncTaskScheduler" where
  "count_scheduler = \<lparr>ats_nodes = [count_node 0, count_node 1], ats_bits_all = 3\<rparr>"

lemma count_scheduler_built: "ATS_built null_timers word_events count_scheduler"
proof -
  let ?add = "\<lambda>i. AsyncTaskScheduler_add null_timers word_events (\<lambda>(p, l). (OK, (p, l @ [i])))
      (replicate (Suc i) CHR ''t'') second"
  let ?s1 = "\<lparr>ats_nodes = [count_node 0], ats_bits_all = 1\<rparr>"
  have c: "0 < second" "microsecond \<le> second"
    by (simp_all add: second_def millisecond_def microsecond_def)
  have "?add 0 (AsyncTaskScheduler_init, (0, [])) = Inr (OK, ?s1, (0, []))"
    using c by (simp add: AsyncTaskScheduler_add_def AsyncTaskScheduler_init_def ATNode_init_def
        HighResolutionTimer_init_def null_timers_def count_node_def BitOps_mask_def
        AsyncTaskScheduler_max_count_def Let_def)
  from built_add [OF built_init this] have b1: "ATS_built null_timers word_events ?s1" .
  have "?add 1 (?s1, (0, [])) = Inr (OK, count_scheduler, (0, []))"
    using c by (simp add: AsyncTaskScheduler_add_def ATNode_init_def
        HighResolutionTimer_init_def null_timers_def count_node_def BitOps_mask_def
        AsyncTaskScheduler_max_count_def Let_def count_scheduler_def)
  from built_add [OF b1 this] show ?thesis .
qed


end
