(* ===== verification/Deferred.thy ===== *)
theory Deferred
  imports Scheduler
begin

text \<open>
  Deferred calls: \<^verbatim>\<open>core::Future\<close> (ocs_core/future.cpp), the queue of functions that one
  task fills and another drains (ocs_scheduler/async_func_scheduler.cpp) and \<^verbatim>\<open>AsyncFunc\<close>
  (async_func.cpp), which runs a task through the queue and waits for it. The critical sections of the
  mutexes are the atomic steps. A function can use the scheduler while it runs, so a queue holds names
  of functions and \<open>exec\<close> gives their meaning.
\<close>

section \<open>core::Future\<close>

text \<open>
  Futures live in a list of their codes and are known by their index. \<^verbatim>\<open>Last\<close> stands for
  "not finished yet".
\<close>

type_synonym futures = "status_code list"

definition Future_new :: "futures \<Rightarrow> nat \<times> futures" where
  "Future_new h = (length h, h @ [Last])"

definition Future_notify :: "status_code \<Rightarrow> nat \<Rightarrow> futures \<Rightarrow> futures" where
  "Future_notify code i h = h[i := code]"

definition Future_code :: "nat \<Rightarrow> futures \<Rightarrow> status_code" where
  "Future_code i h = h ! i"

text \<open>
  Waiting checks the code in a loop around \<^verbatim>\<open>Cond::wait\<close>, in which the other tasks run:
  \<open>cond_wait\<close> is an argument. The loop need not end, so it is a partial function.
\<close>

partial_function (option) Future_wait ::
    "('w \<Rightarrow> status_code) \<Rightarrow> 'w step \<Rightarrow> 'w \<Rightarrow> (status_code \<times> 'w) option" where
  "Future_wait code cond_wait w =
     (if code w = Last
      then (case cond_wait w of
              (c, w') \<Rightarrow> if c \<noteq> OK then Some (c, w') else Future_wait code cond_wait w')
      else Some (OK, w))"

section \<open>AsyncFuncScheduler\<close>

record 'f AsyncFuncScheduler =
  afs_max_event_count :: nat
  afs_read_queue :: "('f \<times> nat) list"
  afs_write_queue :: "('f \<times> nat) list"

type_synonym ('f, 'w) afs_state = "'f AsyncFuncScheduler \<times> futures \<times> 'w"

definition AsyncFuncScheduler_init :: "nat \<Rightarrow> 'f AsyncFuncScheduler checked" where
  "AsyncFuncScheduler_init max_event_count =
     (if max_event_count = 0 then Inl AssertFailed
      else Inr \<lparr>afs_max_event_count = max_event_count, afs_read_queue = [], afs_write_queue = []\<rparr>)"

text \<open>\<open>alloc\<close> says whether \<^verbatim>\<open>new (std::nothrow)\<close> has memory for the future.\<close>

definition AsyncFuncScheduler_add ::
    "bool \<Rightarrow> 'f \<Rightarrow> ('f, 'w) afs_state \<Rightarrow> nat option \<times> ('f, 'w) afs_state" where
  "AsyncFuncScheduler_add alloc func st =
     (case st of (s, h, w) \<Rightarrow>
        if length (afs_write_queue s) = afs_max_event_count s then (None, st)
        else if \<not> alloc then (None, st)
        else (case Future_new h of
                (i, h') \<Rightarrow>
                  (Some i, s\<lparr>afs_write_queue := afs_write_queue s @ [(func, i)]\<rparr>, h', w)))"

text \<open>The queued closure runs the function and notifies its future.\<close>

definition AsyncFuncScheduler_call ::
    "('f \<Rightarrow> ('f, 'w) afs_state step) \<Rightarrow> 'f \<times> nat \<Rightarrow> ('f, 'w) afs_state \<Rightarrow> ('f, 'w) afs_state" where
  "AsyncFuncScheduler_call exec fn st =
     (case exec (fst fn) st of
        (code, (s, h, w)) \<Rightarrow> (s, Future_notify code (snd fn) h, w))"

definition AsyncFuncScheduler_run ::
    "('f \<Rightarrow> ('f, 'w) afs_state step) \<Rightarrow> ('f, 'w) afs_state step" where
  "AsyncFuncScheduler_run exec st =
     (case st of (s, h, w) \<Rightarrow>
        if afs_write_queue s = [] then (OK, st)
        else
          let s1 = s\<lparr>afs_write_queue := afs_read_queue s, afs_read_queue := afs_write_queue s\<rparr>
          in case fold (AsyncFuncScheduler_call exec) (afs_read_queue s1) (s1, h, w) of
               (s2, h2, w2) \<Rightarrow> (OK, (s2\<lparr>afs_read_queue := []\<rparr>, h2, w2)))"

section \<open>AsyncFunc\<close>

definition AsyncFunc_run ::
    "bool \<Rightarrow> 'f \<Rightarrow> ('f, 'w) afs_state step \<Rightarrow> ('f, 'w) afs_state \<Rightarrow>
       (status_code \<times> ('f, 'w) afs_state) option" where
  "AsyncFunc_run alloc task cond_wait st =
     (case AsyncFuncScheduler_add alloc task st of
        (None, st1) \<Rightarrow> Some (InvalidState, st1)
      | (Some i, st1) \<Rightarrow>
          (case Future_wait (\<lambda>(s, h, w). Future_code i h) cond_wait st1 of
             None \<Rightarrow> None
           | Some (code, (s, h, w)) \<Rightarrow>
               if code \<noteq> OK then Some (code, (s, h, w)) else Some (Future_code i h, (s, h, w))))"

section \<open>Order and completeness\<close>

text \<open>
  What a function may do to the scheduler: register more functions. \<open>afs_extends\<close> is the effect of
  any number of additions.
\<close>

definition afs_extends :: "('f, 'w) afs_state \<Rightarrow> ('f, 'w) afs_state \<Rightarrow> bool" where
  "afs_extends st st' \<longleftrightarrow>
     (\<exists>new. afs_write_queue (fst st') = afs_write_queue (fst st) @ new
        \<and> fst (snd st') = fst (snd st) @ replicate (length new) Last
        \<and> map snd new = [length (fst (snd st))..<length (fst (snd st'))]
        \<and> afs_max_event_count (fst st') = afs_max_event_count (fst st)
        \<and> afs_read_queue (fst st') = afs_read_queue (fst st)
        \<and> (length (afs_write_queue (fst st)) \<le> afs_max_event_count (fst st) \<longrightarrow>
             length (afs_write_queue (fst st')) \<le> afs_max_event_count (fst st)))"

lemma afs_extends_refl: "fst st' = fst st \<Longrightarrow> fst (snd st') = fst (snd st) \<Longrightarrow> afs_extends st st'"
  by (auto simp: afs_extends_def)

lemma upt_concat: "i \<le> j \<Longrightarrow> j \<le> k \<Longrightarrow> [i..<j] @ [j..<k] = [i..<k]"
  using upt_add_eq_append [of i j "k - j"] by simp

lemma afs_extends_trans:
  assumes "afs_extends a b" and "afs_extends b c"
  shows "afs_extends a c"
proof -
  obtain m where m: "afs_write_queue (fst b) = afs_write_queue (fst a) @ m"
    "fst (snd b) = fst (snd a) @ replicate (length m) Last"
    "map snd m = [length (fst (snd a))..<length (fst (snd b))]"
    using assms(1) unfolding afs_extends_def by blast
  obtain n where n: "afs_write_queue (fst c) = afs_write_queue (fst b) @ n"
    "fst (snd c) = fst (snd b) @ replicate (length n) Last"
    "map snd n = [length (fst (snd b))..<length (fst (snd c))]"
    using assms(2) unfolding afs_extends_def by blast
  have "afs_write_queue (fst c) = afs_write_queue (fst a) @ (m @ n)" using m n by simp
  moreover have "fst (snd c) = fst (snd a) @ replicate (length (m @ n)) Last"
    using m n by (simp add: replicate_add)
  moreover have "map snd (m @ n) = [length (fst (snd a))..<length (fst (snd c))]"
  proof -
    have "length (fst (snd a)) \<le> length (fst (snd b))" "length (fst (snd b)) \<le> length (fst (snd c))"
      using m(2) n(2) by simp_all
    from upt_concat [OF this] show ?thesis using m(3) n(3) by simp
  qed
  ultimately show ?thesis
    using assms unfolding afs_extends_def by metis
qed

lemma AsyncFuncScheduler_add_extends: "afs_extends st (snd (AsyncFuncScheduler_add alloc f st))"
proof (cases st)
  case (fields s h w)
  then show ?thesis
    by (auto simp: AsyncFuncScheduler_add_def Future_new_def afs_extends_def)
qed

definition func_ok :: "('f \<Rightarrow> ('f, 'w) afs_state step) \<Rightarrow> bool" where
  "func_ok exec \<longleftrightarrow> (\<forall>f st. fst (exec f st) \<noteq> Last \<and> afs_extends st (snd (exec f st)))"

inductive AFS_reach :: "('f \<Rightarrow> ('f, 'w) afs_state step) \<Rightarrow> ('f, 'w) afs_state \<Rightarrow> bool"
  for exec :: "'f \<Rightarrow> ('f, 'w) afs_state step"
where
  afs_start: "AsyncFuncScheduler_init m = Inr s \<Longrightarrow> AFS_reach exec (s, [], w)"
| afs_add: "AFS_reach exec st \<Longrightarrow> AFS_reach exec (snd (AsyncFuncScheduler_add alloc f st))"
| afs_run: "AFS_reach exec st \<Longrightarrow> AFS_reach exec (snd (AsyncFuncScheduler_run exec st))"
| afs_world: "AFS_reach exec (s, h, w) \<Longrightarrow> AFS_reach exec (s, h, w')"

text \<open>
  \<open>served queue h\<close>: the futures of the queue are the last ones, in order and not finished, and all
  before them are finished.
\<close>

definition served :: "('f \<times> nat) list \<Rightarrow> futures \<Rightarrow> bool" where
  "served q h \<longleftrightarrow> (\<exists>k. k \<le> length h \<and> map snd q = [k..<length h]
     \<and> (\<forall>i < length h. h ! i = Last \<longleftrightarrow> k \<le> i))"

definition afs_inv :: "('f, 'w) afs_state \<Rightarrow> bool" where
  "afs_inv st \<longleftrightarrow> afs_read_queue (fst st) = []
     \<and> length (afs_write_queue (fst st)) \<le> afs_max_event_count (fst st)
     \<and> served (afs_write_queue (fst st)) (fst (snd st))"

lemma served_snoc_extends:
  assumes "served (q @ p) h" and "map snd new = [length h..<length h + length new]"
  shows "served (q @ p @ new) (h @ replicate (length new) Last)"
proof -
  obtain k where k: "k \<le> length h" "map snd (q @ p) = [k..<length h]"
    "\<forall>i < length h. h ! i = Last \<longleftrightarrow> k \<le> i"
    using assms(1) unfolding served_def by blast
  have "map snd (q @ p @ new) = [k..<length h + length new]"
  proof -
    have "map snd (q @ p @ new) = map snd (q @ p) @ map snd new" by simp
    also have "\<dots> = [k..<length h] @ [length h..<length h + length new]"
      unfolding k(2) assms(2) ..
    finally show ?thesis using upt_concat [of k "length h" "length h + length new"] k(1) by simp
  qed
  with k show ?thesis
    unfolding served_def by (intro exI [of _ k]) (auto simp: nth_append)
qed

lemma served_notify:
  assumes "served ((f, i) # q) h" and "code \<noteq> Last"
  shows "served q (h[i := code])"
proof -
  obtain k where k: "k \<le> length h" "map snd ((f, i) # q) = [k..<length h]"
    "\<forall>i < length h. h ! i = Last \<longleftrightarrow> k \<le> i"
    using assms(1) unfolding served_def by blast
  have lt: "k < length h"
  proof (rule ccontr)
    assume "\<not> k < length h"
    then have "[k..<length h] = []" by simp
    with k(2) show False by simp
  qed
  then have "[k..<length h] = k # [Suc k..<length h]" by (rule upt_conv_Cons)
  then have i: "i = k" "map snd q = [Suc k..<length h]" using k(2) by simp_all
  have "(h[i := code]) ! j = Last \<longleftrightarrow> Suc k \<le> j" if "j < length h" for j
    using k(3) that assms(2) i(1) by (cases "j = k") (auto simp: nth_list_update)
  then show ?thesis
    unfolding served_def using i lt by (intro exI [of _ "Suc k"]) simp
qed

text \<open>The loop over the read queue.\<close>

lemma afs_run_loop:
  assumes "func_ok exec" and "served (q @ afs_write_queue s) h"
    and "length (afs_write_queue s) \<le> afs_max_event_count s"
    and "fold (AsyncFuncScheduler_call exec) q (s, h, w) = (s', h', w')"
  shows "served (afs_write_queue s') h' \<and> length (afs_write_queue s') \<le> afs_max_event_count s'
    \<and> (\<exists>new. afs_write_queue s' = afs_write_queue s @ new \<and> length h' = length h + length new)"
  using assms(2-)
proof (induction q arbitrary: s h w)
  case Nil
  then show ?case by auto
next
  case (Cons fi q)
  obtain f i where fi: "fi = (f, i)" by fastforce
  obtain code s1 h1 w1 where e: "exec f (s, h, w) = (code, (s1, h1, w1))" by (metis prod_cases4)
  have c: "code \<noteq> Last" and x: "afs_extends (s, h, w) (s1, h1, w1)"
    using assms(1) e unfolding func_ok_def by (metis fst_conv snd_conv)+
  from x obtain new where new: "afs_write_queue s1 = afs_write_queue s @ new"
    "h1 = h @ replicate (length new) Last" "map snd new = [length h..<length h + length new]"
    "length (afs_write_queue s1) \<le> afs_max_event_count s1"
    using Cons.prems(2) by (auto simp: afs_extends_def)
  have "served ((f, i) # q @ afs_write_queue s1) h1"
    using served_snoc_extends [of "(f, i) # q" "afs_write_queue s" h new] Cons.prems(1) new fi
    by simp
  from served_notify [OF this c] have sv: "served (q @ afs_write_queue s1) (h1[i := code])" .
  have "AsyncFuncScheduler_call exec (f, i) (s, h, w) = (s1, h1[i := code], w1)"
    using e by (simp add: AsyncFuncScheduler_call_def Future_notify_def)
  then have "fold (AsyncFuncScheduler_call exec) q (s1, h1[i := code], w1) = (s', h', w')"
    using Cons.prems(3) fi by simp
  from Cons.IH [OF sv new(4) this] new show ?case by auto
qed

lemma AsyncFuncScheduler_run_inv:
  assumes "func_ok exec" and "afs_inv (s, h, w)"
    and "AsyncFuncScheduler_run exec (s, h, w) = (c, (s', h', w'))"
  shows "afs_inv (s', h', w') \<and> c = OK
    \<and> length h' = length h + length (afs_write_queue s')"
proof (cases "afs_write_queue s = []")
  case True
  then show ?thesis using assms by (auto simp: AsyncFuncScheduler_run_def)
next
  case False
  let ?s1 = "s\<lparr>afs_write_queue := [], afs_read_queue := afs_write_queue s\<rparr>"
  have r: "afs_read_queue s = []" using assms(2) by (simp add: afs_inv_def)
  obtain s2 where s2: "fold (AsyncFuncScheduler_call exec) (afs_write_queue s) (?s1, h, w)
      = (s2, h', w')" "s' = s2\<lparr>afs_read_queue := []\<rparr>" "c = OK"
    using assms(3) False r by (auto simp: AsyncFuncScheduler_run_def Let_def split: prod.splits)
  have "served (afs_write_queue s @ afs_write_queue ?s1) h" "length (afs_write_queue ?s1) \<le> afs_max_event_count ?s1"
    using assms(2) by (simp_all add: afs_inv_def)
  from afs_run_loop [OF assms(1) this s2(1)] s2(2,3) show ?thesis
    by (auto simp: afs_inv_def)
qed

lemma AsyncFuncScheduler_add_inv:
  assumes "afs_inv st"
  shows "afs_inv (snd (AsyncFuncScheduler_add alloc f st))"
proof -
  obtain s h w where st: "st = (s, h, w)" by (metis prod_cases3)
  obtain new where "afs_write_queue (fst (snd (AsyncFuncScheduler_add alloc f st))) = afs_write_queue s @ new"
    "fst (snd (snd (AsyncFuncScheduler_add alloc f st))) = h @ replicate (length new) Last"
    "map snd new = [length h..<length h + length new]"
    "afs_read_queue (fst (snd (AsyncFuncScheduler_add alloc f st))) = afs_read_queue s"
    "length (afs_write_queue (fst (snd (AsyncFuncScheduler_add alloc f st))))
      \<le> afs_max_event_count (fst (snd (AsyncFuncScheduler_add alloc f st)))"
    using AsyncFuncScheduler_add_extends [of st alloc f] assms
    by (auto simp: afs_extends_def afs_inv_def st)
  then show ?thesis
    using served_snoc_extends [of "[]" "afs_write_queue s" h new] assms
    by (simp add: afs_inv_def st)
qed

lemma AFS_reach_inv:
  assumes "func_ok exec"
  shows "AFS_reach exec st \<Longrightarrow> afs_inv st"
proof (induction rule: AFS_reach.induct)
  case (afs_start m s w)
  then show ?case
    by (auto simp: AsyncFuncScheduler_init_def afs_inv_def served_def split: if_splits)
next
  case (afs_add st alloc f)
  then show ?case by (intro AsyncFuncScheduler_add_inv)
next
  case (afs_run st)
  obtain s h w where st: "st = (s, h, w)" by (metis prod_cases3)
  obtain c s' h' w' where "AsyncFuncScheduler_run exec (s, h, w) = (c, (s', h', w'))"
    by (metis prod_cases4)
  with AsyncFuncScheduler_run_inv [OF assms _ this] afs_run(2) st show ?case by simp
next
  case (afs_world s h w w')
  then show ?case by (simp add: afs_inv_def)
qed


text \<open>For the witness: a function \<open>True\<close> that registers \<open>False\<close>, which does nothing.\<close>

definition exec_bool :: "bool \<Rightarrow> (bool, unit) afs_state step" where
  "exec_bool f st = (OK, if f then snd (AsyncFuncScheduler_add True False st) else st)"

lemma exec_bool_ok: "func_ok exec_bool"
  by (auto simp: func_ok_def exec_bool_def AsyncFuncScheduler_add_extends afs_extends_refl)


end
