(* ===== verification/Floats.thy ===== *)
theory Floats
  imports Complex_Main Prelude
begin

text \<open>
  IEEE 754 numbers, which the sensors compute with. A finite number is the rational it denotes, and an
  operation is the exact operation followed by \<open>fl p q\<close>, rounding to the nearest number with \<open>p\<close>
  significant bits that is a multiple of \<open>2 ^ - q\<close>, ties to even: \<open>float32\<close> for \<^verbatim>\<open>float\<close> and
  \<open>float64\<close> for \<^verbatim>\<open>double\<close>. Overflow to infinity is left out: the results of the sensors are
  small. The lemmas give what rounded computations keep: order and small integers.
  At the end, \<^verbatim>\<open>MathOps::round_floor\<close> (ocs_algo/math_ops.cpp).
\<close>

section \<open>Rounding\<close>

definition round_even :: "rat \<Rightarrow> int" where
  "round_even x =
     (let n = \<lfloor>x\<rfloor>; d = x - of_int n
      in if d < 1 / 2 then n else if d > 1 / 2 then n + 1 else if even n then n else n + 1)"

fun nbits :: "nat \<Rightarrow> nat" where
  "nbits n = (if n = 0 then 0 else Suc (nbits (n div 2)))"

declare nbits.simps [simp del]

definition fl_pos :: "nat \<Rightarrow> nat \<Rightarrow> rat \<Rightarrow> rat" where
  "fl_pos p q x =
     (let m = x * 2 ^ q; s = nbits (nat \<lfloor>m\<rfloor>) - p
      in of_int (round_even (m / 2 ^ s)) * 2 ^ s / 2 ^ q)"

definition fl :: "nat \<Rightarrow> nat \<Rightarrow> rat \<Rightarrow> rat" where
  "fl p q x = (if x < 0 then - fl_pos p q (- x) else fl_pos p q x)"

abbreviation float32 :: "rat \<Rightarrow> rat" where "float32 \<equiv> fl 24 149"
abbreviation float64 :: "rat \<Rightarrow> rat" where "float64 \<equiv> fl 53 1074"

lemma round_even_bounds: "\<lfloor>x\<rfloor> \<le> round_even x" "round_even x \<le> \<lfloor>x\<rfloor> + 1"
  by (simp_all add: round_even_def Let_def)

lemma round_even_of_int [simp]: "round_even (of_int n) = n"
  by (simp add: round_even_def)

lemma round_even_mono:
  assumes "x \<le> y" shows "round_even x \<le> round_even y"
proof (cases "\<lfloor>x\<rfloor> = \<lfloor>y\<rfloor>")
  case True
  with assms show ?thesis by (auto simp: round_even_def Let_def)
next
  case False
  with floor_mono [OF assms] have "\<lfloor>x\<rfloor> + 1 \<le> \<lfloor>y\<rfloor>" by linarith
  then show ?thesis using round_even_bounds(2) [of x] round_even_bounds(1) [of y] by linarith
qed

lemma nbits_0 [simp]: "nbits 0 = 0"
  by (subst nbits.simps) simp

lemma nbits_less_iff: "nbits n \<le> k \<longleftrightarrow> n < 2 ^ k"
proof (induction n arbitrary: k rule: nbits.induct)
  case (1 n)
  show ?case
  proof (cases "n = 0")
    case True
    then show ?thesis by simp
  next
    case False
    show ?thesis
    proof (cases k)
      case 0
      with False show ?thesis by (subst nbits.simps) simp
    next
      case (Suc j)
      have "nbits n \<le> k \<longleftrightarrow> n div 2 < 2 ^ j"
        using 1 [OF False, of j] False Suc by (subst nbits.simps) simp
      also have "\<dots> \<longleftrightarrow> n < 2 ^ k" using Suc by auto
      finally show ?thesis .
    qed
  qed
qed

lemma nbits_mono: "m \<le> n \<Longrightarrow> nbits m \<le> nbits n"
  using nbits_less_iff [of m "nbits n"] nbits_less_iff [of n "nbits n"] by simp

text \<open>The rounding of an integer multiple of the quantum, in units of the quantum.\<close>

definition fl_units :: "nat \<Rightarrow> rat \<Rightarrow> rat" where
  "fl_units p m = (let s = nbits (nat \<lfloor>m\<rfloor>) - p in of_int (round_even (m / 2 ^ s)) * 2 ^ s)"

lemma fl_pos_units: "fl_pos p q x = fl_units p (x * 2 ^ q) / 2 ^ q"
  by (simp add: fl_pos_def fl_units_def Let_def)

lemma fl_units_mono:
  assumes "0 \<le> m" and "m \<le> n" and "0 < p"
  shows "fl_units p m \<le> fl_units p n"
proof -
  define s where "s = nbits (nat \<lfloor>m\<rfloor>) - p"
  define t where "t = nbits (nat \<lfloor>n\<rfloor>) - p"
  have le: "nat \<lfloor>m\<rfloor> \<le> nat \<lfloor>n\<rfloor>" using assms(2) by (intro nat_mono floor_mono)
  then have st: "s \<le> t" unfolding s_def t_def using nbits_mono by (metis diff_le_mono)
  have u: "fl_units p m = of_int (round_even (m / 2 ^ s)) * 2 ^ s"
    "fl_units p n = of_int (round_even (n / 2 ^ t)) * 2 ^ t"
    by (simp_all add: fl_units_def s_def t_def Let_def)
  show ?thesis
  proof (cases "s = t")
    case True
    have "round_even (m / 2 ^ t) \<le> round_even (n / 2 ^ t)"
      using assms(2) by (intro round_even_mono divide_right_mono) simp_all
    then show ?thesis unfolding u True by (simp add: mult_right_mono)
  next
    case False
    with st have lt: "s < t" by simp
    define k where "k = p + t - 1"
    have tn: "nbits (nat \<lfloor>n\<rfloor>) = p + t" using lt unfolding t_def by simp
    have "2 ^ k \<le> nat \<lfloor>n\<rfloor>"
      using nbits_less_iff [of "nat \<lfloor>n\<rfloor>" k] tn assms(3) unfolding k_def by linarith
    then have "(2 :: int) ^ k \<le> \<lfloor>n\<rfloor>" by (simp add: le_nat_iff)
    then have nk: "(2 :: rat) ^ k \<le> n" by (simp add: le_floor_iff)
    have "nbits (nat \<lfloor>m\<rfloor>) \<le> k" using lt unfolding s_def k_def by simp
    then have "nat \<lfloor>m\<rfloor> < 2 ^ k" by (simp add: nbits_less_iff)
    then have "\<lfloor>m\<rfloor> < 2 ^ k" by (simp add: nat_less_iff assms(1))
    then have mk: "m < 2 ^ k" by (simp add: floor_less_iff)
    have ks: "k = s + (k - s)" "k = t + (k - t)" using lt assms(3) unfolding k_def by simp_all
    have "m / 2 ^ s \<le> of_int (2 ^ (k - s))"
      using mk ks(1) by (simp add: divide_le_eq power_add [symmetric] less_imp_le)
    from round_even_mono [OF this] have "round_even (m / 2 ^ s) \<le> 2 ^ (k - s)"
      by (simp only: round_even_of_int)
    then have "of_int (round_even (m / 2 ^ s)) * (2 :: rat) ^ s \<le> of_int (2 ^ (k - s)) * 2 ^ s"
      by (intro mult_right_mono) (simp_all only: of_int_le_iff, simp)
    also have "\<dots> = 2 ^ k" using ks(1) by (simp add: power_add [symmetric])
    finally have a: "fl_units p m \<le> 2 ^ k" unfolding u .
    have "of_int (2 ^ (k - t)) \<le> n / 2 ^ t"
      using nk ks(2) by (simp add: le_divide_eq power_add [symmetric])
    from round_even_mono [OF this] have "2 ^ (k - t) \<le> round_even (n / 2 ^ t)"
      by (simp only: round_even_of_int)
    then have "of_int (2 ^ (k - t)) * (2 :: rat) ^ t \<le> of_int (round_even (n / 2 ^ t)) * 2 ^ t"
      by (intro mult_right_mono) (simp_all only: of_int_le_iff, simp)
    moreover have "of_int (2 ^ (k - t)) * (2 :: rat) ^ t = 2 ^ k"
      using ks(2) by (simp add: power_add [symmetric])
    ultimately have "2 ^ k \<le> fl_units p n" unfolding u by (simp only:)
    with a show ?thesis by (rule order_trans)
  qed
qed

lemma fl_units_int:
  assumes "n < 2 ^ p"
  shows "fl_units p (of_nat n * 2 ^ k) = of_nat n * 2 ^ k"
proof -
  define s where "s = nbits (n * 2 ^ k) - p"
  have f: "nat \<lfloor>(of_nat n * 2 ^ k :: rat)\<rfloor> = n * 2 ^ k"
    using floor_of_nat [of "n * 2 ^ k", where 'a = rat]
    by (simp add: nat_mult_distrib nat_power_eq)
  have "n * 2 ^ k < 2 ^ (p + k)" using assms by (simp add: power_add)
  then have "nbits (n * 2 ^ k) \<le> p + k" by (simp add: nbits_less_iff)
  then have sk: "s \<le> k" unfolding s_def by simp
  then have e: "(2 :: rat) ^ k = 2 ^ (k - s) * 2 ^ s" by (simp add: power_add [symmetric])
  have "(of_nat n * 2 ^ k :: rat) / 2 ^ s = of_int (int n * 2 ^ (k - s))"
    unfolding e by simp
  then have "round_even ((of_nat n * 2 ^ k :: rat) / 2 ^ s) = int n * 2 ^ (k - s)"
    by (simp only: round_even_of_int)
  then show ?thesis unfolding fl_units_def f Let_def s_def [symmetric] using e by simp
qed

subsection \<open>What rounding keeps\<close>

named_theorems fl_facts

lemma fl_0 [simp, fl_facts]: "fl p q 0 = 0"
  using fl_units_int [of 0 p q] by (simp add: fl_def fl_pos_units)

lemma fl_nonneg:
  assumes "0 \<le> x" and "0 < p" shows "0 \<le> fl p q x"
  using fl_units_mono [of 0 "x * 2 ^ q" p] assms fl_units_int [of 0 p q]
  by (simp add: fl_def fl_pos_units)

lemma fl_mono:
  assumes "x \<le> y" and "0 < p" shows "fl p q x \<le> fl p q y"
proof (cases "0 \<le> x")
  case True
  then show ?thesis using assms fl_units_mono [of "x * 2 ^ q" "y * 2 ^ q" p]
    by (simp add: fl_def fl_pos_units divide_right_mono)
next
  case neg: False
  show ?thesis
  proof (cases "0 \<le> y")
    case True
    have "0 \<le> fl p q (- x)" using neg assms(2) by (intro fl_nonneg) simp_all
    moreover have "fl p q x = - fl p q (- x)" using neg by (simp add: fl_def)
    ultimately show ?thesis using fl_nonneg [OF True assms(2), of q] by linarith
  next
    case False
    then have "0 \<le> - y * 2 ^ q" by (simp add: mult_nonpos_nonneg)
    moreover have "- y * 2 ^ q \<le> - x * 2 ^ q" using assms(1) by (intro mult_right_mono) simp_all
    ultimately have "fl_units p (- y * 2 ^ q) \<le> fl_units p (- x * 2 ^ q)"
      using assms(2) by (intro fl_units_mono)
    then show ?thesis using neg False by (simp add: fl_def fl_pos_units divide_right_mono)
  qed
qed

lemma fl_nat: "n < 2 ^ p \<Longrightarrow> fl p q (of_nat n) = of_nat n"
  using fl_units_int [of n p q] by (simp add: fl_def fl_pos_units)

lemma fl_int:
  assumes "\<bar>n\<bar> < 2 ^ p" shows "fl p q (of_int n) = of_int n"
proof (cases "0 \<le> n")
  case True
  then obtain k where "n = int k" by (metis nonneg_int_cases)
  then show ?thesis using fl_nat [of k p q] assms by simp
next
  case False
  then have "n = - int (nat (- n))" by simp
  then obtain k where k: "n = - int k" by blast
  with False have "0 < k" by simp
  with k show ?thesis using fl_nat [of k p q] assms
    by (simp add: fl_def fl_pos_units)
qed

section \<open>MathOps::round_floor\<close>

text \<open>The power of ten is exact for the numbers of places in use.\<close>

definition MathOps_round_floor :: "rat \<Rightarrow> nat \<Rightarrow> rat" where
  "MathOps_round_floor v places =
     (let multiplier = float64 (10 ^ places)
      in float64 (of_int \<lfloor>float64 (v * multiplier)\<rfloor> / multiplier))"

lemma MathOps_round_floor_mono:
  assumes "x \<le> y" shows "MathOps_round_floor x places \<le> MathOps_round_floor y places"
proof -
  have m: "0 \<le> float64 (10 ^ places)" by (rule fl_nonneg) simp_all
  show ?thesis unfolding MathOps_round_floor_def Let_def
    using assms m
    by (intro fl_mono divide_right_mono) (simp_all add: floor_mono fl_mono mult_right_mono)
qed

lemma MathOps_round_floor_int:
  assumes "\<bar>n * 10 ^ places\<bar> < 2 ^ 53" and "10 ^ places < (2 :: int) ^ 53" and "\<bar>n\<bar> < 2 ^ 53"
  shows "MathOps_round_floor (of_int n) places = of_int n"
proof -
  have t: "float64 (10 ^ places) = 10 ^ places"
    using fl_int [of "10 ^ places" 53 1074] assms(2) by simp
  have "float64 (of_int (n * 10 ^ places)) = of_int (n * 10 ^ places)"
    by (rule fl_int) (use assms in simp)
  then have "float64 (of_int n * 10 ^ places) = of_int (n * 10 ^ places)" by simp
  then show ?thesis
    unfolding MathOps_round_floor_def Let_def t floor_of_int
    using fl_int [OF assms(3), of 1074] by simp
qed

end
