(* ===== verification/OneWire.thy ===== *)
theory OneWire
  imports Algo
begin

text \<open>
  \<open>components/ocs_onewire\<close>: the 1-Wire bus driven through one GPIO (bus.cpp), the ROM codes of
  the devices (rom_code.cpp, crc.cpp), and their textual form (serial_number_to_str.cpp). The GPIO and
  the delayer are used through their interfaces.
\<close>

section \<open>Pins and delays\<close>

datatype Direction = Output | Input

record 'w IGpio =
  gp_get :: "'w \<Rightarrow> int \<times> 'w"
  gp_flip :: "'w step"
  gp_turn_on :: "'w step"
  gp_turn_off :: "'w step"
  gp_set_direction :: "Direction \<Rightarrow> 'w step"

type_synonym 'w IDelayer = "time \<Rightarrow> 'w step"

section \<open>Bus\<close>

record BusParams =
  bp_reset_pulse_interval :: time
  bp_presence_pulse_interval :: time
  bp_write_slot_interval :: time
  bp_write_bit_interval :: time
  bp_write_recovery_interval :: time
  bp_read_slot_interval :: time
  bp_read_bit_init_interval :: time
  bp_read_bit_rc_interval :: time
  bp_read_recovery_interval :: time

record Bus =
  bus_params :: BusParams
  bus_reset_remain_time_slot :: time
  bus_write_remain_time_slot :: time
  bus_read_remain_time_slot :: time

definition Bus_init :: "BusParams \<Rightarrow> Bus checked" where
  "Bus_init p =
     (if bp_reset_pulse_interval p = 0 \<or> bp_presence_pulse_interval p = 0 then Inl AssertFailed
      else
        let reset_remain = bp_reset_pulse_interval p - bp_presence_pulse_interval p
        in if \<not> 0 \<le> reset_remain then Inl AssertFailed
           else if bp_write_slot_interval p = 0 \<or> bp_write_bit_interval p = 0
             \<or> bp_write_recovery_interval p = 0 then Inl AssertFailed
           else
             let write_remain = bp_write_slot_interval p - bp_write_bit_interval p
             in if \<not> 0 \<le> write_remain then Inl AssertFailed
                else if bp_read_slot_interval p = 0 \<or> bp_read_bit_init_interval p = 0
                  \<or> bp_read_bit_rc_interval p = 0 \<or> bp_read_recovery_interval p = 0
                then Inl AssertFailed
                else
                  let read_remain = bp_read_slot_interval p - bp_read_bit_init_interval p
                        - bp_read_bit_rc_interval p
                  in if \<not> 0 \<le> read_remain then Inl AssertFailed
                     else Inr \<lparr>bus_params = p, bus_reset_remain_time_slot = reset_remain,
                               bus_write_remain_time_slot = write_remain,
                               bus_read_remain_time_slot = read_remain\<rparr>)"

definition Bus_reset :: "'w IDelayer \<Rightarrow> 'w IGpio \<Rightarrow> Bus \<Rightarrow> 'w step" where
  "Bus_reset delay gpio b =
     and_then
       (run_steps
         [gp_set_direction gpio Output,
          gp_turn_off gpio, delay (bp_reset_pulse_interval (bus_params b)),
          gp_turn_on gpio, delay (bp_presence_pulse_interval (bus_params b)),
          gp_set_direction gpio Input])
       (\<lambda>w. case gp_get gpio w of
          (level, w1) \<Rightarrow>
            and_then (delay (bus_reset_remain_time_slot b))
              (\<lambda>w2. (if level = 0 then OK else Error, w2)) w1)"

definition Bus_write_bit_one :: "'w IDelayer \<Rightarrow> 'w IGpio \<Rightarrow> Bus \<Rightarrow> 'w step" where
  "Bus_write_bit_one delay gpio b =
     run_steps
       [gp_set_direction gpio Output,
        gp_turn_off gpio, delay (bp_write_bit_interval (bus_params b)),
        gp_turn_on gpio, delay (bus_write_remain_time_slot b),
        delay (bp_write_recovery_interval (bus_params b))]"

definition Bus_write_bit_zero :: "'w IDelayer \<Rightarrow> 'w IGpio \<Rightarrow> Bus \<Rightarrow> 'w step" where
  "Bus_write_bit_zero delay gpio b =
     run_steps
       [gp_set_direction gpio Output,
        gp_turn_off gpio, delay (bp_write_slot_interval (bus_params b)),
        gp_turn_on gpio,
        delay (bp_write_recovery_interval (bus_params b))]"

definition Bus_write_bit :: "'w IDelayer \<Rightarrow> 'w IGpio \<Rightarrow> Bus \<Rightarrow> u8 \<Rightarrow> 'w step" where
  "Bus_write_bit delay gpio b v =
     (if v \<noteq> 0 then Bus_write_bit_one delay gpio b else Bus_write_bit_zero delay gpio b)"

text \<open>The variable the bit is read into is passed in and returned.\<close>

definition Bus_read_bit ::
    "'w IDelayer \<Rightarrow> 'w IGpio \<Rightarrow> Bus \<Rightarrow> u8 \<Rightarrow> 'w \<Rightarrow> status_code \<times> u8 \<times> 'w" where
  "Bus_read_bit delay gpio b v w =
     (case run_steps
         [gp_set_direction gpio Output,
          gp_turn_off gpio, delay (bp_read_bit_init_interval (bus_params b)),
          gp_turn_on gpio, delay (bp_read_bit_rc_interval (bus_params b)),
          gp_set_direction gpio Input] w of
        (code, w1) \<Rightarrow>
          if code \<noteq> OK then (code, v, w1)
          else (case gp_get gpio w1 of
                  (level, w2) \<Rightarrow>
                    (case run_steps
                        [delay (bus_read_remain_time_slot b),
                         delay (bp_read_recovery_interval (bus_params b))] w2 of
                       (code, w3) \<Rightarrow> (code, word_of_int level, w3))))"

text \<open>
  The bytes are built from the three operations above. \<open>'w wire\<close> packs them, so that what is built
  on the bus is stated for any bus.
\<close>

record 'w wire =
  wr_reset :: "'w step"
  wr_write_bit :: "u8 \<Rightarrow> 'w step"
  wr_read_bit :: "u8 \<Rightarrow> 'w \<Rightarrow> status_code \<times> u8 \<times> 'w"

definition Bus_wire :: "'w IDelayer \<Rightarrow> 'w IGpio \<Rightarrow> Bus \<Rightarrow> 'w wire" where
  "Bus_wire delay gpio b =
     \<lparr>wr_reset = Bus_reset delay gpio b, wr_write_bit = Bus_write_bit delay gpio b,
      wr_read_bit = Bus_read_bit delay gpio b\<rparr>"

fun Bus_write_bits :: "'w wire \<Rightarrow> nat \<Rightarrow> u8 \<Rightarrow> 'w step" where
  "Bus_write_bits wire 0 byte w = (OK, w)"
| "Bus_write_bits wire (Suc n) byte w =
     and_then (wr_write_bit wire (byte mod 2)) (Bus_write_bits wire n (byte div 2)) w"

definition Bus_write_byte :: "'w wire \<Rightarrow> u8 \<Rightarrow> 'w step" where
  "Bus_write_byte wire byte = Bus_write_bits wire 8 byte"

text \<open>\<open>byte |= mask(n)\<close> and \<open>byte &= umask(n)\<close>, computed in \<^verbatim>\<open>unsigned\<close>.\<close>

definition store_bit :: "u8 \<Rightarrow> nat \<Rightarrow> bool \<Rightarrow> u8" where
  "store_bit byte n v =
     (if v then ucast ((ucast byte :: u32) OR BitOps_mask (of_nat n))
      else ucast ((ucast byte :: u32) AND BitOps_umask (of_nat n)))"

fun Bus_read_bits :: "'w wire \<Rightarrow> nat list \<Rightarrow> u8 \<Rightarrow> 'w \<Rightarrow> status_code \<times> u8 \<times> 'w" where
  "Bus_read_bits wire [] byte w = (OK, byte, w)"
| "Bus_read_bits wire (n # ns) byte w =
     (case wr_read_bit wire 0 w of
        (code, v, w1) \<Rightarrow>
          if code \<noteq> OK then (code, byte, w1)
          else Bus_read_bits wire ns (store_bit byte n (v \<noteq> 0)) w1)"

definition Bus_read_byte :: "'w wire \<Rightarrow> u8 \<Rightarrow> 'w \<Rightarrow> status_code \<times> u8 \<times> 'w" where
  "Bus_read_byte wire byte w = Bus_read_bits wire [0..<8] byte w"

fun Bus_read_bytes_loop :: "'w wire \<Rightarrow> bytes \<Rightarrow> 'w \<Rightarrow> status_code \<times> bytes \<times> 'w" where
  "Bus_read_bytes_loop wire [] w = (OK, [], w)"
| "Bus_read_bytes_loop wire (b # buf) w =
     (case Bus_read_byte wire b w of
        (code, b', w1) \<Rightarrow>
          if code \<noteq> OK then (code, b' # buf, w1)
          else (case Bus_read_bytes_loop wire buf w1 of
                  (code, buf', w2) \<Rightarrow> (code, b' # buf', w2)))"

text \<open>A null pointer is \<open>None\<close>.\<close>

definition Bus_read_bytes :: "'w wire \<Rightarrow> bytes option \<Rightarrow> 'w \<Rightarrow> status_code \<times> bytes option \<times> 'w" where
  "Bus_read_bytes wire buf w =
     (case buf of
        None \<Rightarrow> (InvalidArg, None, w)
      | Some bs \<Rightarrow>
          if bs = [] then (InvalidArg, buf, w)
          else (case Bus_read_bytes_loop wire bs w of (code, bs', w') \<Rightarrow> (code, Some bs', w')))"

definition Bus_write_bytes :: "'w wire \<Rightarrow> bytes option \<Rightarrow> 'w step" where
  "Bus_write_bytes wire buf w =
     (case buf of
        None \<Rightarrow> (InvalidArg, w)
      | Some bs \<Rightarrow>
          if bs = [] then (InvalidArg, w)
          else run_steps (map (Bus_write_byte wire) bs) w)"

section \<open>ROM codes\<close>

definition calculate_crc :: "bytes \<Rightarrow> u8" where
  "calculate_crc buf = crc8 buf 0x00 0x8C LSB"

record RomCode =
  rc_family_code :: u8
  rc_serial_number :: bytes
  rc_crc :: u8

definition RomCode_init :: RomCode where
  "RomCode_init = \<lparr>rc_family_code = 0, rc_serial_number = replicate 6 0, rc_crc = 0\<rparr>"

definition SearchRom :: u8 where "SearchRom = 0xF0"
definition ReadRom :: u8 where "ReadRom = 0x33"
definition MatchRom :: u8 where "MatchRom = 0x55"
definition SkipRom :: u8 where "SkipRom = 0xCC"

text \<open>The packed structure as its 8 bytes.\<close>

definition RomCode_bytes :: "RomCode \<Rightarrow> bytes" where
  "RomCode_bytes rc = rc_family_code rc # rc_serial_number rc @ [rc_crc rc]"

definition RomCode_of_bytes :: "bytes \<Rightarrow> RomCode" where
  "RomCode_of_bytes bs =
     \<lparr>rc_family_code = bs ! 0, rc_serial_number = take 6 (drop 1 bs), rc_crc = bs ! 7\<rparr>"

definition RomCode_valid :: "RomCode \<Rightarrow> bool" where
  "RomCode_valid rc \<longleftrightarrow> calculate_crc (take 7 (RomCode_bytes rc)) = rc_crc rc"

definition RomCode_match :: "'w wire \<Rightarrow> RomCode \<Rightarrow> 'w step" where
  "RomCode_match wire rc =
     run_steps [wr_reset wire, Bus_write_byte wire MatchRom,
                Bus_write_bytes wire (Some (RomCode_bytes rc))]"

definition RomCode_read :: "'w wire \<Rightarrow> RomCode \<Rightarrow> 'w \<Rightarrow> status_code \<times> RomCode \<times> 'w" where
  "RomCode_read wire rc w =
     (case run_steps [wr_reset wire, Bus_write_byte wire ReadRom] w of
        (code, w1) \<Rightarrow>
          if code \<noteq> OK then (code, rc, w1)
          else (case Bus_read_bytes wire (Some (RomCode_bytes rc)) w1 of
                  (code, bs, w2) \<Rightarrow> (code, RomCode_of_bytes (the bs), w2)))"

text \<open>\<^verbatim>\<open>"%02X:..."\<close> of the six bytes.\<close>

definition hex_digit :: "nat \<Rightarrow> char" where
  "hex_digit d = ''0123456789ABCDEF'' ! d"

definition hex2 :: "u8 \<Rightarrow> string" where
  "hex2 b = [hex_digit (unat b div 16), hex_digit (unat b mod 16)]"

definition serial_number_to_str :: "bytes \<Rightarrow> string" where
  "serial_number_to_str sn =
     hex2 (sn ! 0) @ '':'' @ hex2 (sn ! 1) @ '':'' @ hex2 (sn ! 2) @ '':'' @
     hex2 (sn ! 3) @ '':'' @ hex2 (sn ! 4) @ '':'' @ hex2 (sn ! 5)"

section \<open>Bits of bytes\<close>

lemma ucast_bit_u8 [simp]: "bit (ucast (b :: u8) :: u32) n \<longleftrightarrow> bit b n"
  by (auto simp: bit_ucast_iff dest: bit_imp_le_length)

lemma bit_store_bit:
  assumes "n < 8"
  shows "bit (store_bit byte n v) m \<longleftrightarrow> (if m = n then v else bit byte m)"
proof -
  have u: "unat (of_nat n :: u8) = n" using assms by (simp add: unat_of_nat)
  show ?thesis
    using assms
    by (auto simp: store_bit_def bit_ucast_iff bit_or_iff bit_and_iff bit_BitOps_mask
        bit_BitOps_umask u dest: bit_imp_le_length)
qed

lemma u8_eqI: "(\<And>n. n < 8 \<Longrightarrow> bit (a :: u8) n = bit b n) \<Longrightarrow> a = b"
  by (rule bit_word_eqI) simp

text \<open>What a byte puts on the bus: its bits, least significant first.\<close>

definition byte_bits :: "u8 \<Rightarrow> bool list" where
  "byte_bits b = map (bit b) [0..<8]"

definition bytes_bits :: "bytes \<Rightarrow> bool list" where
  "bytes_bits bs = concat (map byte_bits bs)"

lemma length_byte_bits [simp]: "length (byte_bits b) = 8"
  by (simp add: byte_bits_def)

lemma mod2_bit: "((b :: u8) mod 2 \<noteq> 0) = bit b 0"
  by (simp add: bit_0 odd_iff_mod_2_eq_one)

lemma div2_bit: "bit ((b :: u8) div 2) n \<longleftrightarrow> bit b (Suc n)"
  by (simp add: bit_Suc)

lemma map_upt_Suc: "map f [0..<Suc n] = f 0 # map (\<lambda>i. f (Suc i)) [0..<n]"
  by (simp only: upt_rec [of 0 "Suc n"] map_Suc_upt [symmetric] list.map list.map_comp comp_def)
    simp

subsection \<open>Transfer of bytes\<close>

text \<open>
  A line that works: \<open>out\<close> is what was written to it, \<open>inp\<close> what the devices will send.
\<close>

definition bit_line :: "'w wire \<Rightarrow> ('w \<Rightarrow> bool list) \<Rightarrow> ('w \<Rightarrow> bool list) \<Rightarrow> bool" where
  "bit_line wire out inp \<longleftrightarrow>
     (\<forall>v w. \<exists>w'. wr_write_bit wire v w = (OK, w') \<and> out w' = out w @ [v \<noteq> 0] \<and> inp w' = inp w)
   \<and> (\<forall>v w b bs. inp w = b # bs \<longrightarrow>
        (\<exists>w'. wr_read_bit wire v w = (OK, (if b then 1 else 0), w') \<and> inp w' = bs \<and> out w' = out w))"

lemma Bus_write_bits_out:
  assumes "bit_line wire out inp"
  shows "\<exists>w'. Bus_write_bits wire n b w = (OK, w') \<and> out w' = out w @ map (bit b) [0..<n]
    \<and> inp w' = inp w"
proof (induction n arbitrary: b w)
  case 0
  then show ?case by simp
next
  case (Suc n)
  obtain w1 where w1: "wr_write_bit wire (b mod 2) w = (OK, w1)" "out w1 = out w @ [bit b 0]"
    "inp w1 = inp w"
    using assms unfolding bit_line_def mod2_bit [symmetric] by meson
  obtain w2 where "Bus_write_bits wire n (b div 2) w1 = (OK, w2)"
    "out w2 = out w1 @ map (bit (b div 2)) [0..<n]" "inp w2 = inp w1"
    using Suc by blast
  then show ?case using w1 unfolding map_upt_Suc by (simp add: div2_bit cong: map_cong)
qed

lemma Bus_write_byte_out:
  assumes "bit_line wire out inp"
  shows "\<exists>w'. Bus_write_byte wire b w = (OK, w') \<and> out w' = out w @ byte_bits b \<and> inp w' = inp w"
  using Bus_write_bits_out [OF assms, of 8 b w] by (simp add: Bus_write_byte_def byte_bits_def)

lemma Bus_write_bytes_out:
  assumes "bit_line wire out inp"
  shows "\<exists>w'. run_steps (map (Bus_write_byte wire) bs) w = (OK, w')
    \<and> out w' = out w @ bytes_bits bs \<and> inp w' = inp w"
proof (induction bs arbitrary: w)
  case Nil
  then show ?case by (simp add: bytes_bits_def)
next
  case (Cons b bs)
  obtain w1 where w1: "Bus_write_byte wire b w = (OK, w1)" "out w1 = out w @ byte_bits b"
    "inp w1 = inp w"
    using Bus_write_byte_out [OF assms] by blast
  obtain w2 where "run_steps (map (Bus_write_byte wire) bs) w1 = (OK, w2)"
    "out w2 = out w1 @ bytes_bits bs" "inp w2 = inp w1"
    using Cons by blast
  with w1 show ?case by (simp add: bytes_bits_def)
qed

lemma Bus_read_bits_in:
  assumes "bit_line wire out inp" and "inp w = map (bit b) [n..<8] @ rest" and "n \<le> 8"
    and "\<forall>m < n. bit v m = bit b m"
  shows "\<exists>w'. Bus_read_bits wire [n..<8] v w = (OK, b, w') \<and> inp w' = rest \<and> out w' = out w"
  using assms(2-)
proof (induction "8 - n" arbitrary: n v w)
  case 0
  then have "n = 8" by simp
  with 0 have "v = b" by (intro u8_eqI) simp
  with 0 \<open>n = 8\<close> show ?case by simp
next
  case (Suc k)
  then have n: "n < 8" by simp
  then have u: "[n..<8] = n # [Suc n..<8]" by (rule upt_conv_Cons)
  obtain w1 where w1: "wr_read_bit wire 0 w = (OK, (if bit b n then 1 else 0), w1)"
    "inp w1 = map (bit b) [Suc n..<8] @ rest" "out w1 = out w"
    using assms(1) Suc.prems(1) u unfolding bit_line_def by (metis append_Cons list.simps(9))
  have "\<forall>m < Suc n. bit (store_bit v n (bit b n)) m = bit b m"
    using Suc.prems(3) n by (simp add: bit_store_bit less_Suc_eq)
  moreover have k: "k = 8 - Suc n" and n': "Suc n \<le> 8" using Suc.hyps(2) n by simp_all
  ultimately obtain w2 where "Bus_read_bits wire [Suc n..<8] (store_bit v n (bit b n)) w1 = (OK, b, w2)"
    "inp w2 = rest" "out w2 = out w1"
    using Suc.hyps(1) [OF k w1(2) n'] w1(3) by blast
  with w1 u show ?case by (cases "bit b n") simp_all
qed

lemma Bus_read_bytes_in:
  assumes "bit_line wire out inp" and "inp w = bytes_bits bs @ rest" and "length buf = length bs"
  shows "\<exists>w'. Bus_read_bytes_loop wire buf w = (OK, bs, w') \<and> inp w' = rest \<and> out w' = out w"
  using assms(2,3)
proof (induction bs arbitrary: buf w)
  case Nil
  then show ?case by (simp add: bytes_bits_def)
next
  case (Cons b bs)
  then obtain v vs where buf: "buf = v # vs" "length vs = length bs" by (cases buf) auto
  have "inp w = map (bit b) [0..<8] @ bytes_bits bs @ rest"
    using Cons.prems(1) by (simp add: bytes_bits_def byte_bits_def)
  from Bus_read_bits_in [OF assms(1) this, of v] obtain w1 where w1:
    "Bus_read_byte wire v w = (OK, b, w1)" "inp w1 = bytes_bits bs @ rest" "out w1 = out w"
    by (auto simp: Bus_read_byte_def)
  obtain w2 where "Bus_read_bytes_loop wire vs w1 = (OK, bs, w2)" "inp w2 = rest" "out w2 = out w1"
    using Cons.IH [OF w1(2) buf(2)] by blast
  with w1 buf show ?case by simp
qed

text \<open>
  C30. Bytes travel least significant bit first in both directions: writing a buffer puts the bits of its
  bytes on the line in that order, and reading into a buffer of the right size returns the bytes whose
  bits the devices sent, whatever the buffer held.
\<close>

theorem Bus_bytes_transfer:
  assumes "bit_line wire out inp" and "inp w = bytes_bits rd @ rest"
    and "wrt \<noteq> []" and "rd \<noteq> []" and "length buf = length rd"
  shows "\<exists>w1 w2. Bus_write_bytes wire (Some wrt) w = (OK, w1)
    \<and> out w1 = out w @ bytes_bits wrt
    \<and> Bus_read_bytes wire (Some buf) w1 = (OK, Some rd, w2) \<and> inp w2 = rest \<and> out w2 = out w1"
proof -
  obtain w1 where w1: "run_steps (map (Bus_write_byte wire) wrt) w = (OK, w1)"
    "out w1 = out w @ bytes_bits wrt" "inp w1 = inp w"
    using Bus_write_bytes_out [OF assms(1)] by blast
  with assms(2) have "inp w1 = bytes_bits rd @ rest" by simp
  from Bus_read_bytes_in [OF assms(1) this assms(5)] obtain w2 where
    "Bus_read_bytes_loop wire buf w1 = (OK, rd, w2)" "inp w2 = rest" "out w2 = out w1" by blast
  moreover have "buf \<noteq> []" using assms(4,5) by auto
  ultimately show ?thesis using w1 assms(3) by (simp add: Bus_write_bytes_def Bus_read_bytes_def)
qed

definition test_line :: "(bool list \<times> bool list) wire" where
  "test_line = \<lparr>wr_reset = (\<lambda>w. (OK, w)), wr_write_bit = (\<lambda>v (q, r). (OK, (q @ [v \<noteq> 0], r))),
     wr_read_bit = (\<lambda>v (q, r). case r of [] \<Rightarrow> (Error, v, (q, r))
        | b # bs \<Rightarrow> (OK, (if b then 1 else 0), (q, bs)))\<rparr>"

lemma test_line_ok: "bit_line test_line fst snd"
  by (auto simp: bit_line_def test_line_def split: list.splits)

theorem Bus_bytes_transfer_witness:
  "\<exists>w1 w2. Bus_write_bytes test_line (Some [0x44]) ([], byte_bits 0xA5) = (OK, w1)
     \<and> Bus_read_bytes test_line (Some [0xFF]) w1 = (OK, Some [0xA5], w2)"
  using Bus_bytes_transfer [OF test_line_ok, of "([], byte_bits 0xA5)" "[0xA5]" "[]" "[0x44]" "[0xFF]"]
  by (fastforce simp: bytes_bits_def)

subsection \<open>Time slots\<close>

text \<open>
  Only the delayer takes time, and it takes the time it is asked for; pins and delays work.
\<close>

definition timed :: "('w \<Rightarrow> time) \<Rightarrow> 'w IDelayer \<Rightarrow> 'w IGpio \<Rightarrow> bool" where
  "timed clock delay gpio \<longleftrightarrow>
     (\<forall>d w. \<exists>w'. delay d w = (OK, w') \<and> clock w' = clock w + d)
   \<and> (\<forall>dir w. \<exists>w'. gp_set_direction gpio dir w = (OK, w') \<and> clock w' = clock w)
   \<and> (\<forall>w. \<exists>w'. gp_turn_on gpio w = (OK, w') \<and> clock w' = clock w)
   \<and> (\<forall>w. \<exists>w'. gp_turn_off gpio w = (OK, w') \<and> clock w' = clock w)
   \<and> (\<forall>w. clock (snd (gp_get gpio w)) = clock w)"

text \<open>A step that succeeds and takes the time \<open>d\<close>.\<close>

definition takes :: "('w \<Rightarrow> time) \<Rightarrow> time \<Rightarrow> 'w step \<Rightarrow> bool" where
  "takes clock d m \<longleftrightarrow> (\<forall>w. \<exists>w'. m w = (OK, w') \<and> clock w' = clock w + d)"

lemma timed_takes:
  assumes "timed clock delay gpio"
  shows "takes clock d (delay d)" "takes clock 0 (gp_set_direction gpio dir)"
    "takes clock 0 (gp_turn_on gpio)" "takes clock 0 (gp_turn_off gpio)"
  using assms by (simp_all add: timed_def takes_def)

lemma takes_run_steps:
  "list_all2 (takes clock) ds ms \<Longrightarrow> takes clock (sum_list ds) (run_steps ms)"
proof (induction ms arbitrary: ds)
  case Nil
  then show ?case by (simp add: takes_def)
next
  case (Cons m ms)
  then obtain d ds' where d: "ds = d # ds'" "takes clock d m" "list_all2 (takes clock) ds' ms"
    by (cases ds) auto
  from Cons.IH [OF d(3)] have IH: "takes clock (sum_list ds') (run_steps ms)" .
  show ?case unfolding takes_def
  proof
    fix w
    obtain w1 where w1: "m w = (OK, w1)" "clock w1 = clock w + d"
      using d(2) unfolding takes_def by blast
    obtain w2 where "run_steps ms w1 = (OK, w2)" "clock w2 = clock w1 + sum_list ds'"
      using IH unfolding takes_def by blast
    with w1 d(1) show "\<exists>w'. run_steps (m # ms) w = (OK, w') \<and> clock w' = clock w + sum_list ds"
      by simp
  qed
qed

text \<open>
  The slots have the configured lengths: whatever the bit, a write takes the write slot and the
  recovery time, a read takes the read slot and the recovery time, and a reset takes twice the reset
  pulse; with the parameters the constructor accepts no delay is negative.
\<close>

theorem Bus_slot_lengths:
  assumes "timed clock delay gpio" and "Bus_init p = Inr b"
  shows "(\<forall>v w. \<exists>w'. Bus_write_bit delay gpio b v w = (OK, w')
        \<and> clock w' = clock w + bp_write_slot_interval p + bp_write_recovery_interval p)
    \<and> (\<forall>v w. \<exists>v' w'. Bus_read_bit delay gpio b v w = (OK, v', w')
        \<and> clock w' = clock w + bp_read_slot_interval p + bp_read_recovery_interval p)
    \<and> (\<forall>w. \<exists>c w'. Bus_reset delay gpio b w = (c, w')
        \<and> clock w' = clock w + 2 * bp_reset_pulse_interval p)
    \<and> 0 \<le> bus_reset_remain_time_slot b \<and> 0 \<le> bus_write_remain_time_slot b
    \<and> 0 \<le> bus_read_remain_time_slot b"
proof -
  note t = timed_takes [OF assms(1)]
  have b: "bus_params b = p"
    "bus_reset_remain_time_slot b = bp_reset_pulse_interval p - bp_presence_pulse_interval p"
    "bus_write_remain_time_slot b = bp_write_slot_interval p - bp_write_bit_interval p"
    "bus_read_remain_time_slot b
       = bp_read_slot_interval p - bp_read_bit_init_interval p - bp_read_bit_rc_interval p"
    "0 \<le> bus_reset_remain_time_slot b" "0 \<le> bus_write_remain_time_slot b"
    "0 \<le> bus_read_remain_time_slot b"
    using assms(2) by (auto simp: Bus_init_def Let_def split: if_splits)
  have one: "takes clock (bp_write_slot_interval p + bp_write_recovery_interval p)
      (Bus_write_bit_one delay gpio b)"
    using takes_run_steps [of clock "[0, 0, bp_write_bit_interval p, 0,
        bus_write_remain_time_slot b, bp_write_recovery_interval p]"] t b
    by (simp add: Bus_write_bit_one_def del: run_steps.simps)
  have zero: "takes clock (bp_write_slot_interval p + bp_write_recovery_interval p)
      (Bus_write_bit_zero delay gpio b)"
    using takes_run_steps [of clock "[0, 0, bp_write_slot_interval p, 0,
        bp_write_recovery_interval p]"] t b
    by (simp add: Bus_write_bit_zero_def del: run_steps.simps)
  have wr: "\<exists>w'. Bus_write_bit delay gpio b v w = (OK, w')
      \<and> clock w' = clock w + bp_write_slot_interval p + bp_write_recovery_interval p" for v w
  proof (cases "v = 0")
    case True
    then show ?thesis using zero by (simp add: takes_def Bus_write_bit_def add.assoc)
  next
    case False
    then show ?thesis using one by (simp add: takes_def Bus_write_bit_def add.assoc)
  qed
  have rd: "\<exists>v' w'. Bus_read_bit delay gpio b v w = (OK, v', w')
      \<and> clock w' = clock w + bp_read_slot_interval p + bp_read_recovery_interval p" for v w
  proof -
    let ?pre = "[gp_set_direction gpio Output, gp_turn_off gpio,
        delay (bp_read_bit_init_interval p), gp_turn_on gpio,
        delay (bp_read_bit_rc_interval p), gp_set_direction gpio Input]"
    let ?post = "[delay (bus_read_remain_time_slot b), delay (bp_read_recovery_interval p)]"
    have "takes clock (bp_read_bit_init_interval p + bp_read_bit_rc_interval p) (run_steps ?pre)"
      using takes_run_steps [of clock "[0, 0, bp_read_bit_init_interval p, 0,
        bp_read_bit_rc_interval p, 0]" ?pre] t by (simp del: run_steps.simps)
    then obtain w1 where w1: "run_steps ?pre w = (OK, w1)"
      "clock w1 = clock w + (bp_read_bit_init_interval p + bp_read_bit_rc_interval p)"
      unfolding takes_def by blast
    obtain level w2 where w2: "gp_get gpio w1 = (level, w2)" by fastforce
    have c2: "clock w2 = clock w1" using assms(1) w2 unfolding timed_def by (metis snd_conv)
    have "takes clock (bus_read_remain_time_slot b + bp_read_recovery_interval p) (run_steps ?post)"
      using takes_run_steps [of clock "[bus_read_remain_time_slot b,
        bp_read_recovery_interval p]" ?post] t by (simp del: run_steps.simps)
    then obtain w3 where "run_steps ?post w2 = (OK, w3)"
      "clock w3 = clock w2 + (bus_read_remain_time_slot b + bp_read_recovery_interval p)"
      unfolding takes_def by blast
    with w1 w2 c2 b show ?thesis by (simp add: Bus_read_bit_def del: run_steps.simps)
  qed
  have rs: "\<exists>c w'. Bus_reset delay gpio b w = (c, w')
      \<and> clock w' = clock w + 2 * bp_reset_pulse_interval p" for w
  proof -
    let ?pre = "[gp_set_direction gpio Output, gp_turn_off gpio,
        delay (bp_reset_pulse_interval p), gp_turn_on gpio,
        delay (bp_presence_pulse_interval p), gp_set_direction gpio Input]"
    have "takes clock (bp_reset_pulse_interval p + bp_presence_pulse_interval p) (run_steps ?pre)"
      using takes_run_steps [of clock "[0, 0, bp_reset_pulse_interval p, 0,
        bp_presence_pulse_interval p, 0]" ?pre] t by (simp del: run_steps.simps)
    then obtain w1 where w1: "run_steps ?pre w = (OK, w1)"
      "clock w1 = clock w + (bp_reset_pulse_interval p + bp_presence_pulse_interval p)"
      unfolding takes_def by blast
    obtain level w2 where w2: "gp_get gpio w1 = (level, w2)" by fastforce
    have c2: "clock w2 = clock w1" using assms(1) w2 unfolding timed_def by (metis snd_conv)
    obtain w3 where "delay (bus_reset_remain_time_slot b) w2 = (OK, w3)"
      "clock w3 = clock w2 + bus_reset_remain_time_slot b"
      using assms(1) unfolding timed_def by blast
    with w1 w2 c2 b show ?thesis by (simp add: Bus_reset_def del: run_steps.simps)
  qed
  show ?thesis by (intro conjI allI wr rd rs b(5-7))
qed

text \<open>
  A pin without a device, for the witness, and the parameters with which
  ocs_sensor/ds18b20/store.cpp creates the bus.
\<close>

definition idle_pin :: "time IGpio" where
  "idle_pin = \<lparr>gp_get = (\<lambda>w. (1, w)), gp_flip = (\<lambda>w. (OK, w)), gp_turn_on = (\<lambda>w. (OK, w)),
     gp_turn_off = (\<lambda>w. (OK, w)), gp_set_direction = (\<lambda>_ w. (OK, w))\<rparr>"

definition ds18b20_params :: BusParams where
  "ds18b20_params = \<lparr>bp_reset_pulse_interval = microsecond * 480,
     bp_presence_pulse_interval = microsecond * 60, bp_write_slot_interval = microsecond * 60,
     bp_write_bit_interval = microsecond * 10, bp_write_recovery_interval = microsecond * 1,
     bp_read_slot_interval = microsecond * 60, bp_read_bit_init_interval = microsecond * 5,
     bp_read_bit_rc_interval = microsecond * 5, bp_read_recovery_interval = microsecond * 1\<rparr>"

theorem Bus_slot_lengths_witness:
  "\<exists>w'. Bus_write_bit (\<lambda>d w. (OK, w + d)) idle_pin
     \<lparr>bus_params = ds18b20_params, bus_reset_remain_time_slot = 420,
      bus_write_remain_time_slot = 50, bus_read_remain_time_slot = 50\<rparr> 1 0 = (OK, w') \<and> w' = 61"
proof -
  let ?b = "\<lparr>bus_params = ds18b20_params, bus_reset_remain_time_slot = 420,
      bus_write_remain_time_slot = 50, bus_read_remain_time_slot = 50\<rparr>"
  have "timed (\<lambda>w. w) (\<lambda>d w. (OK, w + d)) idle_pin" by (simp add: timed_def idle_pin_def)
  moreover have "Bus_init ds18b20_params = Inr ?b" by (simp add: Bus_init_def ds18b20_params_def microsecond_def)
  ultimately show ?thesis using Bus_slot_lengths [of "\<lambda>w. w" "\<lambda>d w. (OK, w + d)" idle_pin
      ds18b20_params ?b]
    by (simp add: ds18b20_params_def microsecond_def)
qed

text \<open>
  The check of a ROM code finds a corrupted byte: a code that agrees with a valid one except for one
  byte, the checksum included, is not valid.
\<close>

theorem RomCode_valid_detects:
  assumes "RomCode_valid (RomCode_of_bytes bs)" and "length bs = 8" and "i < 8" and "b \<noteq> bs ! i"
  shows "\<not> RomCode_valid (RomCode_of_bytes (bs[i := b]))"
proof -
  have reg: "crc8_regular LSB 0x8C"
    by (simp add: crc8_regular_def bit_numeral_rec eval_nat_numeral)
  have v: "RomCode_valid (RomCode_of_bytes xs) \<longleftrightarrow> crc8 (take 7 xs) 0 0x8C LSB = xs ! 7"
    if "length xs = 8" for xs
  proof -
    obtain x0 x1 x2 x3 x4 x5 x6 x7 where "xs = [x0, x1, x2, x3, x4, x5, x6, x7]"
      using \<open>length xs = 8\<close> by (auto simp: length_Suc_conv numeral_eq_Suc)
    then show ?thesis
      by (simp add: RomCode_valid_def RomCode_of_bytes_def RomCode_bytes_def calculate_crc_def
          take_Cons' del: crc8.simps)
  qed
  show ?thesis
  proof (cases "i = 7")
    case True
    then show ?thesis using assms v [OF assms(2)] v [of "bs[i := b]"] by simp
  next
    case False
    then have i: "i < 7" using assms(3) by simp
    have "take 7 bs = take i (take 7 bs) @ bs ! i # drop (Suc i) (take 7 bs)"
      using i assms(2) id_take_nth_drop [of i "take 7 bs"] by simp
    moreover have "take 7 (bs[i := b]) = take i (take 7 bs) @ b # drop (Suc i) (take 7 bs)"
      using i assms(2) upd_conv_take_nth_drop [of i "take 7 bs" b] by (simp add: take_update_swap)
    ultimately have "crc8 (take 7 (bs[i := b])) 0 0x8C LSB \<noteq> crc8 (take 7 bs) 0 0x8C LSB"
      using crc8_byte_neq [OF reg assms(4)] by metis
    then show ?thesis using assms i v [OF assms(2)] v [of "bs[i := b]"] by simp
  qed
qed

theorem RomCode_valid_detects_witness:
  "\<not> RomCode_valid (RomCode_of_bytes [0x02, 0x1C, 0xB8, 0x01, 0x00, 0x00, 0x00, 0xA3])"
proof -
  have "RomCode_valid (RomCode_of_bytes [0x02, 0x1C, 0xB8, 0x01, 0x00, 0x00, 0x00, 0xA2])"
    by code_simp
  from RomCode_valid_detects [OF this, of 7 "0xA3"] show ?thesis by simp
qed

end
