(* ===== verification/Analog.thy ===== *)
theory Analog
  imports Floats Control OneWire
begin

text \<open>
  The analog sensors of \<open>components/ocs_sensor\<close>: the soil moisture sensor, whose status is kept in
  an \<^verbatim>\<open>FsmBlock\<close> (soil/analog_sensor.cpp), the same sensor behind a relay
  (soil/analog_relay_sensor.cpp, with the pins of ocs_io/gpio) and the light sensor (ldr/sensor.cpp).
  The converter is used through \<^verbatim>\<open>io::adc::IAdc\<close>. An \<^verbatim>\<open>int\<close> is a 32-bit
  word; where the code compares it with an \<^verbatim>\<open>unsigned\<close>, C++ compares as unsigned.
\<close>

section \<open>The converter\<close>

record 'w IAdc =
  adc_read :: "'w \<Rightarrow> (status_code \<times> u32) \<times> 'w"
  adc_convert :: "u32 \<Rightarrow> 'w \<Rightarrow> (status_code \<times> u32) \<times> 'w"

record adc_range =
  value_min :: u32
  value_max :: u32

text \<open>Conversion of a \<^verbatim>\<open>float\<close> to \<^verbatim>\<open>int\<close> drops the fraction.\<close>

definition float_to_int :: "rat \<Rightarrow> int" where
  "float_to_int x = (if x < 0 then - \<lfloor>- x\<rfloor> else \<lfloor>x\<rfloor>)"

text \<open>\<^verbatim>\<open>static_cast<float>(offset) / range\<close>\<close>

definition ratio :: "u32 \<Rightarrow> u32 \<Rightarrow> rat" where
  "ratio offset rng = float32 (float32 (of_int (sint offset)) / float32 (of_int (sint rng)))"

section \<open>Light\<close>

record LdrData =
  ldr_raw :: u32
  ldr_voltage :: u32
  ldr_lightness :: int

definition Ldr_init :: "adc_range \<Rightarrow> adc_range checked" where
  "Ldr_init params = (if value_min params < value_max params then Inr params else Inl AssertFailed)"

definition Ldr_calculate_lightness :: "adc_range \<Rightarrow> u32 \<Rightarrow> int" where
  "Ldr_calculate_lightness params raw =
     (if raw \<ge> value_max params then 100
      else if raw \<le> value_min params then 0
      else
        let rng = value_max params - value_min params;
            offset = raw - value_min params;
            lightness = ratio offset rng
        in float_to_int (float32 (100 * lightness)))"

definition Ldr_update_data :: "adc_range \<Rightarrow> u32 \<Rightarrow> u32 \<Rightarrow> LdrData" where
  "Ldr_update_data params raw voltage =
     \<lparr>ldr_raw = raw, ldr_voltage = voltage, ldr_lightness = Ldr_calculate_lightness params raw\<rparr>"

definition Ldr_run :: "'w IAdc \<Rightarrow> adc_range \<Rightarrow> (LdrData \<times> 'w) step" where
  "Ldr_run adc params dw =
     (case dw of (d, w) \<Rightarrow>
        (case adc_read adc w of
           ((code, raw), w1) \<Rightarrow>
             if code \<noteq> OK then (code, (d, w1))
             else (case adc_convert adc raw w1 of
                     ((code, voltage), w2) \<Rightarrow>
                       if code \<noteq> OK then (code, (d, w2))
                       else (OK, (Ldr_update_data params raw voltage, w2)))))"

section \<open>Soil\<close>

text \<open>
  The enumeration, and the values outside it that a persisted state can have. The block stores 16 bits.
\<close>

datatype SoilStatus =
    SoilNone | Saturated | Wet | Depletion | Dry | SoilError | SoilLast | SoilOther u16

fun state_of_status :: "SoilStatus \<Rightarrow> State" where
  "state_of_status SoilNone = 0"
| "state_of_status Saturated = 1"
| "state_of_status Wet = 2"
| "state_of_status Depletion = 3"
| "state_of_status Dry = 4"
| "state_of_status SoilError = 5"
| "state_of_status SoilLast = 6"
| "state_of_status (SoilOther s) = s"

definition status_of_state :: "State \<Rightarrow> SoilStatus" where
  "status_of_state s =
     (if s = 0 then SoilNone else if s = 1 then Saturated else if s = 2 then Wet
      else if s = 3 then Depletion else if s = 4 then Dry else if s = 5 then SoilError
      else if s = 6 then SoilLast else SoilOther s)"

definition parse_status :: "State \<Rightarrow> SoilStatus" where
  "parse_status state =
     (if state < state_of_status SoilNone \<and> state \<ge> state_of_status SoilLast then SoilNone
      else status_of_state state)"

fun soil_status_to_str :: "SoilStatus \<Rightarrow> string" where
  "soil_status_to_str Saturated = ''Saturated''"
| "soil_status_to_str Wet = ''Wet''"
| "soil_status_to_str Depletion = ''Depletion''"
| "soil_status_to_str Dry = ''Dry''"
| "soil_status_to_str SoilError = ''Error''"
| "soil_status_to_str _ = ''<none>''"

record SoilData =
  sd_raw :: u32
  sd_voltage :: u32
  sd_moisture :: int
  sd_prev_status :: SoilStatus
  sd_curr_status :: SoilStatus
  sd_prev_status_duration :: time
  sd_curr_status_duration :: time
  sd_write_count :: u64
  sd_status_len :: u16
  sd_status_pos :: int

record AnalogSensor =
  as_params :: adc_range
  as_status_len :: u16
  as_data :: SoilData

definition SoilData_zero :: SoilData where
  "SoilData_zero = \<lparr>sd_raw = 0, sd_voltage = 0, sd_moisture = 0, sd_prev_status = SoilNone,
     sd_curr_status = SoilNone, sd_prev_status_duration = 0, sd_curr_status_duration = 0,
     sd_write_count = 0, sd_status_len = 0, sd_status_pos = 0\<rparr>"

definition AnalogSensor_init :: "adc_range \<Rightarrow> AnalogSensor checked" where
  "AnalogSensor_init params =
     (if \<not> value_min params < value_max params then Inl AssertFailed
      else Inr \<lparr>as_params = params,
                as_status_len = ucast ((value_max params - value_min params) div 4),
                as_data = SoilData_zero\<rparr>)"

definition AnalogSensor_calculate_moisture :: "AnalogSensor \<Rightarrow> u32 \<Rightarrow> int" where
  "AnalogSensor_calculate_moisture self raw =
     (let p = as_params self
      in if raw > value_max p then 0
         else if raw < value_min p then 100
         else
           let rng = value_max p - value_min p;
               offset = raw - value_min p;
               loss = ratio offset rng;
               remain = float32 (1 - loss)
           in float_to_int (float32 (100 * remain)))"

definition AnalogSensor_calculate_status :: "AnalogSensor \<Rightarrow> u32 \<Rightarrow> SoilStatus" where
  "AnalogSensor_calculate_status self raw =
     (let p = as_params self; len = ucast (as_status_len self) :: u32
      in if raw < value_min p \<or> raw > value_max p then SoilError
         else if raw < value_min p + len then Saturated
         else if raw < value_min p + len + len then Wet
         else if raw < value_min p + len + len + len then Depletion
         else Dry)"

text \<open>The result is an \<^verbatim>\<open>int16_t\<close>.\<close>

definition AnalogSensor_calculate_status_position :: "AnalogSensor \<Rightarrow> u32 \<Rightarrow> int checked" where
  "AnalogSensor_calculate_status_position self raw =
     (let p = as_params self; len = ucast (as_status_len self) :: u32
      in if raw < value_min p then Inr (-1)
         else if len = 0 then Inl DivByZero
         else
           let offset = raw - value_min p;
               count = offset div len
           in Inr (sint (ucast (offset - len * count) :: u16)))"

definition AnalogSensor_update_data ::
    "u32 \<Rightarrow> u32 \<Rightarrow> FsmBlock \<Rightarrow> AnalogSensor \<Rightarrow> AnalogSensor checked" where
  "AnalogSensor_update_data raw voltage b self =
     (case AnalogSensor_calculate_status_position self raw of
        Inl f \<Rightarrow> Inl f
      | Inr pos \<Rightarrow>
          Inr (self\<lparr>as_data :=
            \<lparr>sd_raw = raw, sd_voltage = voltage,
             sd_moisture = AnalogSensor_calculate_moisture self raw,
             sd_prev_status = parse_status (fb_prev_state b),
             sd_curr_status = parse_status (fb_curr_state b),
             sd_prev_status_duration = fb_prev_state_dur b,
             sd_curr_status_duration = fb_curr_state_dur b,
             sd_write_count = fb_write_count b,
             sd_status_len = as_status_len self,
             sd_status_pos = pos\<rparr>\<rparr>))"

text \<open>The block is used in place; \<^verbatim>\<open>transit\<close> logs its code and goes on.\<close>

definition AnalogSensor_run ::
    "'w IAdc \<Rightarrow> ('w \<Rightarrow> time) \<Rightarrow> 'w IStorage \<Rightarrow> AnalogSensor \<times> FsmBlock \<times> 'w \<Rightarrow>
       (status_code \<times> AnalogSensor \<times> FsmBlock \<times> 'w) checked" where
  "AnalogSensor_run adc clock st = (\<lambda>(self, b, w).
     (case adc_read adc w of
        ((code, raw), w1) \<Rightarrow>
          if code \<noteq> OK then Inr (code, self, b, w1)
          else (case adc_convert adc raw w1 of
            ((code, voltage), w2) \<Rightarrow>
              if code \<noteq> OK then Inr (code, self, b, w2)
              else
                let b1 = FsmBlock_set_next (state_of_status (AnalogSensor_calculate_status self raw))
                           (FsmBlock_update (clock w2) b)
                in case (if FsmBlock_is_in_transit b1
                         then snd (FsmBlock_transit clock st (b1, w2)) else (b1, w2)) of
                     (b2, w3) \<Rightarrow>
                       (case AnalogSensor_update_data raw voltage b2 self of
                          Inl f \<Rightarrow> Inl f
                        | Inr self' \<Rightarrow> Inr (OK, self', b2, w3)))))"

section \<open>Relay\<close>

text \<open>A pin of the ESP-IDF driver; \<^verbatim>\<open>DelayGpio\<close> waits after each operation.\<close>

record 'w gpio_driver =
  gpio_get_level :: "'w \<Rightarrow> int \<times> 'w"
  gpio_set_level :: "bool \<Rightarrow> 'w \<Rightarrow> esp_err \<times> 'w"
  gpio_set_direction :: "Direction \<Rightarrow> 'w \<Rightarrow> esp_err \<times> 'w"

definition of_esp_err :: "esp_err \<times> 'w \<Rightarrow> status_code \<times> 'w" where
  "of_esp_err r = (case r of (err, w) \<Rightarrow> (if err \<noteq> ESP_OK then Error else OK, w))"

definition BasicGpio :: "'w gpio_driver \<Rightarrow> bool \<Rightarrow> 'w IGpio" where
  "BasicGpio drv enable_value =
     \<lparr>gp_get = gpio_get_level drv,
      gp_flip = (\<lambda>w. case gpio_get_level drv w of
                      (level, w1) \<Rightarrow> of_esp_err (gpio_set_level drv (level = 0) w1)),
      gp_turn_on = (\<lambda>w. of_esp_err (gpio_set_level drv enable_value w)),
      gp_turn_off = (\<lambda>w. of_esp_err (gpio_set_level drv (\<not> enable_value) w)),
      gp_set_direction = (\<lambda>dir w. of_esp_err (gpio_set_direction drv dir w))\<rparr>"

definition DefaultGpio :: "'w gpio_driver \<Rightarrow> 'w IGpio" where
  "DefaultGpio drv = BasicGpio drv True"

record DelayGpioParams =
  dg_flip_delay_interval :: nat
  dg_turn_on_delay_interval :: nat
  dg_turn_off_delay_interval :: nat

definition delayed :: "(nat \<Rightarrow> 'w \<Rightarrow> 'w) \<Rightarrow> nat \<Rightarrow> 'w step \<Rightarrow> 'w step" where
  "delayed vTaskDelay d m = and_then m (\<lambda>w. (OK, if d \<noteq> 0 then vTaskDelay d w else w))"

definition DelayGpio :: "(nat \<Rightarrow> 'w \<Rightarrow> 'w) \<Rightarrow> 'w IGpio \<Rightarrow> DelayGpioParams \<Rightarrow> 'w IGpio" where
  "DelayGpio vTaskDelay gpio p =
     \<lparr>gp_get = gp_get gpio,
      gp_flip = delayed vTaskDelay (dg_flip_delay_interval p) (gp_flip gpio),
      gp_turn_on = delayed vTaskDelay (dg_turn_on_delay_interval p) (gp_turn_on gpio),
      gp_turn_off = delayed vTaskDelay (dg_turn_off_delay_interval p) (gp_turn_off gpio),
      gp_set_direction = gp_set_direction gpio\<rparr>"

text \<open>The guard turns the pin on when it is made and off when the scope ends.\<close>

definition GpioGuard :: "'w IGpio \<Rightarrow> ('w \<Rightarrow> 'a \<times> 'w) \<Rightarrow> 'w \<Rightarrow> 'a \<times> 'w" where
  "GpioGuard gpio body w =
     (case body (snd (gp_turn_on gpio w)) of (r, w1) \<Rightarrow> (r, snd (gp_turn_off gpio w1)))"

definition AnalogRelaySensor_gpio :: "(nat \<Rightarrow> 'w \<Rightarrow> 'w) \<Rightarrow> 'w gpio_driver \<Rightarrow> nat \<Rightarrow> 'w IGpio" where
  "AnalogRelaySensor_gpio vTaskDelay drv turn_on_delay_interval =
     DelayGpio vTaskDelay (DefaultGpio drv)
       \<lparr>dg_flip_delay_interval = 0, dg_turn_on_delay_interval = turn_on_delay_interval,
        dg_turn_off_delay_interval = 0\<rparr>"

definition AnalogRelaySensor_run :: "'w IGpio \<Rightarrow> 'w step \<Rightarrow> 'w step" where
  "AnalogRelaySensor_run gpio task = GpioGuard gpio task"

section \<open>Percentages\<close>

lemma float_to_int_mono: "x \<le> y \<Longrightarrow> float_to_int x \<le> float_to_int y"
proof -
  assume le: "x \<le> y"
  have "0 \<le> \<lfloor>- x\<rfloor>" if "x < 0" using that by simp
  moreover have "0 \<le> \<lfloor>y\<rfloor>" if "\<not> y < 0" using that by simp
  moreover have "\<lfloor>- y\<rfloor> \<le> \<lfloor>- x\<rfloor>" "\<lfloor>x\<rfloor> \<le> \<lfloor>y\<rfloor>" using le by (simp_all add: floor_mono)
  moreover have "x < 0" if "y < 0" using le that by simp
  ultimately show ?thesis unfolding float_to_int_def by (smt (verit))
qed

lemma float_to_int_numeral [simp]: "float_to_int 0 = 0" "float_to_int (numeral k) = numeral k"
  by (simp_all add: float_to_int_def)

lemma float32_numeral [simp]: "float32 1 = 1" "float32 100 = 100"
  using fl_int [of 1 24 149] fl_int [of 100 24 149] by simp_all

lemma sint_small: "(x :: u32) < 2 ^ 31 \<Longrightarrow> sint x = uint x"
proof -
  assume "x < 2 ^ 31"
  then have "uint x < 2 ^ 31" by (simp add: word_less_def)
  moreover have "- (2 ^ 31) \<le> uint x" by (rule order_trans [of _ 0]) simp_all
  ultimately show ?thesis by (simp only: sint_uint) (rule signed_take_bit_int_eq_self, simp_all)
qed

lemma ratio_bounds:
  assumes "offset \<le> rng" and "rng < 2 ^ 31" and "0 < rng"
  shows "0 \<le> ratio offset rng" "ratio offset rng \<le> 1" "ratio rng rng = 1"
    and "offset' \<le> offset \<Longrightarrow> ratio offset' rng \<le> ratio offset rng"
proof -
  let ?f = "\<lambda>x :: u32. float32 (of_int (sint x))"
  have small: "sint x = uint x" if "x \<le> rng" for x
    using sint_small [of x] assms(2) that by (simp add: order.strict_trans1)
  have mono: "?f x \<le> ?f y" if "x \<le> y" "y \<le> rng" for x y
  proof (rule fl_mono)
    have "sint x \<le> sint y" using that small [of x] small [of y] by (simp add: word_le_def)
    then show "of_int (sint x) \<le> (of_int (sint y) :: rat)" by (simp only: of_int_le_iff)
  qed simp
  have pos: "1 \<le> ?f rng"
  proof -
    have "1 \<le> sint rng" using assms(3) small [of rng] by (simp add: word_less_def)
    then have "of_int 1 \<le> (of_int (sint rng) :: rat)" by (simp only: of_int_le_iff)
    then have "float32 (of_int 1) \<le> ?f rng" by (rule fl_mono) simp
    then show ?thesis by simp
  qed
  have nonneg: "0 \<le> ?f offset"
  proof (rule fl_nonneg)
    have "0 \<le> sint offset" using small [OF assms(1)] by simp
    then show "0 \<le> (of_int (sint offset) :: rat)" by (simp only: of_int_0_le_iff)
  qed simp
  show "0 \<le> ratio offset rng" unfolding ratio_def using nonneg pos by (intro fl_nonneg) simp_all
  show "ratio rng rng = 1" unfolding ratio_def using pos by simp
  have "?f offset / ?f rng \<le> 1" using mono [OF assms(1)] pos by simp
  from fl_mono [OF this, of 24 149] show "ratio offset rng \<le> 1" unfolding ratio_def by simp
  assume "offset' \<le> offset"
  then show "ratio offset' rng \<le> ratio offset rng"
    unfolding ratio_def using mono [of offset' offset] assms(1) pos
    by (intro fl_mono [of "_ / _"] divide_right_mono) simp_all
qed

text \<open>Both percentages as a function of the reading between the limits.\<close>

lemma Ldr_percent:
  assumes "offset \<le> rng" and "rng < 2 ^ 31" and "0 < rng" and "offset' \<le> offset"
  shows "0 \<le> float_to_int (float32 (100 * ratio offset rng))"
    and "float_to_int (float32 (100 * ratio offset rng)) \<le> 100"
    and "float_to_int (float32 (100 * ratio offset' rng)) \<le> float_to_int (float32 (100 * ratio offset rng))"
proof -
  note r = ratio_bounds [OF assms(1-3)]
  let ?g = "\<lambda>x. float_to_int (float32 (100 * x))"
  have mono: "?g x \<le> ?g y" if "x \<le> y" for x y
    using that by (intro float_to_int_mono fl_mono) simp_all
  show "?g (ratio offset' rng) \<le> ?g (ratio offset rng)" using mono r(4) [OF assms(4)] .
  show "0 \<le> ?g (ratio offset rng)" using mono [OF r(1)] by simp
  show "?g (ratio offset rng) \<le> 100" using mono [OF r(2)] by simp
qed

lemma moisture_percent:
  assumes "offset \<le> rng" and "rng < 2 ^ 31" and "0 < rng" and "offset' \<le> offset"
  shows "0 \<le> float_to_int (float32 (100 * float32 (1 - ratio offset rng)))"
    and "float_to_int (float32 (100 * float32 (1 - ratio offset rng))) \<le> 100"
    and "float_to_int (float32 (100 * float32 (1 - ratio offset rng)))
       \<le> float_to_int (float32 (100 * float32 (1 - ratio offset' rng)))"
proof -
  note r = ratio_bounds [OF assms(1-3)]
  let ?g = "\<lambda>x. float_to_int (float32 (100 * float32 (1 - x)))"
  have mono: "?g y \<le> ?g x" if "x \<le> y" for x y
    using that by (intro float_to_int_mono fl_mono mult_left_mono) simp_all
  show "?g (ratio offset rng) \<le> ?g (ratio offset' rng)" using mono r(4) [OF assms(4)] .
  show "?g (ratio offset rng) \<le> 100" using mono [OF r(1)] by simp
  show "0 \<le> ?g (ratio offset rng)" using mono [OF r(2)] by simp
qed

text \<open>Offsets of readings between the limits.\<close>

lemma offset_le:
  assumes "(lo :: u32) \<le> x" and "x \<le> y" shows "x - lo \<le> y - lo"
  using assms by (simp add: word_le_def uint_minus_simple_alt [THEN iffD1])

text \<open>
  The percentages of the analog sensors are percentages and follow the reading: with single
  precision rounding and truncation included, the lightness is between 0 and 100 and grows with the
  reading, the moisture is between 0 and 100 and falls with it, and both reach their ends at the limits.
\<close>

theorem analog_percentages:
  assumes "value_min p < value_max p" and "value_max p - value_min p < 2 ^ 31"
    and "as_params self = p" and "r \<le> r'"
  shows "0 \<le> Ldr_calculate_lightness p r \<and> Ldr_calculate_lightness p r' \<le> 100
    \<and> Ldr_calculate_lightness p r \<le> Ldr_calculate_lightness p r'
    \<and> (r \<le> value_min p \<longrightarrow> Ldr_calculate_lightness p r = 0)
    \<and> (value_max p \<le> r \<longrightarrow> Ldr_calculate_lightness p r = 100)
    \<and> 0 \<le> AnalogSensor_calculate_moisture self r' \<and> AnalogSensor_calculate_moisture self r \<le> 100
    \<and> AnalogSensor_calculate_moisture self r' \<le> AnalogSensor_calculate_moisture self r
    \<and> (r \<le> value_min p \<longrightarrow> AnalogSensor_calculate_moisture self r = 100)
    \<and> (value_max p \<le> r \<longrightarrow> AnalogSensor_calculate_moisture self r = 0)"
proof -
  let ?lo = "value_min p" and ?hi = "value_max p"
  let ?rng = "?hi - ?lo"
  have rng: "0 < ?rng" using assms(1) by (simp add: word_neq_0_conv [symmetric])
  have off: "x - ?lo \<le> y - ?lo" "y - ?lo \<le> ?rng" if "?lo \<le> x" "x \<le> y" "y \<le> ?hi" for x y
    using that by (auto intro: offset_le order_trans)
  note L = Ldr_percent [OF _ assms(2) rng] and M = moisture_percent [OF _ assms(2) rng]
  have l: "0 \<le> Ldr_calculate_lightness p x" "Ldr_calculate_lightness p x \<le> 100" for x
    using L(1,2) [OF off(2) order_refl, of x x] by (auto simp: Ldr_calculate_lightness_def Let_def)
  have m: "0 \<le> AnalogSensor_calculate_moisture self x"
    "AnalogSensor_calculate_moisture self x \<le> 100" for x
    using M(1,2) [OF off(2) order_refl, of x x] assms(3)
    by (auto simp: AnalogSensor_calculate_moisture_def Let_def)
  have lm: "Ldr_calculate_lightness p r \<le> Ldr_calculate_lightness p r'"
  proof (cases "?lo < r \<and> r' < ?hi")
    case True
    then show ?thesis
      using L(3) [OF off(2) off(1), of r' r' r] assms(4)
      by (force simp: Ldr_calculate_lightness_def Let_def)
  next
    case False
    then show ?thesis
      using l [of r] l [of r'] assms(1,4) by (auto simp: Ldr_calculate_lightness_def Let_def)
  qed
  have mm: "AnalogSensor_calculate_moisture self r' \<le> AnalogSensor_calculate_moisture self r"
  proof (cases "?lo \<le> r \<and> r' \<le> ?hi")
    case True
    then show ?thesis
      using M(3) [OF off(2) off(1), of r' r' r] assms(3,4)
      by (auto simp: AnalogSensor_calculate_moisture_def Let_def)
  next
    case False
    then show ?thesis
      using m [of r] m [of r'] assms(1,3,4)
      by (auto simp: AnalogSensor_calculate_moisture_def Let_def)
  qed
  have "ratio ?rng ?rng = 1" using ratio_bounds(3) [OF _ assms(2) rng] by blast
  then have ends: "r \<le> ?lo \<longrightarrow> AnalogSensor_calculate_moisture self r = 100"
    "?hi \<le> r \<longrightarrow> AnalogSensor_calculate_moisture self r = 0"
    using assms(1,3) by (auto simp: AnalogSensor_calculate_moisture_def Let_def ratio_def)
  have ends': "r \<le> ?lo \<longrightarrow> Ldr_calculate_lightness p r = 0"
    "?hi \<le> r \<longrightarrow> Ldr_calculate_lightness p r = 100"
    using assms(1) by (auto simp: Ldr_calculate_lightness_def)
  show ?thesis using l m lm mm ends ends' by blast
qed

definition test_range :: adc_range where
  "test_range = \<lparr>value_min = 1000, value_max = 3000\<rparr>"

definition test_sensor :: AnalogSensor where
  "test_sensor = \<lparr>as_params = test_range, as_status_len = 500, as_data = SoilData_zero\<rparr>"

theorem analog_percentages_witness:
  "Ldr_calculate_lightness test_range 1500 \<le> Ldr_calculate_lightness test_range 2500
    \<and> AnalogSensor_calculate_moisture test_sensor 2500 \<le> AnalogSensor_calculate_moisture test_sensor 1500"
  using analog_percentages [of test_range test_sensor 1500 2500]
  by (simp add: test_range_def test_sensor_def)

section \<open>Status bands\<close>

text \<open>Lengths of a band that are neither zero nor cut by their 16 bits.\<close>

lemma AnalogSensor_init_len:
  assumes "AnalogSensor_init p = Inr s" and "value_max p - value_min p < 2 ^ 18"
  shows "as_params s = p" "value_min p < value_max p"
    "unat (as_status_len s) = (unat (value_max p) - unat (value_min p)) div 4"
    "unat (ucast (as_status_len s) :: u32) = (unat (value_max p) - unat (value_min p)) div 4"
proof -
  show p: "as_params s = p" "value_min p < value_max p"
    using assms(1) by (auto simp: AnalogSensor_init_def split: if_splits)
  let ?r = "value_max p - value_min p"
  have s: "as_status_len s = ucast (?r div 4)"
    using assms(1) by (auto simp: AnalogSensor_init_def split: if_splits)
  have r: "unat ?r = unat (value_max p) - unat (value_min p)"
    using p(2) by (simp add: unat_sub less_imp_le)
  have "unat ?r < 2 ^ 18" using assms(2) by (simp add: word_less_nat_alt)
  then have "unat ?r div 4 < 65536" by simp
  then have "unat (ucast (?r div 4) :: u16) = unat ?r div 4"
    by (subst unat_ucast_small) (simp_all add: unat_div)
  then show l: "unat (as_status_len s) = (unat (value_max p) - unat (value_min p)) div 4"
    using s r by simp
  have "unat (ucast (as_status_len s) :: u32) = unat (as_status_len s)"
    by (rule unat_ucast_small) (simp add: order.strict_trans [OF unat_u16_less])
  with l show "unat (ucast (as_status_len s) :: u32) = (unat (value_max p) - unat (value_min p)) div 4"
    by simp
qed

lemma band_of:
  assumes "(4 :: nat) * len \<le> d" and "0 < len"
  shows "min 3 (d' div len) = (if d' < len then 0 else if d' < 2 * len then 1
    else if d' < 3 * len then 2 else 3)"
proof -
  have "d' div len < k \<longleftrightarrow> d' < k * len" for k
    using assms(2) by (rule div_less_iff_less_mult)
  from this [of 1] this [of 2] this [of 3] show ?thesis by auto
qed

text \<open>
  The soil statuses are four bands of equal length: between the limits the status is given by
  the number of whole band lengths above the lower limit, the last band taking the remainder, the position
  is what is left of them, and outside the limits the status is the error.
\<close>

theorem AnalogSensor_status_bands:
  assumes "AnalogSensor_init p = Inr s" and "4 \<le> value_max p - value_min p"
    and "value_max p - value_min p < 2 ^ 17"
  shows "let len = (unat (value_max p) - unat (value_min p)) div 4;
             d = unat raw - unat (value_min p)
    in (if raw < value_min p \<or> value_max p < raw
        then AnalogSensor_calculate_status s raw = SoilError
        else unat (state_of_status (AnalogSensor_calculate_status s raw)) = 1 + min 3 (d div len))
     \<and> AnalogSensor_calculate_status_position s raw
          = Inr (if raw < value_min p then -1 else int (d mod len))"
proof -
  let ?lo = "value_min p" and ?hi = "value_max p"
  have "?hi - ?lo < 2 ^ 18" using assms(3) by (rule order.strict_trans) simp
  note i = AnalogSensor_init_len [OF assms(1) this]
  define len where "len = (unat ?hi - unat ?lo) div 4"
  define d where "d = unat raw - unat ?lo"
  let ?len = "ucast (as_status_len s) :: u32"
  have ul: "unat ?len = len" using i(4) unfolding len_def .
  have r: "unat (?hi - ?lo) = unat ?hi - unat ?lo" using i(2) by (simp add: unat_sub less_imp_le)
  have "4 \<le> unat (?hi - ?lo)" "unat (?hi - ?lo) < 131072"
    using assms(2,3) by (simp_all add: word_le_nat_alt word_less_nat_alt)
  then have b: "0 < len" "len < 32768" "4 * len \<le> unat ?hi - unat ?lo"
    unfolding r len_def by simp_all
  have hi: "unat ?hi < 4294967296" "unat ?lo < unat ?hi" using i(2) by (simp_all add: word_less_nat_alt)
  have bd: "unat ?lo + 4 * len < 4294967296" using b(3) hi(2) unat_u32_less [of ?hi] by linarith
  have n1: "unat (?lo + ?len) = unat ?lo + len"
    using bd ul by (subst unat_add_lem [THEN iffD1]) simp_all
  have n2: "unat (?lo + ?len + ?len) = unat ?lo + 2 * len"
    using bd ul n1 by (subst unat_add_lem [THEN iffD1]) simp_all
  have n3: "unat (?lo + ?len + ?len + ?len) = unat ?lo + 3 * len"
    using bd ul n2 by (subst unat_add_lem [THEN iffD1]) simp_all
  have st: "unat (state_of_status (AnalogSensor_calculate_status s raw)) = 1 + min 3 (d div len)"
    if "\<not> raw < ?lo" "\<not> ?hi < raw"
  proof -
    have "unat ?lo \<le> unat raw" using that by (simp add: word_less_nat_alt)
    then have "raw < ?lo + ?len \<longleftrightarrow> d < len" "raw < ?lo + ?len + ?len \<longleftrightarrow> d < 2 * len"
      "raw < ?lo + ?len + ?len + ?len \<longleftrightarrow> d < 3 * len"
      unfolding word_less_nat_alt n1 n2 n3 d_def by auto
    then show ?thesis
      using that i(1) unfolding AnalogSensor_calculate_status_def Let_def band_of [OF b(3,1)] by simp
  qed
  have pos: "AnalogSensor_calculate_status_position s raw
      = Inr (if raw < ?lo then -1 else int (d mod len))"
  proof (cases "raw < ?lo")
    case True
    then show ?thesis using i(1) by (simp add: AnalogSensor_calculate_status_position_def Let_def)
  next
    case False
    have od: "unat (raw - ?lo) = d" using False unfolding d_def by (simp add: unat_sub not_less)
    have "unat (raw - ?lo - ?len * ((raw - ?lo) div ?len)) = d mod len"
      unfolding minus_mult_div_eq_mod by (simp add: unat_mod ul od)
    moreover have "d mod len < 32768" using b(1,2) by (meson mod_less_divisor order.strict_trans)
    ultimately have "sint (ucast (raw - ?lo - ?len * ((raw - ?lo) div ?len)) :: u16) = int (d mod len)"
      by (subst sint_ucast_small) simp_all
    moreover have "?len \<noteq> 0" using ul b(1) by (metis less_numeral_extra(3) unat_0)
    ultimately show ?thesis
      using False i(1) by (simp add: AnalogSensor_calculate_status_position_def Let_def)
  qed
  show ?thesis
    using st pos i(1) unfolding Let_def len_def [symmetric] d_def [symmetric]
    by (auto simp: AnalogSensor_calculate_status_def)
qed

theorem AnalogSensor_status_bands_witness:
  "AnalogSensor_calculate_status_position test_sensor 2600 = Inr 100
    \<and> unat (state_of_status (AnalogSensor_calculate_status test_sensor 2600)) = 4"
proof -
  have "AnalogSensor_init test_range = Inr test_sensor"
    by (simp add: AnalogSensor_init_def test_range_def test_sensor_def)
  from AnalogSensor_status_bands [OF this, of 2600] show ?thesis
    by (simp add: test_range_def Let_def)
qed

section \<open>A run of the soil sensor\<close>

lemma AnalogSensor_calculate_status_cases:
  "AnalogSensor_calculate_status self raw \<in> {Saturated, Wet, Depletion, Dry, SoilError}"
  by (simp add: AnalogSensor_calculate_status_def Let_def)

lemma status_of_state_of_status:
  "st \<in> {Saturated, Wet, Depletion, Dry, SoilError} \<Longrightarrow>
     status_of_state (state_of_status st) = st \<and> state_of_status st \<noteq> 0"
  by (auto simp: status_of_state_def)

text \<open>The range check of \<^verbatim>\<open>parse_status\<close> asks for both bounds at once and never fires.\<close>

lemma parse_status_unchecked: "parse_status s = status_of_state s"
  by (auto simp: parse_status_def word_less_nat_alt)

text \<open>
  C31. What a run of the soil sensor does with a reading, through the block it shares: a reading whose
  status is the current one only advances the duration; another one closes the current state with the
  duration it had, starts the new one at zero from this moment, and counts a write. The published data
  says the same, an unknown stored state passing through unchecked. With a band length of zero (limits less
  than four apart) every reading not below the lower limit divides by zero.
\<close>

theorem AnalogSensor_run_tracks:
  assumes "adc_read adc w = ((OK, raw), w1)" and "adc_convert adc raw w1 = ((OK, v), w2)"
  shows "let state = state_of_status (AnalogSensor_calculate_status self raw);
             dur = fb_saved_ts b + (clock w2 - fb_start_ts b) sdiv fb_resolution b;
             r = AnalogSensor_run adc clock st (self, b, w)
    in if as_status_len self = 0 \<and> value_min (as_params self) \<le> raw then r = Inl DivByZero
       else \<exists>self' b' w'. r = Inr (OK, self', b', w')
          \<and> fb_curr_state b' = state
          \<and> sd_curr_status (as_data self') = AnalogSensor_calculate_status self raw
          \<and> sd_prev_status (as_data self') = status_of_state (fb_prev_state b')
          \<and> sd_curr_status_duration (as_data self') = fb_curr_state_dur b'
          \<and> sd_prev_status_duration (as_data self') = fb_prev_state_dur b'
          \<and> (if fb_curr_state b = state
             then b' = b\<lparr>fb_curr_state_dur := dur, fb_next_state := state\<rparr> \<and> w' = w2
             else fb_prev_state b' = fb_curr_state b \<and> fb_prev_state_dur b' = dur
               \<and> fb_curr_state_dur b' = 0 \<and> fb_saved_ts b' = 0 \<and> fb_start_ts b' = clock w2
               \<and> fb_next_state b' = 0 \<and> fb_write_count b' = fb_write_count b + 1)"
proof -
  let ?st = "AnalogSensor_calculate_status self raw"
  define state where "state = state_of_status ?st"
  define b1 where "b1 = FsmBlock_set_next state (FsmBlock_update (clock w2) b)"
  have sc: "status_of_state state = ?st" "state \<noteq> 0"
    using status_of_state_of_status [OF AnalogSensor_calculate_status_cases] unfolding state_def by blast+
  have b1: "FsmBlock_is_in_transit b1 \<longleftrightarrow> fb_curr_state b \<noteq> state"
    using sc(2) by (simp add: b1_def FsmBlock_is_in_transit_def FsmBlock_set_next_def
        FsmBlock_update_def Let_def)
  obtain b2 w3 where t: "(if FsmBlock_is_in_transit b1 then snd (FsmBlock_transit clock st (b1, w2))
      else (b1, w2)) = (b2, w3)" by fastforce
  have run: "AnalogSensor_run adc clock st (self, b, w) =
      (case AnalogSensor_update_data raw v b2 self of
         Inl f \<Rightarrow> Inl f | Inr self' \<Rightarrow> Inr (OK, self', b2, w3))"
    using assms t unfolding AnalogSensor_run_def b1_def state_def Let_def by simp
  show ?thesis
  proof (cases "as_status_len self = 0 \<and> value_min (as_params self) \<le> raw")
    case True
    then show ?thesis
      using run by (simp add: Let_def AnalogSensor_update_data_def
          AnalogSensor_calculate_status_position_def leD)
  next
    case False
    have "(ucast (as_status_len self) :: u32) = 0 \<longleftrightarrow> as_status_len self = 0"
      by (simp add: word_unat_eq_iff unat_ucast_small order.strict_trans [OF unat_u16_less])
    with False have "\<exists>pos. AnalogSensor_calculate_status_position self raw = Inr pos"
      by (simp add: AnalogSensor_calculate_status_position_def Let_def not_le)
    then obtain pos where pos: "AnalogSensor_calculate_status_position self raw = Inr pos" ..
    have b2: "if fb_curr_state b = state then b2 = b1 \<and> w3 = w2
      else b2 = fst (snd (FsmBlock_transit clock st (b1, w2)))"
      using t b1 by (auto split: if_splits)
    then have cur: "fb_curr_state b2 = state"
      by (auto simp: FsmBlock_transit_block b1_def FsmBlock_set_next_def FsmBlock_update_def Let_def
          split: if_splits)
    show ?thesis
      using False run pos b2 cur sc(1)
      by (auto simp: Let_def AnalogSensor_update_data_def parse_status_unchecked state_def [symmetric]
          FsmBlock_transit_block b1_def FsmBlock_set_next_def FsmBlock_update_def)
  qed
qed

text \<open>A converter that reads a constant, for the witness.\<close>

definition test_adc :: "'w IAdc" where
  "test_adc = \<lparr>adc_read = (\<lambda>w. ((OK, 2600), w)), adc_convert = (\<lambda>raw w. ((OK, raw), w))\<rparr>"

definition test_world :: TestStorage where
  "test_world = \<lparr>ts_size = 8, ts_probe_status = OK, ts_read_status = OK, ts_write_status = OK,
     ts_erase_status = OK, ts_values = Map.empty\<rparr>"

theorem AnalogSensor_run_tracks_witness:
  "\<exists>self' b' w'. AnalogSensor_run test_adc (\<lambda>_. 5 * second) TestStorage_vtable
      (test_sensor, FsmBlock_zero second, test_world) = Inr (OK, self', b', w')
    \<and> sd_prev_status_duration (as_data self') = 5 \<and> sd_curr_status (as_data self') = Dry"
proof -
  have "AnalogSensor_calculate_status test_sensor 2600 = Dry"
    by (simp add: AnalogSensor_calculate_status_def test_sensor_def test_range_def Let_def)
  with AnalogSensor_run_tracks [of test_adc test_world 2600 test_world 2600 test_world
      test_sensor "FsmBlock_zero second" "\<lambda>_. 5 * second" TestStorage_vtable]
  show ?thesis
    by (auto simp: test_adc_def test_sensor_def FsmBlock_zero_def second_def millisecond_def
        microsecond_def Let_def)
qed

end
