(* ===== verification/I2c.thy ===== *)
theory I2c
  imports Prelude
begin

text \<open>
  \<open>components/ocs_io/i2c\<close>: the transceiver through which a sensor talks to its I2C device
  (itransceiver.h), and its implementation on the ESP-IDF driver (master_transceiver.cpp).
\<close>

text \<open>The buffer that is filled is passed in and returned.\<close>

record 'w I2cTransceiver =
  i2c_send :: "bytes \<Rightarrow> time \<Rightarrow> 'w step"
  i2c_receive :: "bytes \<Rightarrow> time \<Rightarrow> 'w \<Rightarrow> status_code \<times> bytes \<times> 'w"

datatype i2c_err = I2C_OK | I2C_INVALID_ARG | I2C_TIMEOUT | I2C_OTHER nat

text \<open>The driver takes its timeout in milliseconds; \<open>-1\<close> is to wait forever.\<close>

record 'w i2c_driver =
  i2c_master_transmit :: "bytes \<Rightarrow> int \<Rightarrow> 'w \<Rightarrow> i2c_err \<times> 'w"
  i2c_master_receive :: "bytes \<Rightarrow> int \<Rightarrow> 'w \<Rightarrow> i2c_err \<times> bytes \<times> 'w"

fun i2c_err_to_code :: "i2c_err \<Rightarrow> status_code" where
  "i2c_err_to_code I2C_OK = OK"
| "i2c_err_to_code I2C_INVALID_ARG = InvalidArg"
| "i2c_err_to_code I2C_TIMEOUT = Timeout"
| "i2c_err_to_code (I2C_OTHER _) = Error"

definition I2cMasterTransceiver_send :: "'w i2c_driver \<Rightarrow> bytes \<Rightarrow> time \<Rightarrow> 'w step" where
  "I2cMasterTransceiver_send drv buf timeout w =
     (if timeout > 0 \<and> timeout < millisecond then (InvalidArg, w)
      else (case i2c_master_transmit drv buf (timeout sdiv millisecond) w of
              (err, w') \<Rightarrow> (i2c_err_to_code err, w')))"

definition I2cMasterTransceiver_receive ::
    "'w i2c_driver \<Rightarrow> bytes \<Rightarrow> time \<Rightarrow> 'w \<Rightarrow> status_code \<times> bytes \<times> 'w" where
  "I2cMasterTransceiver_receive drv buf timeout w =
     (if timeout > 0 \<and> timeout < millisecond then (InvalidArg, buf, w)
      else (case i2c_master_receive drv buf (timeout sdiv millisecond) w of
              (err, buf', w') \<Rightarrow> (i2c_err_to_code err, buf', w')))"

definition I2cMasterTransceiver :: "'w i2c_driver \<Rightarrow> 'w I2cTransceiver" where
  "I2cMasterTransceiver drv =
     \<lparr>i2c_send = I2cMasterTransceiver_send drv, i2c_receive = I2cMasterTransceiver_receive drv\<rparr>"

text \<open>
  The interface promises that a timeout of \<open>-1\<close> waits forever. The truncating division turns it
  into no wait at all.
\<close>

lemma I2cMasterTransceiver_waits_not:
  "I2cMasterTransceiver_send drv buf (-1) w =
     (case i2c_master_transmit drv buf 0 w of (err, w') \<Rightarrow> (i2c_err_to_code err, w'))"
  by (simp add: I2cMasterTransceiver_send_def millisecond_def microsecond_def signed_divide_int_def)

end
