(* ===== verification/Sht41.thy ===== *)
theory Sht41
  imports Floats Algo Storage I2c
begin

text \<open>
  \<open>components/ocs_sensor/sht41/sensor.cpp\<close>: the humidity and temperature sensor, whose frames carry
  a checksum per word and whose heater activations are counted in storage. A \<^verbatim>\<open>double\<close> is a
  rational rounded after every operation (theory Floats).
\<close>

section \<open>The sensor\<close>

datatype ShtCommand =
    MeasureHighPrecision | MeasureMediumPrecision | MeasureLowPrecision | ReadSerialNumber | SoftReset
  | ActivateHeater_200mW_1000ms | ActivateHeater_200mW_100ms | ActivateHeater_110mW_1000ms
  | ActivateHeater_110mW_100ms | ActivateHeater_20mW_1000ms | ActivateHeater_20mW_100ms

fun command_value :: "ShtCommand \<Rightarrow> nat" where
  "command_value MeasureHighPrecision = 0xFD"
| "command_value MeasureMediumPrecision = 0xF6"
| "command_value MeasureLowPrecision = 0xE0"
| "command_value ReadSerialNumber = 0x89"
| "command_value SoftReset = 0x94"
| "command_value ActivateHeater_200mW_1000ms = 0x39"
| "command_value ActivateHeater_200mW_100ms = 0x32"
| "command_value ActivateHeater_110mW_1000ms = 0x2F"
| "command_value ActivateHeater_110mW_100ms = 0x24"
| "command_value ActivateHeater_20mW_1000ms = 0x1E"
| "command_value ActivateHeater_20mW_100ms = 0x15"

fun command_to_str :: "ShtCommand \<Rightarrow> string" where
  "command_to_str MeasureHighPrecision = ''measure_high_precision''"
| "command_to_str MeasureMediumPrecision = ''measure_medium_precision''"
| "command_to_str MeasureLowPrecision = ''measure_low_precision''"
| "command_to_str ReadSerialNumber = ''read_serial_number''"
| "command_to_str SoftReset = ''soft_reset''"
| "command_to_str ActivateHeater_200mW_1000ms = ''activate_heater_200mW_1000ms''"
| "command_to_str ActivateHeater_200mW_100ms = ''activate_heater_200mW_100ms''"
| "command_to_str ActivateHeater_110mW_1000ms = ''activate_heater_110mW_1000ms''"
| "command_to_str ActivateHeater_110mW_100ms = ''activate_heater_110mW_100ms''"
| "command_to_str ActivateHeater_20mW_1000ms = ''activate_heater_20mW_1000ms''"
| "command_to_str ActivateHeater_20mW_100ms = ''activate_heater_20mW_100ms''"

text \<open>In milliseconds; the code converts them to ticks.\<close>

definition heating_long_pulse_delay :: nat where "heating_long_pulse_delay = 1100 + 10 + 50"
definition heating_short_pulse_delay :: nat where "heating_short_pulse_delay = 110 + 10 + 50"

text \<open>FreeRTOS: the length of a tick depends on the configuration of the firmware.\<close>

record 'w freertos =
  pdMS_TO_TICKS :: "nat \<Rightarrow> nat"
  vTaskDelay :: "nat \<Rightarrow> 'w \<Rightarrow> 'w"

definition estimate_heating_delay :: "'w freertos \<Rightarrow> ShtCommand \<Rightarrow> nat" where
  "estimate_heating_delay rtos c =
     (case c of
        ActivateHeater_200mW_1000ms \<Rightarrow> pdMS_TO_TICKS rtos heating_long_pulse_delay
      | ActivateHeater_200mW_100ms \<Rightarrow> pdMS_TO_TICKS rtos heating_short_pulse_delay
      | ActivateHeater_110mW_1000ms \<Rightarrow> pdMS_TO_TICKS rtos heating_long_pulse_delay
      | ActivateHeater_110mW_100ms \<Rightarrow> pdMS_TO_TICKS rtos heating_short_pulse_delay
      | ActivateHeater_20mW_1000ms \<Rightarrow> pdMS_TO_TICKS rtos heating_long_pulse_delay
      | ActivateHeater_20mW_100ms \<Rightarrow> pdMS_TO_TICKS rtos heating_short_pulse_delay
      | _ \<Rightarrow> 0)"

record ShtParams =
  sht_send_wait_interval :: nat
  sht_bus_wait_interval :: time
  sht_measure_command :: ShtCommand
  sht_heating_command :: ShtCommand

record ShtData =
  sht_humidity :: rat
  sht_temperature :: rat
  sht_data_heating_count :: u32

record Sht =
  sht_params :: ShtParams
  sht_heating_delay :: nat
  sht_heating_count :: u32
  sht_serial_number :: bytes
  sht_data :: ShtData

definition ShtData_zero :: ShtData where
  "ShtData_zero = \<lparr>sht_humidity = 0, sht_temperature = 0, sht_data_heating_count = 0\<rparr>"

definition word_crc :: "u8 \<Rightarrow> u8 \<Rightarrow> u8" where
  "word_crc hi lo = crc8 [hi, lo] 0xFF 0x31 MSB"

text \<open>The enumeration has the underlying type \<^verbatim>\<open>int\<close>, and its four bytes are sent.\<close>

definition Sht_send_command ::
    "'w freertos \<Rightarrow> 'w I2cTransceiver \<Rightarrow> ShtParams \<Rightarrow> ShtCommand \<Rightarrow> 'w step" where
  "Sht_send_command rtos tr p c =
     and_then (i2c_send tr (le_bytes 4 (command_value c)) (sht_bus_wait_interval p))
       (\<lambda>w. (OK, vTaskDelay rtos (sht_send_wait_interval p) w))"

definition Sht_temperature :: "u16 \<Rightarrow> rat" where
  "Sht_temperature ticks =
     MathOps_round_floor
       (float64 (- 45 + float64 (float64 (175 * of_int (uint ticks)) / 65535))) 2"

definition clamp :: "rat \<Rightarrow> rat \<Rightarrow> rat \<Rightarrow> rat" where
  "clamp v lo hi = (if v < lo then lo else if hi < v then hi else v)"

definition Sht_humidity :: "u16 \<Rightarrow> rat" where
  "Sht_humidity ticks =
     clamp (MathOps_round_floor
       (float64 (- 6 + float64 (float64 (125 * of_int (uint ticks)) / 65535))) 2) 0 100"

definition Sht_receive_data ::
    "'w I2cTransceiver \<Rightarrow> ShtParams \<Rightarrow> ShtData \<Rightarrow> 'w \<Rightarrow> status_code \<times> ShtData \<times> 'w" where
  "Sht_receive_data tr p d w =
     (case i2c_receive tr (replicate 6 0) (sht_bus_wait_interval p) w of
        (code, buf, w1) \<Rightarrow>
          if code \<noteq> OK then (code, d, w1)
          else if buf ! 2 \<noteq> word_crc (buf ! 0) (buf ! 1) then (InvalidState, d, w1)
          else if buf ! 5 \<noteq> word_crc (buf ! 3) (buf ! 4) then (InvalidState, d, w1)
          else (OK, d\<lparr>sht_temperature := Sht_temperature (BitOps_pack_u8 (buf ! 0) (buf ! 1)),
                      sht_humidity := Sht_humidity (BitOps_pack_u8 (buf ! 3) (buf ! 4))\<rparr>, w1))"

definition Sht_run :: "'w freertos \<Rightarrow> 'w I2cTransceiver \<Rightarrow> (Sht \<times> 'w) step" where
  "Sht_run rtos tr sw =
     (case sw of (self, w) \<Rightarrow>
        (case Sht_send_command rtos tr (sht_params self) (sht_measure_command (sht_params self)) w of
           (code, w1) \<Rightarrow>
             if code \<noteq> OK then (code, (self, w1))
             else (case Sht_receive_data tr (sht_params self)
                     (ShtData_zero\<lparr>sht_data_heating_count := sht_heating_count self\<rparr>) w1 of
                     (code, d, w2) \<Rightarrow>
                       if code \<noteq> OK then (code, (self, w2))
                       else (OK, (self\<lparr>sht_data := d\<rparr>, w2)))))"

definition Sht_reset :: "'w freertos \<Rightarrow> 'w I2cTransceiver \<Rightarrow> (Sht \<times> 'w) step" where
  "Sht_reset rtos tr sw =
     (case sw of (self, w) \<Rightarrow>
        (case Sht_send_command rtos tr (sht_params self) SoftReset w of
           (code, w1) \<Rightarrow> (code, (self, w1))))"

definition heating_count_key :: string where "heating_count_key = ''heating_count''"

definition Sht_read_heating_count :: "'w IStorage \<Rightarrow> (Sht \<times> 'w) step" where
  "Sht_read_heating_count st sw =
     (case sw of (self, w) \<Rightarrow>
        (case st_read st heating_count_key (u32_bytes (sht_heating_count self)) w of
           (code, bs, w1) \<Rightarrow>
             (if code \<noteq> OK \<and> code \<noteq> NoData then code else OK,
              (self\<lparr>sht_heating_count := u32_of_bytes bs\<rparr>, w1))))"

definition Sht_write_heating_count :: "'w IStorage \<Rightarrow> (Sht \<times> 'w) step" where
  "Sht_write_heating_count st sw =
     (case sw of (self, w) \<Rightarrow>
        (case st_write st heating_count_key (u32_bytes (sht_heating_count self)) w of
           (code, w1) \<Rightarrow> (code, (self, w1))))"

text \<open>A count that cannot be stored is logged only.\<close>

definition Sht_heat :: "'w freertos \<Rightarrow> 'w I2cTransceiver \<Rightarrow> 'w IStorage \<Rightarrow> (Sht \<times> 'w) step" where
  "Sht_heat rtos tr st sw =
     (case sw of (self, w) \<Rightarrow>
        (case Sht_send_command rtos tr (sht_params self) (sht_heating_command (sht_params self)) w of
           (code, w1) \<Rightarrow>
             if code \<noteq> OK then (code, (self, w1))
             else (case Sht_receive_data tr (sht_params self) ShtData_zero
                     (vTaskDelay rtos (sht_heating_delay self) w1) of
                     (code, d, w2) \<Rightarrow>
                       if code \<noteq> OK then (code, (self, w2))
                       else
                         let self1 = self\<lparr>sht_heating_count := sht_heating_count self + 1\<rparr>;
                             d1 = d\<lparr>sht_data_heating_count := sht_heating_count self1\<rparr>
                         in case Sht_write_heating_count st (self1, w2) of
                              (_, (self2, w3)) \<Rightarrow> (OK, (self2\<lparr>sht_data := d1\<rparr>, w3)))))"

definition Sht_read_serial_number :: "'w freertos \<Rightarrow> 'w I2cTransceiver \<Rightarrow> (Sht \<times> 'w) step" where
  "Sht_read_serial_number rtos tr sw =
     (case sw of (self, w) \<Rightarrow>
        (case Sht_send_command rtos tr (sht_params self) ReadSerialNumber w of
           (code, w1) \<Rightarrow>
             if code \<noteq> OK then (code, (self, w1))
             else (case i2c_receive tr (replicate 6 0) (sht_bus_wait_interval (sht_params self)) w1 of
                (code, buf, w2) \<Rightarrow>
                  if code \<noteq> OK then (code, (self, w2))
                  else if buf ! 2 \<noteq> word_crc (buf ! 0) (buf ! 1) then (InvalidState, (self, w2))
                  else if buf ! 5 \<noteq> word_crc (buf ! 3) (buf ! 4) then (InvalidState, (self, w2))
                  else (OK, (self\<lparr>sht_serial_number := take 4 buf\<rparr>, w2)))))"

definition Sht_init ::
    "'w freertos \<Rightarrow> 'w I2cTransceiver \<Rightarrow> 'w IStorage \<Rightarrow> ShtParams \<Rightarrow> 'w \<Rightarrow> (Sht \<times> 'w) checked" where
  "Sht_init rtos tr st p w =
     (if sht_send_wait_interval p = 0 \<or> sht_bus_wait_interval p = 0 then Inl AssertFailed
      else
        let self = \<lparr>sht_params = p, sht_heating_delay = 0, sht_heating_count = 0,
                    sht_serial_number = replicate 4 0, sht_data = ShtData_zero\<rparr>;
            sw1 = snd (Sht_reset rtos tr (self, w));
            delay = estimate_heating_delay rtos (sht_heating_command p)
        in if delay = 0 then Inl AssertFailed
           else
             let sw2 = ((fst sw1)\<lparr>sht_heating_delay := delay\<rparr>, snd sw1);
                 sw3 = snd (Sht_read_heating_count st sw2)
             in Inr (snd (Sht_read_serial_number rtos tr sw3)))"

section \<open>Conversion\<close>

lemma float64_numeral [simp]: "float64 1 = 1" "float64 (numeral k) = numeral k"
  if "numeral k < (2 :: int) ^ 53"
  using fl_int [of 1 53 1074] fl_int [of "numeral k" 53 1074] that by simp_all

text \<open>The two formulas, as one with the offset and the span.\<close>

definition ticks_value :: "rat \<Rightarrow> rat \<Rightarrow> u16 \<Rightarrow> rat" where
  "ticks_value lo full ticks =
     MathOps_round_floor
       (float64 (lo + float64 (float64 (full * of_int (uint ticks)) / 65535))) 2"

lemma Sht_conversions:
  "Sht_temperature t = ticks_value (- 45) 175 t"
  "Sht_humidity t = clamp (ticks_value (- 6) 125 t) 0 100"
  by (simp_all add: Sht_temperature_def Sht_humidity_def ticks_value_def)

lemma ticks_value_mono:
  assumes "t \<le> t'" and "0 \<le> full"
  shows "ticks_value lo full t \<le> ticks_value lo full t'"
proof -
  have "uint t \<le> uint t'" using assms(1) by (simp add: word_le_def)
  then have "(of_int (uint t) :: rat) \<le> of_int (uint t')" by (simp only: of_int_le_iff)
  then have "full * of_int (uint t) \<le> full * of_int (uint t')"
    using assms(2) by (rule mult_left_mono)
  then have "float64 (full * of_int (uint t)) \<le> float64 (full * of_int (uint t'))"
    by (rule fl_mono) simp
  then have "float64 (float64 (full * of_int (uint t)) / 65535)
      \<le> float64 (float64 (full * of_int (uint t')) / 65535)"
    by (intro fl_mono [of "_ / _"] divide_right_mono) simp_all
  then show ?thesis unfolding ticks_value_def
    by (intro MathOps_round_floor_mono fl_mono [of "lo + _"] add_left_mono) simp_all
qed

lemma ticks_value_ends:
  "ticks_value (- 45) 175 0 = - 45" "ticks_value (- 45) 175 (- 1) = 130"
  "ticks_value (- 6) 125 0 = - 6" "ticks_value (- 6) 125 (- 1) = 119"
proof -
  have r: "MathOps_round_floor (float64 (of_int n)) 2 = of_int n" if "\<bar>n\<bar> < 1000" for n
    using that fl_int [of n 53 1074] MathOps_round_floor_int [of n 2] by simp
  have u: "uint (- 1 :: u16) = 65535" by (simp add: uint_word_ariths(4))
  have "float64 (175 * 65535) = 175 * 65535" "float64 (125 * 65535) = 125 * 65535"
    "float64 175 = 175" "float64 125 = 125"
    using fl_int [of "175 * 65535" 53 1074] fl_int [of "125 * 65535" 53 1074]
      fl_int [of 175 53 1074] fl_int [of 125 53 1074] by simp_all
  then show "ticks_value (- 45) 175 0 = - 45" "ticks_value (- 45) 175 (- 1) = 130"
    "ticks_value (- 6) 125 0 = - 6" "ticks_value (- 6) 125 (- 1) = 119"
    using r [of "- 45"] r [of 130] r [of "- 6"] r [of 119]
    unfolding ticks_value_def u by simp_all
qed

lemma Sht_ranges:
  "- 45 \<le> Sht_temperature t" "Sht_temperature t \<le> 130" "0 \<le> Sht_humidity t" "Sht_humidity t \<le> 100"
proof -
  have "t \<le> - 1" by simp
  then show "- 45 \<le> Sht_temperature t" "Sht_temperature t \<le> 130"
    using ticks_value_mono [of 0 t 175 "- 45"] ticks_value_mono [of t "- 1" 175 "- 45"] ticks_value_ends
    by (simp_all add: Sht_conversions)
  show "0 \<le> Sht_humidity t" "Sht_humidity t \<le> 100" by (simp_all add: Sht_humidity_def clamp_def)
qed

lemma Sht_mono:
  assumes "t \<le> t'"
  shows "Sht_temperature t \<le> Sht_temperature t'" "Sht_humidity t \<le> Sht_humidity t'"
  using ticks_value_mono [OF assms, of 175 "- 45"] ticks_value_mono [OF assms, of 125 "- 6"]
  by (simp_all add: Sht_conversions clamp_def)

section \<open>Frames\<close>

definition frame_valid :: "bytes \<Rightarrow> bool" where
  "frame_valid buf \<longleftrightarrow> length buf = 6 \<and> buf ! 2 = word_crc (buf ! 0) (buf ! 1)
     \<and> buf ! 5 = word_crc (buf ! 3) (buf ! 4)"

lemma word_crc_detects:
  assumes "(hi, lo) \<noteq> (hi', lo')" and "hi = hi' \<or> lo = lo'"
  shows "word_crc hi lo \<noteq> word_crc hi' lo'"
proof -
  have reg: "crc8_regular MSB 0x31"
    by (simp add: crc8_regular_def bit_numeral_rec eval_nat_numeral)
  show ?thesis
    using assms crc8_byte_neq [OF reg, of lo lo' "[hi]" "[]"] crc8_byte_neq [OF reg, of hi hi' "[]" "[lo]"]
    by (auto simp: word_crc_def simp del: crc8.simps)
qed

lemma frame_corrupted:
  assumes "frame_valid buf" and "i < 6" and "b \<noteq> buf ! i"
  shows "\<not> frame_valid (buf[i := b])"
proof -
  obtain x0 x1 x2 x3 x4 x5 where buf: "buf = [x0, x1, x2, x3, x4, x5]"
    using assms(1) by (auto simp: frame_valid_def length_Suc_conv numeral_eq_Suc)
  have v: "x2 = word_crc x0 x1" "x5 = word_crc x3 x4" using assms(1) by (auto simp: frame_valid_def buf)
  have "i = 0 \<or> i = 1 \<or> i = 2 \<or> i = 3 \<or> i = 4 \<or> i = 5" using assms(2) by linarith
  then show ?thesis
    using assms(3) v word_crc_detects [of b x1 x0 x1] word_crc_detects [of x0 b x0 x1]
      word_crc_detects [of b x4 x3 x4] word_crc_detects [of x3 b x3 x4]
    by (auto simp: frame_valid_def buf)
qed

text \<open>
  C32. A reading is taken only from an intact frame: a frame whose two checksums agree gives a
  temperature between -45 and 130 degrees and a humidity between 0 and 100 percent, both growing with
  their ticks and computed in double precision; the same frame with any one byte changed is refused with
  \<open>InvalidState\<close> and the data stays as it was.
\<close>

theorem Sht_receive_data_checked:
  assumes "i2c_receive tr (replicate 6 0) (sht_bus_wait_interval p) w = (OK, buf, w1)"
    and "i2c_receive tr' (replicate 6 0) (sht_bus_wait_interval p) w = (OK, buf[i := b], w1')"
    and "frame_valid buf" and "i < 6" and "b \<noteq> buf ! i"
  shows "(\<exists>d'. Sht_receive_data tr p d w = (OK, d', w1)
      \<and> - 45 \<le> sht_temperature d' \<and> sht_temperature d' \<le> 130
      \<and> 0 \<le> sht_humidity d' \<and> sht_humidity d' \<le> 100
      \<and> (\<forall>t. t \<le> BitOps_pack_u8 (buf ! 0) (buf ! 1) \<longrightarrow> Sht_temperature t \<le> sht_temperature d')
      \<and> (\<forall>t. t \<le> BitOps_pack_u8 (buf ! 3) (buf ! 4) \<longrightarrow> Sht_humidity t \<le> sht_humidity d')
      \<and> sht_data_heating_count d' = sht_data_heating_count d)
    \<and> Sht_receive_data tr' p d w = (InvalidState, d, w1')"
proof
  have v: "buf ! 2 = word_crc (buf ! 0) (buf ! 1)" "buf ! 5 = word_crc (buf ! 3) (buf ! 4)"
    using assms(3) by (simp_all add: frame_valid_def)
  show "\<exists>d'. Sht_receive_data tr p d w = (OK, d', w1)
      \<and> - 45 \<le> sht_temperature d' \<and> sht_temperature d' \<le> 130
      \<and> 0 \<le> sht_humidity d' \<and> sht_humidity d' \<le> 100
      \<and> (\<forall>t. t \<le> BitOps_pack_u8 (buf ! 0) (buf ! 1) \<longrightarrow> Sht_temperature t \<le> sht_temperature d')
      \<and> (\<forall>t. t \<le> BitOps_pack_u8 (buf ! 3) (buf ! 4) \<longrightarrow> Sht_humidity t \<le> sht_humidity d')
      \<and> sht_data_heating_count d' = sht_data_heating_count d"
    using assms(1) v by (simp add: Sht_receive_data_def Sht_ranges Sht_mono)
  have "length (buf[i := b]) = 6" using assms(3) by (simp add: frame_valid_def)
  with frame_corrupted [OF assms(3-5)]
  show "Sht_receive_data tr' p d w = (InvalidState, d, w1')"
    using assms(2) by (auto simp: Sht_receive_data_def frame_valid_def)
qed

text \<open>A device that always sends one frame, for the witnesses.\<close>

definition replay :: "bytes \<Rightarrow> unit I2cTransceiver" where
  "replay frame = \<lparr>i2c_send = (\<lambda>_ _ w. (OK, w)), i2c_receive = (\<lambda>_ _ w. (OK, frame, w))\<rparr>"

definition test_params :: ShtParams where
  "test_params = \<lparr>sht_send_wait_interval = 2, sht_bus_wait_interval = 5 * second,
     sht_measure_command = MeasureLowPrecision, sht_heating_command = ActivateHeater_20mW_100ms\<rparr>"

definition test_frame :: bytes where
  "test_frame = [0xBE, 0xEF, 0x92, 0x00, 0x00, 0x81]"

lemma test_frame_valid: "frame_valid test_frame"
  unfolding frame_valid_def test_frame_def by code_simp

theorem Sht_receive_data_checked_witness:
  "Sht_receive_data (replay [0xBE, 0xEE, 0x92, 0x00, 0x00, 0x81]) test_params ShtData_zero ()
     = (InvalidState, ShtData_zero, ())"
  using Sht_receive_data_checked [of "replay test_frame" test_params "()" test_frame "()"
      "replay [0xBE, 0xEE, 0x92, 0x00, 0x00, 0x81]" 1 "0xEE" "()" ShtData_zero] test_frame_valid
  by (simp add: replay_def test_frame_def)

section \<open>Serial number\<close>

text \<open>
  The serial number that is kept has the checksum of the first word as its third byte and lacks the
  last byte the device sent: two devices whose serial numbers differ in that byte only get the same one.
\<close>

theorem Sht_serial_number_aliases:
  assumes "i2c_send tr (le_bytes 4 (command_value ReadSerialNumber)) (sht_bus_wait_interval (sht_params self)) w
      = (OK, w1)"
    and "i2c_receive tr (replicate 6 0) (sht_bus_wait_interval (sht_params self))
        (vTaskDelay rtos (sht_send_wait_interval (sht_params self)) w1)
      = (OK, [s1, s2, word_crc s1 s2, s3, s4, word_crc s3 s4], w2)"
  shows "Sht_read_serial_number rtos tr (self, w)
    = (OK, (self\<lparr>sht_serial_number := [s1, s2, word_crc s1 s2, s3]\<rparr>, w2))"
proof -
  have "Sht_send_command rtos tr (sht_params self) ReadSerialNumber w
      = (OK, vTaskDelay rtos (sht_send_wait_interval (sht_params self)) w1)"
    using assms(1) by (simp add: Sht_send_command_def)
  then show ?thesis using assms(2) by (simp add: Sht_read_serial_number_def take_Cons' nth_Cons')
qed

definition no_rtos :: "unit freertos" where
  "no_rtos = \<lparr>pdMS_TO_TICKS = (\<lambda>ms. ms div 10), vTaskDelay = (\<lambda>_ w. w)\<rparr>"

definition test_sht :: Sht where
  "test_sht = \<lparr>sht_params = test_params, sht_heating_delay = 17, sht_heating_count = 0,
     sht_serial_number = [0, 0, 0, 0], sht_data = ShtData_zero\<rparr>"

theorem Sht_serial_number_aliases_witness:
  "sht_serial_number (fst (snd (Sht_read_serial_number no_rtos
       (replay [1, 2, word_crc 1 2, 3, 4, word_crc 3 4]) (test_sht, ()))))
   = sht_serial_number (fst (snd (Sht_read_serial_number no_rtos
       (replay [1, 2, word_crc 1 2, 3, 5, word_crc 3 5]) (test_sht, ()))))"
  using Sht_serial_number_aliases [of "replay [1, 2, word_crc 1 2, 3, 4, word_crc 3 4]" test_sht "()" "()"
      no_rtos 1 2 3 4 "()"]
    Sht_serial_number_aliases [of "replay [1, 2, word_crc 1 2, 3, 5, word_crc 3 5]" test_sht "()" "()"
      no_rtos 1 2 3 5 "()"]
  by (simp add: replay_def)

end
