(* ===== verification/Bme280.thy ===== *)
theory Bme280
  imports Floats Algo
begin

text \<open>
  \<open>components/ocs_sensor/bme280\<close>: the pressure, temperature and humidity sensor (sensor.cpp,
  protocol.h) and the transceiver that reaches its registers over SPI (spi_transceiver.cpp). An
  \<^verbatim>\<open>int32_t\<close> or \<^verbatim>\<open>int64_t\<close> is a word read as signed: the code relies on two's
  complement, and \<open>>>\<close> is \<open>signed_drop_bit\<close>.
\<close>

section \<open>Registers\<close>

type_synonym RegisterAddress = u8

record 'w RegisterTransceiver =
  rt_send :: "bytes \<Rightarrow> RegisterAddress \<Rightarrow> 'w step"
  rt_receive :: "bytes \<Rightarrow> RegisterAddress \<Rightarrow> 'w \<Rightarrow> status_code \<times> bytes \<times> 'w"

definition RegisterID_address :: RegisterAddress where "RegisterID_address = 0xD0"
definition RegisterReset_address :: RegisterAddress where "RegisterReset_address = 0xE0"
definition RegisterReset_value :: u8 where "RegisterReset_value = 0xB6"
definition RegisterCtrlHum_address :: RegisterAddress where "RegisterCtrlHum_address = 0xF2"
definition RegisterStatus_address :: RegisterAddress where "RegisterStatus_address = 0xF3"
definition RegisterData_address :: RegisterAddress where "RegisterData_address = 0xF7"
definition CalibrationData1_address :: RegisterAddress where "CalibrationData1_address = 0x88"

text \<open>The bit fields, from the least significant bit; a field takes the low bits of its value.\<close>

definition RegisterCtrlHum :: "u8 \<Rightarrow> u8" where
  "RegisterCtrlHum osrs_h = osrs_h AND 7"

definition RegisterCtrlMeas :: "u8 \<Rightarrow> u8 \<Rightarrow> u8 \<Rightarrow> u8" where
  "RegisterCtrlMeas mode osrs_p osrs_t =
     mode AND 3 OR push_bit 2 (osrs_p AND 7) OR push_bit 5 (osrs_t AND 7)"

definition RegisterConfig :: "u8 \<Rightarrow> u8 \<Rightarrow> u8" where
  "RegisterConfig filter_coef t_sb = push_bit 2 (filter_coef AND 7) OR push_bit 5 (t_sb AND 7)"

definition RegisterStatus_measuring :: "u8 \<Rightarrow> bool" where
  "RegisterStatus_measuring v = bit v 3"

record CalibrationData1 =
  dig_T1 :: u16
  dig_T2 :: u16
  dig_T3 :: u16
  dig_P1 :: u16
  dig_P2 :: u16
  dig_P3 :: u16
  dig_P4 :: u16
  dig_P5 :: u16
  dig_P6 :: u16
  dig_P7 :: u16
  dig_P8 :: u16
  dig_P9 :: u16
  dig_H1 :: u8

record CalibrationData2 =
  dig_H2 :: u16
  dig_H3 :: u8
  dig_H4 :: u16
  dig_H5 :: u16
  dig_H6 :: u8

section \<open>SPI\<close>

text \<open>\<^verbatim>\<open>io::spi::ITransceiver\<close>: a null receive buffer is \<open>None\<close>.\<close>

type_synonym 'w SpiBus = "bytes \<Rightarrow> bytes option \<Rightarrow> 'w \<Rightarrow> status_code \<times> bytes option \<times> 'w"

fun SpiTransceiver_pairs :: "bytes \<Rightarrow> RegisterAddress \<Rightarrow> bytes" where
  "SpiTransceiver_pairs [] addr = []"
| "SpiTransceiver_pairs (b # buf) addr =
     (ucast ((ucast addr :: u32) AND BitOps_umask 7) # b # SpiTransceiver_pairs buf (addr + 1))"

definition SpiTransceiver_send :: "'w SpiBus \<Rightarrow> bytes \<Rightarrow> RegisterAddress \<Rightarrow> 'w step" where
  "SpiTransceiver_send spi buf addr w =
     (case spi (SpiTransceiver_pairs buf addr) None w of (code, _, w') \<Rightarrow> (code, w'))"

definition SpiTransceiver_receive ::
    "'w SpiBus \<Rightarrow> bytes \<Rightarrow> RegisterAddress \<Rightarrow> 'w \<Rightarrow> status_code \<times> bytes \<times> 'w" where
  "SpiTransceiver_receive spi buf addr w =
     (let control = ucast ((ucast addr :: u32) OR BitOps_mask 7) :: u8
      in case spi (control # replicate (length buf) 0) (Some (replicate (length buf + 1) 0)) w of
           (code, recv, w') \<Rightarrow>
             if code \<noteq> OK then (code, buf, w') else (OK, drop 1 (the recv), w'))"

definition SpiTransceiver :: "'w SpiBus \<Rightarrow> 'w RegisterTransceiver" where
  "SpiTransceiver spi =
     \<lparr>rt_send = SpiTransceiver_send spi, rt_receive = SpiTransceiver_receive spi\<rparr>"

section \<open>Sensor\<close>

datatype OversamplingMode = OversamplingNone | One | Two | Four | Eight | Sixteen

fun oversampling_value :: "OversamplingMode \<Rightarrow> u8" where
  "oversampling_value OversamplingNone = 0"
| "oversampling_value One = 1"
| "oversampling_value Two = 2"
| "oversampling_value Four = 3"
| "oversampling_value Eight = 4"
| "oversampling_value Sixteen = 5"

fun oversampling_to_coef :: "OversamplingMode \<Rightarrow> u8" where
  "oversampling_to_coef OversamplingNone = 0"
| "oversampling_to_coef One = 1"
| "oversampling_to_coef Two = 2"
| "oversampling_to_coef Four = 4"
| "oversampling_to_coef Eight = 8"
| "oversampling_to_coef Sixteen = 16"

datatype OperationMode = Sleep | Forced | Normal

fun operation_mode_value :: "OperationMode \<Rightarrow> u8" where
  "operation_mode_value Sleep = 0"
| "operation_mode_value Forced = 2"
| "operation_mode_value Normal = 3"

datatype IirCoefficient = IirNone | IirTwo | IirFour | IirEight | IirSixteen

fun iir_value :: "IirCoefficient \<Rightarrow> u8" where
  "iir_value IirNone = 0"
| "iir_value IirTwo = 1"
| "iir_value IirFour = 2"
| "iir_value IirEight = 3"
| "iir_value IirSixteen = 4"

record BmeParams =
  bme_operation_mode :: OperationMode
  bme_pressure_oversampling :: OversamplingMode
  bme_temperature_oversampling :: OversamplingMode
  bme_humidity_oversampling :: OversamplingMode
  bme_iir_coefficient :: IirCoefficient
  bme_inactive_duration :: u8
  bme_pressure_resolution :: nat
  bme_pressure_decimal_places :: nat
  bme_humidity_decimal_places :: nat

record BmeData =
  bme_pressure :: rat
  bme_temperature :: rat
  bme_humidity :: rat

record Bme =
  bme_params :: BmeParams
  bme_calibration1 :: CalibrationData1
  bme_calibration2 :: CalibrationData2
  bme_t_fine :: u32
  bme_data :: BmeData

subsection \<open>Compensation\<close>

definition format_20bit_data :: "u8 \<Rightarrow> u8 \<Rightarrow> u8 \<Rightarrow> u32" where
  "format_20bit_data msb lsb xlsb =
     (let high_bits = BitOps_pack_u8 msb lsb; low_bits = drop_bit 4 (xlsb AND 0xF0)
      in push_bit 4 (ucast high_bits) OR ucast low_bits)"

text \<open>It returns the temperature and the new \<^verbatim>\<open>t_fine_\<close>.\<close>

definition BME280_compensate_T_int32 :: "CalibrationData1 \<Rightarrow> u32 \<Rightarrow> u32 \<times> u32" where
  "BME280_compensate_T_int32 c adc_T =
     (let T1 = ucast (dig_T1 c); T2 = scast (dig_T2 c); T3 = scast (dig_T3 c);
          var1 = signed_drop_bit 11 ((signed_drop_bit 3 adc_T - push_bit 1 T1) * T2);
          var2 = signed_drop_bit 14
                   (signed_drop_bit 12 ((signed_drop_bit 4 adc_T - T1) * (signed_drop_bit 4 adc_T - T1)) * T3);
          t_fine = var1 + var2
      in (signed_drop_bit 8 (t_fine * 5 + 128), t_fine))"

text \<open>Division of C++ on \<^verbatim>\<open>int64_t\<close>.\<close>

definition div64 :: "u64 \<Rightarrow> u64 \<Rightarrow> u64" where
  "div64 a b = word_of_int (sint a sdiv sint b)"

definition BME280_compensate_P_int64 :: "CalibrationData1 \<Rightarrow> u32 \<Rightarrow> u32 \<Rightarrow> u32" where
  "BME280_compensate_P_int64 c t_fine adc_P =
     (let P1 = ucast (dig_P1 c) :: u64; P2 = scast (dig_P2 c); P3 = scast (dig_P3 c);
          P4 = scast (dig_P4 c); P5 = scast (dig_P5 c); P6 = scast (dig_P6 c);
          P7 = scast (dig_P7 c); P8 = scast (dig_P8 c); P9 = scast (dig_P9 c);
          var1 = scast t_fine - 128000;
          var2 = var1 * var1 * P6;
          var2 = var2 + push_bit 17 (var1 * P5);
          var2 = var2 + push_bit 35 P4;
          var1 = signed_drop_bit 8 (var1 * var1 * P3) + push_bit 12 (var1 * P2);
          var1 = signed_drop_bit 33 ((push_bit 47 1 + var1) * P1)
      in if var1 = 0 then 0
         else
           let p = 1048576 - scast adc_P;
               p = div64 ((push_bit 31 p - var2) * 3125) var1;
               var1 = signed_drop_bit 25 (P9 * signed_drop_bit 13 p * signed_drop_bit 13 p);
               var2 = signed_drop_bit 19 (P8 * p);
               p = signed_drop_bit 8 (p + var1 + var2) + push_bit 4 P7
           in ucast p)"

definition BME280_compensate_H_int32 ::
    "CalibrationData1 \<Rightarrow> CalibrationData2 \<Rightarrow> u32 \<Rightarrow> u32 \<Rightarrow> u32" where
  "BME280_compensate_H_int32 c1 c2 t_fine adc_H =
     (let H1 = ucast (dig_H1 c1); H2 = scast (dig_H2 c2); H3 = ucast (dig_H3 c2);
          H4 = scast (dig_H4 c2); H5 = scast (dig_H5 c2); H6 = scast (dig_H6 c2);
          v = t_fine - 76800;
          v = signed_drop_bit 15 (push_bit 14 adc_H - push_bit 20 H4 - H5 * v + 16384)
              * signed_drop_bit 14
                  ((signed_drop_bit 10
                      (signed_drop_bit 10 (v * H6) * (signed_drop_bit 11 (v * H3) + 32768))
                    + 2097152) * H2 + 8192);
          v = v - signed_drop_bit 4
                    (signed_drop_bit 7 (signed_drop_bit 15 v * signed_drop_bit 15 v) * H1);
          v = (if sint v < 0 then 0 else v);
          v = (if sint v > 419430400 then 419430400 else v)
      in signed_drop_bit 12 v)"

subsection \<open>Operations\<close>

definition Bme_reset :: "(nat \<Rightarrow> 'w \<Rightarrow> 'w) \<Rightarrow> 'w RegisterTransceiver \<Rightarrow> nat \<Rightarrow> 'w step" where
  "Bme_reset vTaskDelay tr wait_reset_interval =
     and_then (rt_send tr [RegisterReset_value] RegisterReset_address)
       (\<lambda>w. (OK, vTaskDelay wait_reset_interval w))"

definition Bme_read_serial_number :: "'w RegisterTransceiver \<Rightarrow> 'w step" where
  "Bme_read_serial_number tr w =
     (case rt_receive tr [0] RegisterID_address w of (code, _, w') \<Rightarrow> (code, w'))"

definition Bme_write_configuration :: "'w RegisterTransceiver \<Rightarrow> BmeParams \<Rightarrow> 'w step" where
  "Bme_write_configuration tr p =
     rt_send tr
       [RegisterCtrlHum (oversampling_value (bme_humidity_oversampling p)),
        0,
        RegisterCtrlMeas (operation_mode_value (bme_operation_mode p))
          (oversampling_value (bme_pressure_oversampling p))
          (oversampling_value (bme_temperature_oversampling p)),
        RegisterConfig (iir_value (bme_iir_coefficient p)) (bme_inactive_duration p)]
       RegisterCtrlHum_address"

definition Bme_read_configuration :: "'w RegisterTransceiver \<Rightarrow> 'w step" where
  "Bme_read_configuration tr w =
     (case rt_receive tr (replicate 4 0) RegisterCtrlHum_address w of (code, _, w') \<Rightarrow> (code, w'))"

definition field16 :: "bytes \<Rightarrow> nat \<Rightarrow> u16" where
  "field16 buf n = u16_of_bytes [buf ! (2 * n), buf ! (2 * n + 1)]"

definition CalibrationData1_of_bytes :: "bytes \<Rightarrow> CalibrationData1" where
  "CalibrationData1_of_bytes buf =
     \<lparr>dig_T1 = field16 buf 0, dig_T2 = field16 buf 1, dig_T3 = field16 buf 2,
      dig_P1 = field16 buf 3, dig_P2 = field16 buf 4, dig_P3 = field16 buf 5,
      dig_P4 = field16 buf 6, dig_P5 = field16 buf 7, dig_P6 = field16 buf 8,
      dig_P7 = field16 buf 9, dig_P8 = field16 buf 10, dig_P9 = field16 buf 11,
      dig_H1 = buf ! 25\<rparr>"

definition Bme_read_calibration1 :: "'w RegisterTransceiver \<Rightarrow> (Bme \<times> 'w) step" where
  "Bme_read_calibration1 tr sw =
     (case sw of (self, w) \<Rightarrow>
        (case rt_receive tr (replicate 26 0) CalibrationData1_address w of
           (code, buf, w') \<Rightarrow>
             if code \<noteq> OK then (code, (self, w'))
             else (OK, (self\<lparr>bme_calibration1 := CalibrationData1_of_bytes buf\<rparr>, w'))))"

text \<open>
  Shifts and bitwise or are done in \<^verbatim>\<open>int\<close>, the results stored in 16 bits.
\<close>

definition CalibrationData2_of_bytes :: "bytes \<Rightarrow> CalibrationData2" where
  "CalibrationData2_of_bytes buf =
     \<lparr>dig_H2 = BitOps_pack_u8 (buf ! 1) (buf ! 0),
      dig_H3 = buf ! 2,
      dig_H4 = (let high_bits = buf ! 3; low_bits = buf ! 4 AND 0x0F
                in ucast (push_bit 4 (ucast high_bits :: u32) OR ucast low_bits)),
      dig_H5 = (let high_bits = buf ! 5; low_bits = drop_bit 4 (buf ! 4 AND 0xF0)
                in ucast (push_bit 4 (ucast high_bits :: u32) OR ucast low_bits)),
      dig_H6 = buf ! 6\<rparr>"

definition Bme_read_calibration2 :: "'w RegisterTransceiver \<Rightarrow> (Bme \<times> 'w) step" where
  "Bme_read_calibration2 tr sw =
     (case sw of (self, w) \<Rightarrow>
        (case rt_receive tr (replicate 7 0) 0xE1 w of
           (code, buf, w') \<Rightarrow>
             if code \<noteq> OK then (code, (self, w'))
             else (OK, (self\<lparr>bme_calibration2 := CalibrationData2_of_bytes buf\<rparr>, w'))))"

definition Bme_format_pressure :: "BmeParams \<Rightarrow> u32 \<Rightarrow> rat" where
  "Bme_format_pressure p v =
     (let x = float64 (of_int (uint v) / 256);
          x = (if bme_pressure_resolution p \<noteq> 0
               then float64 (x / float64 (10 ^ bme_pressure_resolution p)) else x)
      in if bme_pressure_decimal_places p \<noteq> 0
         then MathOps_round_floor x (bme_pressure_decimal_places p) else x)"

definition Bme_format_humidity :: "BmeParams \<Rightarrow> u32 \<Rightarrow> rat" where
  "Bme_format_humidity p v =
     (let x = float64 (of_int (uint v) / 1024)
      in if bme_humidity_decimal_places p \<noteq> 0
         then MathOps_round_floor x (bme_humidity_decimal_places p) else x)"

text \<open>The pressure is compensated first, then the temperature, then the humidity.\<close>

definition Bme_read_data :: "'w RegisterTransceiver \<Rightarrow> (Bme \<times> 'w) step" where
  "Bme_read_data tr sw =
     (case sw of (self, w) \<Rightarrow>
        (case rt_receive tr (replicate 8 0) RegisterData_address w of
           (code, r, w') \<Rightarrow>
             if code \<noteq> OK then (code, (self, w'))
             else
               let pressure_raw = format_20bit_data (r ! 0) (r ! 1) (r ! 2);
                   temperature_raw = format_20bit_data (r ! 3) (r ! 4) (r ! 5);
                   humidity_raw = ucast (BitOps_pack_u8 (r ! 6) (r ! 7)) :: u32;
                   c1 = bme_calibration1 self;
                   c2 = bme_calibration2 self;
                   pressure = Bme_format_pressure (bme_params self)
                     (BME280_compensate_P_int64 c1 (bme_t_fine self) pressure_raw);
                   (T, t_fine) = BME280_compensate_T_int32 c1 temperature_raw;
                   temperature = float64 (of_int (sint T) / 100);
                   humidity = Bme_format_humidity (bme_params self)
                     (BME280_compensate_H_int32 c1 c2 t_fine humidity_raw)
               in (OK, (self\<lparr>bme_t_fine := t_fine,
                             bme_data := \<lparr>bme_pressure = pressure, bme_temperature = temperature,
                                          bme_humidity = humidity\<rparr>\<rparr>, w'))))"

text \<open>The loop that waits for a forced measurement may not end.\<close>

partial_function (option) Bme_wait ::
    "(nat \<Rightarrow> 'w \<Rightarrow> 'w) \<Rightarrow> 'w RegisterTransceiver \<Rightarrow> nat \<Rightarrow> 'w \<Rightarrow> (status_code \<times> 'w) option" where
  "Bme_wait vTaskDelay tr interval w =
     (case rt_receive tr [0] RegisterStatus_address w of
        (code, buf, w1) \<Rightarrow>
          if code \<noteq> OK then Some (code, w1)
          else if \<not> RegisterStatus_measuring (buf ! 0) then Some (OK, w1)
          else Bme_wait vTaskDelay tr interval (vTaskDelay interval w1))"

definition Bme_run ::
    "(nat \<Rightarrow> 'w \<Rightarrow> 'w) \<Rightarrow> 'w RegisterTransceiver \<Rightarrow> nat \<Rightarrow> Bme \<times> 'w \<Rightarrow> (status_code \<times> Bme \<times> 'w) option" where
  "Bme_run vTaskDelay tr interval sw =
     (case sw of (self, w) \<Rightarrow>
        if bme_operation_mode (bme_params self) = Forced then
          (case Bme_write_configuration tr (bme_params self) w of
             (code, w1) \<Rightarrow>
               if code \<noteq> OK then Some (code, self, w1)
               else (case Bme_wait vTaskDelay tr interval w1 of
                  None \<Rightarrow> None
                | Some (code, w2) \<Rightarrow>
                    if code \<noteq> OK then Some (code, self, w2)
                    else Some (Bme_read_data tr (self, w2))))
        else Some (Bme_read_data tr (self, w)))"

definition Bme_zero :: "BmeParams \<Rightarrow> Bme" where
  "Bme_zero p =
     \<lparr>bme_params = p, bme_calibration1 = CalibrationData1_of_bytes (replicate 26 0),
      bme_calibration2 = \<lparr>dig_H2 = 0, dig_H3 = 0, dig_H4 = 0, dig_H5 = 0, dig_H6 = 0\<rparr>,
      bme_t_fine = 0, bme_data = \<lparr>bme_pressure = 0, bme_temperature = 0, bme_humidity = 0\<rparr>\<rparr>"

text \<open>Every failure is logged only.\<close>

definition Bme_init ::
    "(nat \<Rightarrow> 'w \<Rightarrow> 'w) \<Rightarrow> 'w RegisterTransceiver \<Rightarrow> nat \<Rightarrow> nat \<Rightarrow> BmeParams \<Rightarrow> 'w \<Rightarrow> (Bme \<times> 'w) option" where
  "Bme_init vTaskDelay tr reset_interval interval p w =
     (let w1 = snd (Bme_reset vTaskDelay tr reset_interval w);
          w2 = snd (Bme_read_serial_number tr w1);
          w3 = snd (Bme_write_configuration tr p w2);
          w4 = snd (Bme_read_configuration tr w3);
          sw5 = snd (Bme_read_calibration1 tr (Bme_zero p, w4));
          sw6 = snd (Bme_read_calibration2 tr sw5)
      in map_option snd (Bme_run vTaskDelay tr interval sw6))"

section \<open>The register file behind SPI\<close>

text \<open>
  What \<open>RegisterTransceiver\<close> promises: registers with consecutive addresses. The device decodes the low
  seven bits of an address.
\<close>

definition reg7 :: "u8 \<Rightarrow> u8" where "reg7 a = a AND 0x7F"

fun block_write :: "bytes \<Rightarrow> RegisterAddress \<Rightarrow> (u8 \<Rightarrow> u8) \<Rightarrow> u8 \<Rightarrow> u8" where
  "block_write [] addr regs = regs"
| "block_write (b # buf) addr regs = block_write buf (addr + 1) (regs(reg7 addr := b))"

definition block_read :: "nat \<Rightarrow> RegisterAddress \<Rightarrow> (u8 \<Rightarrow> u8) \<Rightarrow> bytes" where
  "block_read n addr regs = map (\<lambda>k. regs (reg7 (addr + of_nat k))) [0..<n]"

text \<open>
  The SPI protocol of the device (section 6.3 of the data sheet): a control byte with the most
  significant bit set starts a read from its address on, one without it is followed by a byte to write, and
  the pairs are repeated.
\<close>

fun write_pairs :: "bytes \<Rightarrow> (u8 \<Rightarrow> u8) \<Rightarrow> u8 \<Rightarrow> u8" where
  "write_pairs (c # b # rest) regs = write_pairs rest (regs(reg7 c := b))"
| "write_pairs _ regs = regs"

definition spi_device :: "'w SpiBus \<Rightarrow> ('w \<Rightarrow> u8 \<Rightarrow> u8) \<Rightarrow> bool" where
  "spi_device spi regs \<longleftrightarrow>
     (\<forall>c n w. bit c 7 \<longrightarrow> (\<exists>x w'. spi (c # replicate n 0) (Some (replicate (n + 1) 0)) w
        = (OK, Some (x # block_read n c (regs w)), w') \<and> regs w' = regs w))
   \<and> (\<forall>frame w. (\<forall>i. 2 * i < length frame \<longrightarrow> \<not> bit (frame ! (2 * i)) 7) \<longrightarrow>
        (\<exists>r w'. spi frame None w = (OK, r, w') \<and> regs w' = write_pairs frame (regs w)))"

lemma reg7_take_bit: "reg7 a = take_bit 7 a"
proof -
  have "(0x7F :: u8) = mask 7" by (simp add: mask_eq_exp_minus_1)
  then show ?thesis unfolding reg7_def by (simp add: take_bit_eq_mask)
qed

lemma reg7_eqI: "(\<And>n. n < 7 \<Longrightarrow> bit a n = bit b n) \<Longrightarrow> reg7 a = reg7 b"
  unfolding reg7_take_bit by (rule bit_word_eqI) (auto simp: bit_take_bit_iff)

lemma control_write:
  "\<not> bit (ucast ((ucast (a :: u8) :: u32) AND BitOps_umask 7) :: u8) 7"
  "reg7 (ucast ((ucast a :: u32) AND BitOps_umask 7)) = reg7 a"
  by (auto simp: bit_ucast_iff bit_and_iff bit_BitOps_umask intro!: reg7_eqI dest: bit_imp_le_length)

lemma control_read:
  "bit (ucast ((ucast (a :: u8) :: u32) OR BitOps_mask 7) :: u8) 7"
  "n < 7 \<Longrightarrow> bit (ucast ((ucast a :: u32) OR BitOps_mask 7) :: u8) n = bit a n"
  by (auto simp: bit_ucast_iff bit_or_iff bit_BitOps_mask dest: bit_imp_le_length)

lemma unat_reg7: "unat (reg7 a) = unat a mod 128"
  unfolding reg7_take_bit by (simp only: unsigned_take_bit_eq) (simp add: take_bit_eq_mod)

lemma reg7_eq_iff: "reg7 a = reg7 b \<longleftrightarrow> unat a mod 128 = unat b mod 128"
  by (simp only: word_unat_eq_iff unat_reg7)

lemma reg7_add:
  assumes "reg7 a = reg7 b" shows "reg7 (a + c) = reg7 (b + c)"
proof -
  have "unat (x + c) mod 128 = (unat x mod 128 + unat c) mod 128" for x :: u8
    by (simp add: unat_word_ariths mod_mod_cancel mod_add_left_eq)
  with assms show ?thesis unfolding reg7_eq_iff by simp
qed

lemma SpiTransceiver_pairs_controls:
  "2 * i < length (SpiTransceiver_pairs buf addr) \<Longrightarrow> \<not> bit (SpiTransceiver_pairs buf addr ! (2 * i)) 7"
proof (induction buf addr arbitrary: i rule: SpiTransceiver_pairs.induct)
  case (1 addr)
  then show ?case by simp
next
  case (2 b buf addr)
  then show ?case by (cases i) (auto simp: control_write)
qed

lemma write_pairs_SpiTransceiver_pairs:
  "write_pairs (SpiTransceiver_pairs buf addr) regs = block_write buf addr regs"
  by (induction buf addr arbitrary: regs rule: SpiTransceiver_pairs.induct) (simp_all add: control_write)

lemma block_read_control:
  "block_read n (ucast ((ucast (a :: u8) :: u32) OR BitOps_mask 7)) regs = block_read n a regs"
proof -
  have "reg7 (ucast ((ucast a :: u32) OR BitOps_mask 7)) = reg7 a"
    by (rule reg7_eqI) (rule control_read(2))
  then show ?thesis unfolding block_read_def using reg7_add by (metis (no_types, lifting))
qed

text \<open>Registers keep what is written to them, as long as the addresses do not wrap.\<close>

lemma reg7_of_nat_inj:
  "i < 128 \<Longrightarrow> j < 128 \<Longrightarrow> reg7 (a + of_nat i) = reg7 (a + of_nat j) \<Longrightarrow> i = j"
proof -
  assume ij: "i < 128" "j < 128" and eq: "reg7 (a + of_nat i) = reg7 (a + of_nat j)"
  have "reg7 (of_nat i) = reg7 (of_nat j)"
    using reg7_add [OF eq, of "- a"] by simp
  then show "i = j" using ij by (simp add: reg7_eq_iff unat_of_nat mod_mod_cancel)
qed

lemma block_write_other:
  "(\<And>k. k < length buf \<Longrightarrow> reg7 (addr + of_nat k) \<noteq> x) \<Longrightarrow> block_write buf addr regs x = regs x"
proof (induction buf arbitrary: addr regs)
  case Nil
  then show ?case by simp
next
  case (Cons b buf)
  have "reg7 (addr + 1 + of_nat k) \<noteq> x" if "k < length buf" for k
    using Cons.prems [of "Suc k"] that by (simp add: add.assoc)
  moreover have "reg7 addr \<noteq> x" using Cons.prems [of 0] by simp
  ultimately show ?case using Cons.IH by simp
qed

lemma block_write_nth:
  assumes "length buf \<le> 128" and "i < length buf"
  shows "block_write buf addr regs (reg7 (addr + of_nat i)) = buf ! i"
  using assms
proof (induction buf arbitrary: addr regs i)
  case Nil
  then show ?case by simp
next
  case (Cons b buf)
  show ?case
  proof (cases i)
    case 0
    have "reg7 (addr + 1 + of_nat k) \<noteq> reg7 addr" if "k < length buf" for k
      using reg7_of_nat_inj [of "Suc k" 0 addr] that Cons.prems(1) by (auto simp: add.assoc)
    then show ?thesis using 0 block_write_other [of buf "addr + 1"] by simp
  next
    case (Suc j)
    have "reg7 (addr + of_nat i) = reg7 (addr + 1 + of_nat j)" using Suc by (simp add: ac_simps)
    then show ?thesis using Cons.IH [of j "addr + 1"] Cons.prems Suc by simp
  qed
qed

lemma block_read_write:
  assumes "length buf \<le> 128"
  shows "block_read (length buf) addr (block_write buf addr regs) = buf"
  using block_write_nth [OF assms] by (intro nth_equalityI) (simp_all add: block_read_def)

lemma SpiTransceiver_send_refines:
  assumes "spi_device spi regs"
  shows "\<exists>w'. SpiTransceiver_send spi buf addr w = (OK, w') \<and> regs w' = block_write buf addr (regs w)"
proof -
  have "\<forall>i. 2 * i < length (SpiTransceiver_pairs buf addr)
      \<longrightarrow> \<not> bit (SpiTransceiver_pairs buf addr ! (2 * i)) 7"
    using SpiTransceiver_pairs_controls by blast
  then obtain r w' where "spi (SpiTransceiver_pairs buf addr) None w = (OK, r, w')"
    "regs w' = write_pairs (SpiTransceiver_pairs buf addr) (regs w)"
    using assms unfolding spi_device_def by blast
  then show ?thesis by (simp add: SpiTransceiver_send_def write_pairs_SpiTransceiver_pairs)
qed

lemma SpiTransceiver_receive_refines:
  assumes "spi_device spi regs"
  shows "\<exists>w'. SpiTransceiver_receive spi buf addr w = (OK, block_read (length buf) addr (regs w), w')
    \<and> regs w' = regs w"
proof -
  let ?c = "ucast ((ucast addr :: u32) OR BitOps_mask 7) :: u8"
  obtain x w' where "spi (?c # replicate (length buf) 0) (Some (replicate (length buf + 1) 0)) w
      = (OK, Some (x # block_read (length buf) ?c (regs w)), w')" "regs w' = regs w"
    using assms control_read(1) [of addr] unfolding spi_device_def by blast
  then show ?thesis by (simp add: SpiTransceiver_receive_def Let_def block_read_control)
qed


text \<open>A device that is its registers.\<close>

definition register_device :: "(u8 \<Rightarrow> u8) SpiBus" where
  "register_device frame recv regs =
     (case recv of
        None \<Rightarrow> (OK, None, write_pairs frame regs)
      | Some _ \<Rightarrow> (OK, Some (0 # block_read (length frame - 1) (frame ! 0) regs), regs))"

lemma register_device_ok: "spi_device register_device (\<lambda>w. w)"
  by (simp add: spi_device_def register_device_def)


section \<open>Waiting for a measurement\<close>

text \<open>A device that measures for \<open>busy w\<close> more intervals.\<close>

definition measuring_device :: "'w RegisterTransceiver \<Rightarrow> ('w \<Rightarrow> nat) \<Rightarrow> bool" where
  "measuring_device tr busy \<longleftrightarrow>
     (\<forall>w. \<exists>buf w1. rt_receive tr [0] RegisterStatus_address w = (OK, buf, w1)
        \<and> RegisterStatus_measuring (buf ! 0) = (0 < busy w) \<and> busy w1 = busy w)"

lemma Bme_wait_returns:
  assumes "measuring_device tr busy" and "\<forall>w. busy (vTaskDelay interval w) = busy w - 1"
  shows "\<exists>w'. Bme_wait vTaskDelay tr interval w = Some (OK, w') \<and> busy w' = 0"
proof (induction "busy w" arbitrary: w)
  case 0
  then obtain buf w1 where "rt_receive tr [0] RegisterStatus_address w = (OK, buf, w1)"
    "\<not> RegisterStatus_measuring (buf ! 0)" "busy w1 = 0"
    using assms(1) unfolding measuring_device_def by (metis less_numeral_extra(3))
  then show ?case by (subst Bme_wait.simps) simp
next
  case (Suc n)
  then obtain buf w1 where w1: "rt_receive tr [0] RegisterStatus_address w = (OK, buf, w1)"
    "RegisterStatus_measuring (buf ! 0)" "busy w1 = Suc n"
    using assms(1) unfolding measuring_device_def by (metis zero_less_Suc)
  then have "n = busy (vTaskDelay interval w1)" using assms(2) by simp
  from Suc.hyps(1) [OF this] w1 show ?case by (subst Bme_wait.simps) simp
qed

lemma Bme_wait_Some:
  assumes "Bme_wait vTaskDelay tr interval w = Some r"
  shows "measuring_device tr busy \<and> (\<forall>w. busy (vTaskDelay interval w) = busy w) \<longrightarrow> busy w = 0"
proof (rule Bme_wait.raw_induct
    [where P = "\<lambda>vTaskDelay tr interval w r. measuring_device tr busy
       \<and> (\<forall>w. busy (vTaskDelay interval w) = busy w) \<longrightarrow> busy w = 0", OF _ assms], rule impI)
  fix rec :: "(nat \<Rightarrow> 'a \<Rightarrow> 'a) \<Rightarrow> 'a RegisterTransceiver \<Rightarrow> nat \<Rightarrow> 'a \<Rightarrow> (status_code \<times> 'a) option"
    and vTaskDelay :: "nat \<Rightarrow> 'a \<Rightarrow> 'a" and tr :: "'a RegisterTransceiver" and interval w r
  assume IH: "\<And>vTaskDelay tr interval w r. rec vTaskDelay tr interval w = Some r \<Longrightarrow>
      measuring_device tr busy \<and> (\<forall>w. busy (vTaskDelay interval w) = busy w) \<longrightarrow> busy w = 0"
    and eq: "(case rt_receive tr [0] RegisterStatus_address w of
        (code, buf, w1) \<Rightarrow>
          if code \<noteq> OK then Some (code, w1)
          else if \<not> RegisterStatus_measuring (buf ! 0) then Some (OK, w1)
          else rec vTaskDelay tr interval (vTaskDelay interval w1)) = Some r"
    and dev: "measuring_device tr busy \<and> (\<forall>w. busy (vTaskDelay interval w) = busy w)"
  obtain buf w1 where w1: "rt_receive tr [0] RegisterStatus_address w = (OK, buf, w1)"
    "RegisterStatus_measuring (buf ! 0) = (0 < busy w)" "busy w1 = busy w"
    using dev unfolding measuring_device_def by blast
  show "busy w = 0"
  proof (rule ccontr)
    assume "busy w \<noteq> 0"
    then have "rec vTaskDelay tr interval (vTaskDelay interval w1) = Some r" using eq w1 by simp
    from IH [OF this] dev w1(3) show False using \<open>busy w \<noteq> 0\<close> by simp
  qed
qed

text \<open>
  C33. In forced mode a run ends exactly when the device finishes: if every wait brings the measurement
  closer to its end the run returns what reading the data gives then, and a device whose measuring bit
  stays set keeps the run in its loop for ever. In the other modes it always returns.
\<close>

theorem Bme_run_terminates:
  assumes "measuring_device tr busy"
    and "bme_operation_mode (bme_params self) = Forced"
    and "Bme_write_configuration tr (bme_params self) w = (OK, w1)"
  shows "((\<forall>w. busy (vTaskDelay interval w) = busy w - 1) \<longrightarrow>
      (\<exists>w2. busy w2 = 0 \<and> Bme_run vTaskDelay tr interval (self, w) = Some (Bme_read_data tr (self, w2))))
    \<and> ((\<forall>w. busy (vTaskDelay interval w) = busy w) \<and> 0 < busy w1 \<longrightarrow>
      Bme_run vTaskDelay tr interval (self, w) = None)"
proof (intro conjI impI)
  assume "\<forall>w. busy (vTaskDelay interval w) = busy w - 1"
  then obtain w2 where "Bme_wait vTaskDelay tr interval w1 = Some (OK, w2)" "busy w2 = 0"
    using Bme_wait_returns [of tr busy vTaskDelay interval w1] assms(1) by blast
  then show "\<exists>w2. busy w2 = 0 \<and> Bme_run vTaskDelay tr interval (self, w) = Some (Bme_read_data tr (self, w2))"
    using assms(2,3) by (auto simp: Bme_run_def)
next
  assume stuck: "(\<forall>w. busy (vTaskDelay interval w) = busy w) \<and> 0 < busy w1"
  have "Bme_wait vTaskDelay tr interval w1 = None"
  proof (rule ccontr)
    assume "Bme_wait vTaskDelay tr interval w1 \<noteq> None"
    then obtain r where "Bme_wait vTaskDelay tr interval w1 = Some r" by blast
    from Bme_wait_Some [OF this, of busy] assms(1) stuck show False by simp
  qed
  then show "Bme_run vTaskDelay tr interval (self, w) = None" using assms(2,3) by (simp add: Bme_run_def)
qed

text \<open>A device that only counts its remaining measuring time.\<close>

definition countdown :: "nat RegisterTransceiver" where
  "countdown = \<lparr>rt_send = (\<lambda>_ _ w. (OK, w)),
     rt_receive = (\<lambda>buf _ w. (OK, replicate (length buf) (if 0 < w then 8 else 0), w))\<rparr>"

definition forced_params :: BmeParams where
  "forced_params = \<lparr>bme_operation_mode = Forced, bme_pressure_oversampling = One,
     bme_temperature_oversampling = One, bme_humidity_oversampling = One,
     bme_iir_coefficient = IirNone, bme_inactive_duration = 0, bme_pressure_resolution = 2,
     bme_pressure_decimal_places = 2, bme_humidity_decimal_places = 2\<rparr>"

lemma countdown_measures: "measuring_device countdown (\<lambda>w. w)"
  by (auto simp: measuring_device_def countdown_def RegisterStatus_measuring_def bit_numeral_rec
      eval_nat_numeral)

theorem Bme_run_terminates_witness:
  "Bme_run (\<lambda>_ w. w - 1) countdown 10 (Bme_zero forced_params, 3)
     = Some (Bme_read_data countdown (Bme_zero forced_params, 0))
   \<and> Bme_run (\<lambda>_ w. w) countdown 10 (Bme_zero forced_params, 3) = None"
proof -
  have "bme_operation_mode (bme_params (Bme_zero forced_params)) = Forced"
    by (simp add: Bme_zero_def forced_params_def)
  moreover have "Bme_write_configuration countdown (bme_params (Bme_zero forced_params)) 3 = (OK, 3)"
    by (simp add: Bme_write_configuration_def countdown_def)
  ultimately show ?thesis
    using Bme_run_terminates [OF countdown_measures, of "Bme_zero forced_params" 3 3 "\<lambda>_ w. w - 1" 10]
      Bme_run_terminates [OF countdown_measures, of "Bme_zero forced_params" 3 3 "\<lambda>_ w. w" 10]
    by simp
qed

section \<open>Readings\<close>

lemma BME280_compensate_H_bound: "uint (BME280_compensate_H_int32 c1 c2 t_fine adc_H) \<le> 102400"
proof -
  obtain v0 where v0: "BME280_compensate_H_int32 c1 c2 t_fine adc_H =
      signed_drop_bit 12 (let v = (if sint v0 < 0 then 0 else v0) in
        if sint v > 419430400 then 419430400 else v)"
    unfolding BME280_compensate_H_int32_def Let_def by blast
  define v :: u32 where "v = (let v = (if sint v0 < 0 then 0 else v0) in
    if sint v > 419430400 then 419430400 else v)"
  have v: "0 \<le> sint v" "sint v \<le> 419430400" by (auto simp: v_def Let_def)
  then have "0 \<le> sint v div 4096" "sint v div 4096 \<le> 102400" by simp_all
  moreover have "sint (signed_drop_bit 12 v) = sint v div 4096"
    by (simp add: sint_signed_drop_bit_eq drop_bit_eq_div)
  ultimately have "0 \<le> sint (signed_drop_bit 12 v)" "sint (signed_drop_bit 12 v) \<le> 102400" by simp_all
  moreover have "uint x = sint x" if "0 \<le> sint x" for x :: u32
    using that sint_lt [of x] by (simp only: uint_sint) (rule take_bit_int_eq_self, simp_all)
  ultimately show ?thesis using v0 v_def by simp
qed

lemma Bme_format_humidity_bounds:
  assumes "uint v \<le> 102400" and "bme_humidity_decimal_places p \<le> 13"
  shows "0 \<le> Bme_format_humidity p v \<and> Bme_format_humidity p v \<le> 100"
proof -
  let ?n = "bme_humidity_decimal_places p"
  have r: "0 \<le> (of_int (uint v) / 1024 :: rat)" "(of_int (uint v) / 1024 :: rat) \<le> 100"
  proof -
    have "(of_int (uint v) :: rat) \<le> of_int 102400" using assms(1) by (simp only: of_int_le_iff)
    then show "(of_int (uint v) / 1024 :: rat) \<le> 100" by simp
    have "(of_int 0 :: rat) \<le> of_int (uint v)" by (simp only: of_int_le_iff uint_ge_0)
    then show "0 \<le> (of_int (uint v) / 1024 :: rat)" by simp
  qed
  have h: "float64 100 = 100" using fl_int [of 100 53 1074] by simp
  have f: "0 \<le> float64 (of_int (uint v) / 1024)" "float64 (of_int (uint v) / 1024) \<le> 100"
    using fl_nonneg [OF r(1), of 53 1074] fl_mono [OF r(2), of 53 1074] h by simp_all
  have "(10 :: int) ^ ?n \<le> 10 ^ 13" using assms(2) by (intro power_increasing) simp_all
  then have "MathOps_round_floor (of_int 100) ?n = of_int 100" "MathOps_round_floor (of_int 0) ?n = of_int 0"
    by (intro MathOps_round_floor_int; simp)+
  then have "0 \<le> MathOps_round_floor (float64 (of_int (uint v) / 1024)) ?n"
    "MathOps_round_floor (float64 (of_int (uint v) / 1024)) ?n \<le> 100"
    using MathOps_round_floor_mono [OF f(1), of ?n] MathOps_round_floor_mono [OF f(2), of ?n] by simp_all
  with f show ?thesis by (simp add: Bme_format_humidity_def Let_def)
qed

text \<open>
  The trimming values H4 and H5 are 12-bit signed numbers in the registers; the code takes them for
  unsigned ones.
\<close>

lemma CalibrationData2_unsigned:
  "sint (dig_H4 (CalibrationData2_of_bytes [0, 0, 0, 0xFF, 0xFF, 0xFF, 0])) = 4095"
  "sint (dig_H5 (CalibrationData2_of_bytes [0, 0, 0, 0xFF, 0xFF, 0xFF, 0])) = 4095"
  by code_simp+

text \<open>
  C34. Two readings in a row: the humidity is a percentage whatever the registers and the calibration
  hold, temperature and humidity come from the reading itself, and the pressure is compensated with the
  fine temperature of the reading before, the first one with that of creation, which is zero.
\<close>

theorem Bme_pressure_lags:
  assumes "rt_receive tr (replicate 8 0) RegisterData_address w = (OK, r1, w1)"
    and "rt_receive tr (replicate 8 0) RegisterData_address w1 = (OK, r2, w2)"
    and "bme_humidity_decimal_places (bme_params self) \<le> 13"
  shows "\<exists>self1 self2. Bme_read_data tr (self, w) = (OK, (self1, w1))
    \<and> Bme_read_data tr (self1, w1) = (OK, (self2, w2))
    \<and> (let c = bme_calibration1 self; p = bme_params self;
           t1 = BME280_compensate_T_int32 c (format_20bit_data (r1 ! 3) (r1 ! 4) (r1 ! 5));
           t2 = BME280_compensate_T_int32 c (format_20bit_data (r2 ! 3) (r2 ! 4) (r2 ! 5))
       in bme_pressure (bme_data self1) = Bme_format_pressure p
            (BME280_compensate_P_int64 c (bme_t_fine self) (format_20bit_data (r1 ! 0) (r1 ! 1) (r1 ! 2)))
        \<and> bme_pressure (bme_data self2) = Bme_format_pressure p
            (BME280_compensate_P_int64 c (snd t1) (format_20bit_data (r2 ! 0) (r2 ! 1) (r2 ! 2)))
        \<and> bme_temperature (bme_data self2) = float64 (of_int (sint (fst t2)) / 100)
        \<and> bme_t_fine self2 = snd t2
        \<and> 0 \<le> bme_humidity (bme_data self1) \<and> bme_humidity (bme_data self1) \<le> 100
        \<and> 0 \<le> bme_humidity (bme_data self2) \<and> bme_humidity (bme_data self2) \<le> 100)"
  using assms
  by (simp add: Bme_read_data_def Let_def case_prod_beta
      Bme_format_humidity_bounds [OF BME280_compensate_H_bound])

text \<open>
  The trimming values of the data sheet's example and two equal frames: the same measurement gives two
  pressures, because only the second one uses a temperature.
\<close>

definition sample_bme :: Bme where
  "sample_bme = (Bme_zero forced_params)\<lparr>bme_calibration1 :=
     \<lparr>dig_T1 = 27504, dig_T2 = 26435, dig_T3 = - 1000, dig_P1 = 36477, dig_P2 = - 10685,
      dig_P3 = 3024, dig_P4 = 2855, dig_P5 = 140, dig_P6 = - 7, dig_P7 = 15500, dig_P8 = - 14600,
      dig_P9 = 6000, dig_H1 = 75\<rparr>\<rparr>"

definition sample_frame :: bytes where
  "sample_frame = [0x65, 0x5A, 0xC0, 0x7E, 0xED, 0x00, 0x69, 0x00]"

definition sampled :: "unit RegisterTransceiver" where
  "sampled = \<lparr>rt_send = (\<lambda>_ _ w. (OK, w)), rt_receive = (\<lambda>_ _ w. (OK, sample_frame, w))\<rparr>"

lemma sample_pressures:
  "let c = bme_calibration1 sample_bme; p = format_20bit_data 0x65 0x5A 0xC0;
       t = BME280_compensate_T_int32 c (format_20bit_data 0x7E 0xED 0x00)
   in fst t = 2508 \<and> BME280_compensate_P_int64 c 0 p \<noteq> BME280_compensate_P_int64 c (snd t) p"
  by code_simp

theorem Bme_pressure_lags_witness:
  "\<exists>self1 self2. Bme_read_data sampled (sample_bme, ()) = (OK, (self1, ()))
    \<and> Bme_read_data sampled (self1, ()) = (OK, (self2, ()))
    \<and> bme_pressure (bme_data self1) = Bme_format_pressure forced_params
         (BME280_compensate_P_int64 (bme_calibration1 sample_bme) 0 (format_20bit_data 0x65 0x5A 0xC0))"
  using Bme_pressure_lags [of sampled "()" sample_frame "()" sample_frame "()" sample_bme]
  by (auto simp: sampled_def sample_bme_def sample_frame_def Bme_zero_def forced_params_def Let_def)

end
