(* ===== verification/Sync.thy ===== *)
theory Sync
  imports Prelude
begin

text \<open>
  The synchronisation primitives of \<open>components/ocs_core\<close> on FreeRTOS tasks: mutexes
  (static_mutex.cpp), the condition variable (cond.cpp) and the asynchronous flags
  (basic_async_flag.cpp, async_flag.cpp, async_flag_isr.cpp). The calls that can block are split where
  other tasks can run, and a step relation interleaves the tasks.
\<close>

section \<open>FreeRTOS\<close>

text \<open>
  Of the kernel: the notification count of every task and the owner of the mutex under study. Tasks are
  numbers. What blocks is \<open>None\<close>.
\<close>

record rtos =
  rt_notify :: "nat \<Rightarrow> nat"
  rt_owner :: "nat option"

definition xTaskNotifyGive :: "nat \<Rightarrow> rtos \<Rightarrow> bool \<times> rtos" where
  "xTaskNotifyGive t r = (True, r\<lparr>rt_notify := (rt_notify r)(t := rt_notify r t + 1)\<rparr>)"

text \<open>\<^verbatim>\<open>ulTaskNotifyTake(pdTRUE, wait)\<close>; \<open>expired\<close> says that the wait is over.\<close>

definition ulTaskNotifyTake :: "nat \<Rightarrow> bool \<Rightarrow> rtos \<Rightarrow> (nat \<times> rtos) option" where
  "ulTaskNotifyTake me expired r =
     (if rt_notify r me \<noteq> 0 then Some (rt_notify r me, r\<lparr>rt_notify := (rt_notify r)(me := 0)\<rparr>)
      else if expired then Some (0, r) else None)"

definition xSemaphoreTake :: "nat \<Rightarrow> bool \<Rightarrow> rtos \<Rightarrow> (bool \<times> rtos) option" where
  "xSemaphoreTake me expired r =
     (if rt_owner r = None then Some (True, r\<lparr>rt_owner := Some me\<rparr>)
      else if expired then Some (False, r) else None)"

definition xSemaphoreGive :: "nat \<Rightarrow> rtos \<Rightarrow> bool \<times> rtos" where
  "xSemaphoreGive me r =
     (if rt_owner r = Some me then (True, r\<lparr>rt_owner := None\<rparr>) else (False, r))"

section \<open>Mutex\<close>

definition StaticMutex_lock :: "nat \<Rightarrow> bool \<Rightarrow> rtos \<Rightarrow> (status_code \<times> rtos) option" where
  "StaticMutex_lock me expired r =
     map_option (\<lambda>(ok, r'). (if \<not> ok then Error else OK, r')) (xSemaphoreTake me expired r)"

definition StaticMutex_unlock :: "nat \<Rightarrow> rtos step" where
  "StaticMutex_unlock me r = (case xSemaphoreGive me r of (ok, r') \<Rightarrow> (if \<not> ok then Error else OK, r'))"

section \<open>Cond\<close>

record Cond =
  cond_tasks :: "nat list"

definition Cond_init :: Cond where
  "Cond_init = \<lparr>cond_tasks = []\<rparr>"

definition Cond_append_task :: "nat \<Rightarrow> Cond \<Rightarrow> Cond" where
  "Cond_append_task me c = c\<lparr>cond_tasks := cond_tasks c @ [me]\<rparr>"

text \<open>
  \<^verbatim>\<open>wait\<close> up to the point where it sleeps (an error returns at once), and from where the count
  is there.
\<close>

definition Cond_wait_enter :: "nat \<Rightarrow> (Cond \<times> rtos) step" where
  "Cond_wait_enter me cr =
     (case StaticMutex_unlock me (snd cr) of (code, r) \<Rightarrow> (code, (Cond_append_task me (fst cr), r)))"

definition Cond_wait_leave :: "nat \<Rightarrow> nat \<Rightarrow> rtos \<Rightarrow> (status_code \<times> rtos) option" where
  "Cond_wait_leave me count r =
     map_option (\<lambda>(code, r'). (if code \<noteq> OK then code else if count \<noteq> 0 then OK else Error, r'))
       (StaticMutex_lock me False r)"

text \<open>Both are called with a task to notify.\<close>

definition Cond_signal_front :: "(Cond \<times> rtos) step" where
  "Cond_signal_front cr =
     (case cr of (c, r) \<Rightarrow>
        let task = hd (cond_tasks c);
            c' = c\<lparr>cond_tasks := tl (cond_tasks c)\<rparr>
        in case xTaskNotifyGive task r of
             (ok, r') \<Rightarrow> (if \<not> ok then Error else OK, (c', r')))"

definition Cond_signal :: "(Cond \<times> rtos) step" where
  "Cond_signal cr = (if cond_tasks (fst cr) \<noteq> [] then Cond_signal_front cr else (OK, cr))"

function Cond_broadcast :: "Cond \<times> rtos \<Rightarrow> status_code \<times> (Cond \<times> rtos)" where
  "Cond_broadcast cr =
     (if cond_tasks (fst cr) \<noteq> [] then
        (case Cond_signal_front cr of
           (code, cr') \<Rightarrow> if code \<noteq> OK then (code, cr') else Cond_broadcast cr')
      else (OK, cr))"
  by pat_completeness auto

termination
  by (relation "measure (\<lambda>cr. length (cond_tasks (fst cr)))")
    (auto simp: Cond_signal_front_def Let_def split: prod.splits)

declare Cond_broadcast.simps [simp del]

section \<open>Asynchronous flags\<close>

record BasicAsyncFlag =
  af_task_to_notify :: "nat option"

definition BasicAsyncFlag_init :: BasicAsyncFlag where
  "BasicAsyncFlag_init = \<lparr>af_task_to_notify = None\<rparr>"

definition BasicAsyncFlag_wait_store :: "nat \<Rightarrow> BasicAsyncFlag \<Rightarrow> BasicAsyncFlag" where
  "BasicAsyncFlag_wait_store me f = f\<lparr>af_task_to_notify := Some me\<rparr>"

definition BasicAsyncFlag_wait_take :: "nat \<Rightarrow> bool \<Rightarrow> rtos \<Rightarrow> (status_code \<times> rtos) option" where
  "BasicAsyncFlag_wait_take me expired r =
     map_option (\<lambda>(count, r'). (if count \<noteq> 0 then OK else Error, r')) (ulTaskNotifyTake me expired r)"

definition BasicAsyncFlag_acquire_task :: "BasicAsyncFlag \<Rightarrow> nat option \<times> BasicAsyncFlag" where
  "BasicAsyncFlag_acquire_task f = (af_task_to_notify f, f\<lparr>af_task_to_notify := None\<rparr>)"

definition AsyncFlag_signal :: "(BasicAsyncFlag \<times> rtos) step" where
  "AsyncFlag_signal fr =
     (case BasicAsyncFlag_acquire_task (fst fr) of
        (None, f') \<Rightarrow> (Error, (f', snd fr))
      | (Some t, f') \<Rightarrow>
          (case xTaskNotifyGive t (snd fr) of (ok, r') \<Rightarrow> (if \<not> ok then Error else OK, (f', r'))))"

text \<open>From an interrupt; \<open>woken\<close> says that the notified task has the higher priority.\<close>

definition AsyncFlagIsr_signal :: "(nat \<Rightarrow> bool) \<Rightarrow> (BasicAsyncFlag \<times> rtos) step" where
  "AsyncFlagIsr_signal woken fr =
     (case BasicAsyncFlag_acquire_task (fst fr) of
        (None, f') \<Rightarrow> (Error, (f', snd fr))
      | (Some t, f') \<Rightarrow>
          (if woken t then IsrYield else OK, (f', snd (xTaskNotifyGive t (snd fr)))))"

section \<open>Interleaving on the condition variable\<close>

datatype place = Outside | Holding | Sleeping | Relocking nat

record sync_state =
  ss_cond :: Cond
  ss_rtos :: rtos
  ss_place :: "nat \<Rightarrow> place"

definition sync_start :: sync_state where
  "sync_start = \<lparr>ss_cond = Cond_init, ss_rtos = \<lparr>rt_notify = (\<lambda>_. 0), rt_owner = None\<rparr>,
     ss_place = (\<lambda>_. Outside)\<rparr>"

text \<open>
  The first argument says whether waits time out. As the remark of the header file asks, the mutex is
  held when waiting and signalling.
\<close>

inductive sync_step :: "bool \<Rightarrow> sync_state \<Rightarrow> sync_state \<Rightarrow> bool" for timeouts where
  lock: "ss_place s t = Outside \<Longrightarrow> StaticMutex_lock t False (ss_rtos s) = Some (OK, r) \<Longrightarrow>
    sync_step timeouts s (s\<lparr>ss_rtos := r, ss_place := (ss_place s)(t := Holding)\<rparr>)"
| unlock: "ss_place s t = Holding \<Longrightarrow> StaticMutex_unlock t (ss_rtos s) = (OK, r) \<Longrightarrow>
    sync_step timeouts s (s\<lparr>ss_rtos := r, ss_place := (ss_place s)(t := Outside)\<rparr>)"
| wait: "ss_place s t = Holding \<Longrightarrow> Cond_wait_enter t (ss_cond s, ss_rtos s) = (OK, (c, r)) \<Longrightarrow>
    sync_step timeouts s \<lparr>ss_cond = c, ss_rtos = r, ss_place = (ss_place s)(t := Sleeping)\<rparr>"
| wake: "ss_place s t = Sleeping \<Longrightarrow> ulTaskNotifyTake t False (ss_rtos s) = Some (n, r) \<Longrightarrow>
    sync_step timeouts s (s\<lparr>ss_rtos := r, ss_place := (ss_place s)(t := Relocking n)\<rparr>)"
| expire: "timeouts \<Longrightarrow> ss_place s t = Sleeping \<Longrightarrow> ulTaskNotifyTake t True (ss_rtos s) = Some (n, r) \<Longrightarrow>
    sync_step timeouts s (s\<lparr>ss_rtos := r, ss_place := (ss_place s)(t := Relocking n)\<rparr>)"
| relock: "ss_place s t = Relocking n \<Longrightarrow> Cond_wait_leave t n (ss_rtos s) = Some (code, r) \<Longrightarrow>
    sync_step timeouts s (s\<lparr>ss_rtos := r, ss_place := (ss_place s)(t := Holding)\<rparr>)"
| signal: "ss_place s t = Holding \<Longrightarrow> Cond_signal (ss_cond s, ss_rtos s) = (code, (c, r)) \<Longrightarrow>
    sync_step timeouts s (s\<lparr>ss_cond := c, ss_rtos := r\<rparr>)"
| broadcast: "ss_place s t = Holding \<Longrightarrow> Cond_broadcast (ss_cond s, ss_rtos s) = (code, (c, r)) \<Longrightarrow>
    sync_step timeouts s (s\<lparr>ss_cond := c, ss_rtos := r\<rparr>)"

inductive sync_reach :: "bool \<Rightarrow> sync_state \<Rightarrow> bool" for timeouts where
  start: "sync_reach timeouts sync_start"
| step: "sync_reach timeouts s \<Longrightarrow> sync_step timeouts s s' \<Longrightarrow> sync_reach timeouts s'"

lemmas sync_defs = StaticMutex_lock_def StaticMutex_unlock_def xSemaphoreTake_def xSemaphoreGive_def
  ulTaskNotifyTake_def xTaskNotifyGive_def Cond_wait_enter_def Cond_wait_leave_def Cond_append_task_def

lemma Cond_signal_front_eq:
  "cond_tasks c = t # ts \<Longrightarrow> Cond_signal_front (c, r)
     = (OK, (c\<lparr>cond_tasks := ts\<rparr>, r\<lparr>rt_notify := (rt_notify r)(t := rt_notify r t + 1)\<rparr>))"
  by (simp add: Cond_signal_front_def xTaskNotifyGive_def)

lemma Cond_broadcast_eq:
  "distinct (cond_tasks c) \<Longrightarrow> Cond_broadcast (c, r)
     = (OK, (c\<lparr>cond_tasks := []\<rparr>, r\<lparr>rt_notify := (\<lambda>t. rt_notify r t + (if t \<in> set (cond_tasks c) then 1 else 0))\<rparr>))"
proof (induction "cond_tasks c" arbitrary: c r)
  case Nil
  then show ?case by (subst Cond_broadcast.simps) simp
next
  case (Cons t ts)
  let ?c = "c\<lparr>cond_tasks := ts\<rparr>" and ?r = "r\<lparr>rt_notify := (rt_notify r)(t := rt_notify r t + 1)\<rparr>"
  have ct: "cond_tasks c = t # ts" using Cons.hyps(2) by simp
  have "Cond_broadcast (c, r) = Cond_broadcast (?c, ?r)"
    by (subst Cond_broadcast.simps) (simp add: ct Cond_signal_front_eq [OF ct])
  moreover have "t \<notin> set ts" using Cons.prems Cons.hyps(2) by (metis distinct.simps(2))
  moreover have "distinct ts" using Cons.prems Cons.hyps(2) by (metis distinct.simps(2))
  ultimately show ?case
    using Cons.hyps(1) [of ?c ?r] Cons.hyps(2) [symmetric] by (auto simp: fun_eq_iff)
qed

text \<open>
  Without timeouts: the queue is exactly the sleeping tasks that are not notified yet, and only sleeping
  tasks hold a notification, one at most.
\<close>

definition sync_inv :: "sync_state \<Rightarrow> bool" where
  "sync_inv s \<longleftrightarrow> distinct (cond_tasks (ss_cond s))
     \<and> (\<forall>t. t \<in> set (cond_tasks (ss_cond s)) \<longleftrightarrow> ss_place s t = Sleeping \<and> rt_notify (ss_rtos s) t = 0)
     \<and> (\<forall>t. rt_notify (ss_rtos s) t \<le> 1)
     \<and> (\<forall>t. rt_notify (ss_rtos s) t \<noteq> 0 \<longrightarrow> ss_place s t = Sleeping)
     \<and> (\<forall>t. rt_owner (ss_rtos s) = Some t \<longleftrightarrow> ss_place s t = Holding)"

lemma sync_inv_holder:
  assumes "sync_inv s" and "ss_place s t = Holding" and "ss_place s u = Holding" shows "t = u"
proof -
  have "rt_owner (ss_rtos s) = Some t" "rt_owner (ss_rtos s) = Some u"
    using assms by (auto simp: sync_inv_def)
  then show ?thesis by simp
qed

lemma sync_inv_step:
  assumes "sync_step False s s'" and "sync_inv s" shows "sync_inv s'"
  using assms
proof (cases rule: sync_step.cases)
  case (unlock t r)
  then show ?thesis using assms(2) sync_inv_holder [OF assms(2)]
    by (auto simp: sync_inv_def sync_defs split: if_splits)
next
  case (wait t c r)
  then show ?thesis using assms(2) sync_inv_holder [OF assms(2)]
    by (auto simp: sync_inv_def sync_defs split: if_splits)
next
  case (signal t code c r)
  show ?thesis
  proof (cases "cond_tasks (ss_cond s)")
    case Nil
    then show ?thesis using signal assms(2) by (auto simp: Cond_signal_def)
  next
    case (Cons u us)
    then show ?thesis
      using signal assms(2) Cond_signal_front_eq [OF Cons]
      by (auto simp: Cond_signal_def sync_inv_def split: if_splits)
  qed
next
  case (broadcast t code c r)
  then show ?thesis
    using assms(2) Cond_broadcast_eq [of "ss_cond s" "ss_rtos s"] by (auto simp: sync_inv_def)
qed (auto simp: sync_inv_def sync_defs split: if_splits)

lemma sync_reach_inv: "sync_reach False s \<Longrightarrow> sync_inv s"
proof (induction rule: sync_reach.induct)
  case start
  show ?case by (simp add: sync_inv_def sync_start_def Cond_init_def)
next
  case (step s s')
  then show ?case using sync_inv_step by blast
qed

lemmas sync_reach_by = sync_reach.step [OF _ sync_step.lock] sync_reach.step [OF _ sync_step.unlock]
  sync_reach.step [OF _ sync_step.wait] sync_reach.step [OF _ sync_step.expire]
  sync_reach.step [OF _ sync_step.relock]

section \<open>What the primitives guarantee\<close>



text \<open>Two tasks wait, the first one's wait expires, a third task signals.\<close>

definition sync_two_wait :: sync_state where
  "sync_two_wait = \<lparr>ss_cond = \<lparr>cond_tasks = [1, 2]\<rparr>,
     ss_rtos = \<lparr>rt_notify = (\<lambda>_. 0), rt_owner = Some 0\<rparr>,
     ss_place = (\<lambda>_. Outside)(2 := Sleeping, 0 := Holding)\<rparr>"

lemma sync_two_wait_reach: "sync_reach True sync_two_wait"
proof -
  let ?r = "\<lambda>w. \<lparr>rt_notify = (\<lambda>_. 0 :: nat), rt_owner = w\<rparr>"
  let ?s = "\<lambda>q w f. \<lparr>ss_cond = \<lparr>cond_tasks = q\<rparr>, ss_rtos = ?r w, ss_place = f\<rparr>"
  let ?out = "\<lambda>_ :: nat. Outside"
  have 0: "sync_reach True (?s [] None ?out)"
    using sync_reach.start [of True] by (simp add: sync_start_def Cond_init_def)
  have 1: "sync_reach True (?s [] (Some 1) (?out(1 := Holding)))"
    using sync_reach_by(1) [OF 0, of 1 "?r (Some 1)"] by (simp add: sync_defs)
  have 2: "sync_reach True (?s [1] None (?out(1 := Sleeping)))"
    using sync_reach_by(3) [OF 1, of 1 "\<lparr>cond_tasks = [1]\<rparr>" "?r None"] by (simp add: sync_defs)
  have 3: "sync_reach True (?s [1] (Some 2) (?out(1 := Sleeping, 2 := Holding)))"
    using sync_reach_by(1) [OF 2, of 2 "?r (Some 2)"] by (simp add: sync_defs)
  have 4: "sync_reach True (?s [1, 2] None (?out(1 := Sleeping, 2 := Sleeping)))"
    using sync_reach_by(3) [OF 3, of 2 "\<lparr>cond_tasks = [1, 2]\<rparr>" "?r None"] by (simp add: sync_defs)
  have 5: "sync_reach True (?s [1, 2] None (?out(2 := Sleeping, 1 := Relocking 0)))"
    using sync_reach_by(4) [OF 4, of 1 0 "?r None"] by (simp add: sync_defs fun_upd_twist)
  have 6: "sync_reach True (?s [1, 2] (Some 1) (?out(2 := Sleeping, 1 := Holding)))"
    using sync_reach_by(5) [OF 5, of 1 0 Error "?r (Some 1)"] by (simp add: sync_defs)
  have 7: "sync_reach True (?s [1, 2] None (?out(2 := Sleeping, 1 := Outside)))"
    using sync_reach_by(2) [OF 6, of 1 "?r None"] by (simp add: sync_defs)
  have "(?out(2 := Sleeping, 1 := Outside)) = ?out(2 := Sleeping)" by (simp add: fun_eq_iff)
  then have 8: "sync_reach True (?s [1, 2] (Some 0) (?out(2 := Sleeping, 0 := Holding)))"
    using sync_reach_by(1) [OF 7, of 0 "?r (Some 0)"] by (simp add: sync_defs)
  then show ?thesis by (simp add: sync_two_wait_def)
qed

text \<open>
  With a timeout a wake-up can be lost: \<^verbatim>\<open>wait\<close> does not leave the queue when it expires, so
  a later signal reports \<open>OK\<close>, goes to a task that is long outside, and the task that sleeps is not
  woken, although it is in the queue.
\<close>

theorem Cond_timeout_loses_signal:
  "\<exists>s t c r. sync_reach True s \<and> ss_place s t = Holding
    \<and> ss_place s 2 = Sleeping \<and> 2 \<in> set (cond_tasks (ss_cond s))
    \<and> Cond_signal (ss_cond s, ss_rtos s) = (OK, (c, r))
    \<and> ss_place s 1 = Outside \<and> rt_notify r 1 = 1 \<and> rt_notify r 2 = 0
    \<and> ulTaskNotifyTake 2 False r = None"
proof -
  let ?c = "\<lparr>cond_tasks = [2]\<rparr>" and ?r = "\<lparr>rt_notify = (\<lambda>_. 0)(1 := 1 :: nat), rt_owner = Some 0\<rparr>"
  have "Cond_signal (ss_cond sync_two_wait, ss_rtos sync_two_wait) = (OK, (?c, ?r))"
    by (simp add: sync_two_wait_def Cond_signal_def Cond_signal_front_def xTaskNotifyGive_def)
  moreover have "ulTaskNotifyTake 2 False ?r = None" by (simp add: ulTaskNotifyTake_def)
  ultimately show ?thesis
    using sync_two_wait_reach
    by (intro exI [of _ sync_two_wait] exI [of _ 0] exI [of _ ?c] exI [of _ ?r])
      (simp add: sync_two_wait_def)
qed

text \<open>
  An asynchronous flag is a rendezvous in one order only: a signal after \<^verbatim>\<open>wait\<close> stored its task
  wakes it, once; a signal before reports an error, leaves nothing behind, and the wait that follows does
  not end by itself.
\<close>

theorem AsyncFlag_rendezvous:
  assumes "rt_notify r me = 0"
  shows "(\<exists>f r'. AsyncFlag_signal (BasicAsyncFlag_wait_store me f0, r) = (OK, (f, r'))
        \<and> AsyncFlagIsr_signal woken (BasicAsyncFlag_wait_store me f0, r)
            = (if woken me then IsrYield else OK, (f, r'))
        \<and> BasicAsyncFlag_wait_take me expired r' = Some (OK, r)
        \<and> AsyncFlag_signal (f, r') = (Error, (f, r')))
    \<and> AsyncFlag_signal (BasicAsyncFlag_init, r) = (Error, (BasicAsyncFlag_init, r))
    \<and> AsyncFlagIsr_signal woken (BasicAsyncFlag_init, r) = (Error, (BasicAsyncFlag_init, r))
    \<and> BasicAsyncFlag_wait_take me False r = None
    \<and> BasicAsyncFlag_wait_take me True r = Some (Error, r)"
  using assms
  by (simp add: AsyncFlag_signal_def AsyncFlagIsr_signal_def BasicAsyncFlag_acquire_task_def
      BasicAsyncFlag_wait_store_def BasicAsyncFlag_wait_take_def BasicAsyncFlag_init_def
      xTaskNotifyGive_def ulTaskNotifyTake_def fun_upd_idem)

theorem AsyncFlag_rendezvous_witness:
  "BasicAsyncFlag_wait_take 7 False \<lparr>rt_notify = (\<lambda>_. 0), rt_owner = None\<rparr> = None"
  using AsyncFlag_rendezvous [of "\<lparr>rt_notify = (\<lambda>_. 0), rt_owner = None\<rparr>" 7 BasicAsyncFlag_init "\<lambda>_. True" False]
  by simp

end
