(* ===== verification/Security.thy ===== *)
theory Security
  imports OneWire
begin

text \<open>
  \<open>components/ocs_security\<close>: the SHA engine over mbedTLS (mbedtls_sha_engine.cpp), the generator
  that collects its input (sha_generator.cpp) and the textual form of a digest (sha_to_hex_str.cpp), with
  the digest lengths of \<open>components/ocs_algo/sha_engine_ops.h\<close>; and the device identifier of
  \<open>components/ocs_system/device_id.cpp\<close>, which is one.
\<close>

section \<open>Digests\<close>

datatype Algorithm = SHA1 | SHA256 | SHA512

definition ShaEngineOps_hash_lenght :: "Algorithm \<Rightarrow> nat" where
  "ShaEngineOps_hash_lenght a = (case a of SHA1 \<Rightarrow> 20 | SHA256 \<Rightarrow> 32 | SHA512 \<Rightarrow> 64)"

text \<open>
  The three functions of mbedTLS: the digest, or \<open>None\<close> for a result that is not zero.
\<close>

type_synonym mbedtls_sha = "Algorithm \<Rightarrow> bytes \<Rightarrow> bytes option"

text \<open>\<open>buf\<close> is what the digest is written over. The chip has SHA-512 when \<open>sha512\<close>.\<close>

definition MbedTlsShaEngine_generate ::
    "mbedtls_sha \<Rightarrow> bool \<Rightarrow> Algorithm \<Rightarrow> bytes \<Rightarrow> bytes \<Rightarrow> status_code \<times> bytes" where
  "MbedTlsShaEngine_generate sha sha512 algorithm buf src =
     (if algorithm = SHA512 \<and> \<not> sha512 then (InvalidArg, buf)
      else case sha algorithm src of
        None \<Rightarrow> (Error, buf)
      | Some digest \<Rightarrow> (OK, digest @ drop (length digest) buf))"

record ShaGenerator =
  sg_algorithm :: Algorithm
  sg_src :: bytes
  sg_sha :: bytes

definition ShaGenerator_init :: "Algorithm \<Rightarrow> ShaGenerator" where
  "ShaGenerator_init a =
     \<lparr>sg_algorithm = a, sg_src = [], sg_sha = replicate (ShaEngineOps_hash_lenght a) 0\<rparr>"

fun ShaGenerator_add :: "bytes \<Rightarrow> ShaGenerator \<Rightarrow> ShaGenerator" where
  "ShaGenerator_add [] g = g"
| "ShaGenerator_add (b # bs) g = ShaGenerator_add bs (g\<lparr>sg_src := sg_src g @ [b]\<rparr>)"

definition ShaGenerator_generate ::
    "mbedtls_sha \<Rightarrow> bool \<Rightarrow> ShaGenerator \<Rightarrow> status_code \<times> ShaGenerator" where
  "ShaGenerator_generate sha sha512 g =
     (case MbedTlsShaEngine_generate sha sha512 (sg_algorithm g) (sg_sha g) (sg_src g) of
        (code, digest) \<Rightarrow> (code, g\<lparr>sg_sha := digest\<rparr>))"

section \<open>Text\<close>

text \<open>\<^verbatim>\<open>max_hash_length_\<close>; the buffer has one character more.\<close>

definition max_hash_length :: nat where
  "max_hash_length = ShaEngineOps_hash_lenght SHA512"

text \<open>
  \<^verbatim>\<open>sprintf(buf_ + n * 2, "%02X", sha[n])\<close>: two digits and the terminator. Writing behind the
  buffer is undefined.
\<close>

definition sprintf_hex2 :: "nat \<Rightarrow> u8 \<Rightarrow> string \<Rightarrow> string checked" where
  "sprintf_hex2 i b buf =
     (if i + 2 < length buf
      then Inr (buf[i := hex2 b ! 0, i + 1 := hex2 b ! 1, i + 2 := CHR 0x00])
      else Inl OutOfBounds)"

fun sha_to_hex_loop :: "nat \<Rightarrow> bytes \<Rightarrow> string \<Rightarrow> string checked" where
  "sha_to_hex_loop n [] buf = Inr buf"
| "sha_to_hex_loop n (b # bs) buf =
     (case sprintf_hex2 (n * 2) b buf of
        Inl e \<Rightarrow> Inl e
      | Inr buf' \<Rightarrow> sha_to_hex_loop (n + 1) bs buf')"

definition sha_to_hex_str :: "bytes \<Rightarrow> string checked" where
  "sha_to_hex_str sha =
     (if \<not> length sha \<le> max_hash_length then Inl AssertFailed
      else sha_to_hex_loop 0 sha (replicate (max_hash_length + 1) (CHR 0x00)))"

definition sha_c_str :: "string \<Rightarrow> string" where
  "sha_c_str buf = takeWhile (\<lambda>c. c \<noteq> CHR 0x00) buf"

section \<open>Device identifier\<close>

definition ascii :: "string \<Rightarrow> bytes" where
  "ascii s = map (\<lambda>c. of_nat (of_char c)) s"

text \<open>The constructor; \<open>mac\<close> is what \<^verbatim>\<open>esp_efuse_mac_get_default\<close> gives.\<close>

definition DeviceID_init :: "mbedtls_sha \<Rightarrow> bool \<Rightarrow> bytes option \<Rightarrow> string checked" where
  "DeviceID_init sha sha512 mac =
     (let g = ShaGenerator_add (ascii ''open-control-systems-'') (ShaGenerator_init SHA1);
          g = (case mac of None \<Rightarrow> g | Some m \<Rightarrow> ShaGenerator_add m g);
          g = ShaGenerator_add (ascii ''-device-id'') g
      in case ShaGenerator_generate sha sha512 g of
           (code, g) \<Rightarrow>
             if code \<noteq> OK then Inl AssertFailed
             else map_sum id sha_c_str (sha_to_hex_str (sg_sha g)))"

section \<open>Properties\<close>

lemma ShaGenerator_add_eq: "ShaGenerator_add bs g = g\<lparr>sg_src := sg_src g @ bs\<rparr>"
  by (induction bs arbitrary: g) simp_all

lemma hex2_chars: "hex2 b = [hex2 b ! 0, hex2 b ! 1]" "hex2 b ! 0 \<noteq> CHR 0x00" "hex2 b ! 1 \<noteq> CHR 0x00"
proof -
  have d: "hex_digit k \<noteq> CHR 0x00" if "k < 16" for k
  proof -
    have "\<forall>k\<in>set [0..<16]. hex_digit k \<noteq> CHR 0x00" by code_simp
    then show ?thesis using that by auto
  qed
  have "unat b div 16 < 16" using unat_u8_less [of b] by linarith
  then show "hex2 b ! 0 \<noteq> CHR 0x00" "hex2 b ! 1 \<noteq> CHR 0x00" by (simp_all add: hex2_def d)
qed (simp add: hex2_def)

text \<open>The buffer after the digits of a prefix.\<close>

definition hex_buf :: "string \<Rightarrow> nat \<Rightarrow> string" where
  "hex_buf digits len = digits @ replicate (len - length digits) (CHR 0x00)"

lemma sprintf_hex2_buf:
  assumes "length ds = i" and "i + 2 < len"
  shows "sprintf_hex2 i b (hex_buf ds len) = Inr (hex_buf (ds @ hex2 b) len)"
proof -
  obtain k where k: "len = i + Suc (Suc (Suc k))"
    using assms(2) by (metis add_2_eq_Suc' add_Suc_right less_iff_Suc_add plus_nat.simps(2) add_Suc)
  obtain x y where h: "hex2 b = [x, y]" using hex2_chars(1) by blast
  have "hex_buf ds len = ds @ CHR 0x00 # CHR 0x00 # CHR 0x00 # replicate k (CHR 0x00)"
    using k assms(1) by (simp only: hex_buf_def diff_add_inverse replicate_Suc)
  moreover have "len - length (ds @ hex2 b) = Suc k" using k assms(1) h by simp
  then have "hex_buf (ds @ hex2 b) len = ds @ [x, y] @ CHR 0x00 # replicate k (CHR 0x00)"
    by (simp only: hex_buf_def h replicate_Suc append_assoc)
  ultimately show ?thesis using assms(1) h by (simp add: sprintf_hex2_def list_update_append)
qed

lemma sha_to_hex_loop_eq:
  "length ds = 2 * n \<Longrightarrow> 2 * (n + length bs) < len
    \<Longrightarrow> sha_to_hex_loop n bs (hex_buf ds len) = Inr (hex_buf (ds @ concat (map hex2 bs)) len)"
proof (induction bs arbitrary: n ds)
  case (Cons b bs)
  have "sprintf_hex2 (n * 2) b (hex_buf ds len) = Inr (hex_buf (ds @ hex2 b) len)"
    using Cons.prems by (intro sprintf_hex2_buf) simp_all
  moreover have "length (ds @ hex2 b) = 2 * (n + 1)" using Cons.prems(1) by (simp add: hex2_def)
  ultimately show ?case using Cons.IH [of "ds @ hex2 b" "n + 1"] Cons.prems(2) by simp
qed simp

lemma sha_to_hex_loop_overrun:
  "length ds = 2 * n \<Longrightarrow> 2 * n < len \<Longrightarrow> len \<le> 2 * (n + length bs)
    \<Longrightarrow> sha_to_hex_loop n bs (hex_buf ds len) = Inl OutOfBounds"
proof (induction bs arbitrary: n ds)
  case (Cons b bs)
  show ?case
  proof (cases "2 * n + 2 < len")
    case True
    have "sprintf_hex2 (n * 2) b (hex_buf ds len) = Inr (hex_buf (ds @ hex2 b) len)"
      using Cons.prems True by (intro sprintf_hex2_buf) simp_all
    moreover have "length (ds @ hex2 b) = 2 * (n + 1)" using Cons.prems(1) by (simp add: hex2_def)
    ultimately show ?thesis using Cons.IH [of "ds @ hex2 b" "n + 1"] Cons.prems True by simp
  next
    case False
    then show ?thesis using Cons.prems by (simp add: sprintf_hex2_def hex_buf_def)
  qed
qed simp

text \<open>
  The textual form of a digest is its digits, for SHA-1 and SHA-256. For SHA-512, whose length the
  constructor accepts, the digits do not fit: the buffer is sized by the length in bytes, and the loop
  writes behind it.
\<close>

theorem sha_to_hex_str_fits_half:
  "sha_to_hex_str sha =
     (if length sha \<le> ShaEngineOps_hash_lenght SHA256 then Inr (hex_buf (concat (map hex2 sha)) 65)
      else if length sha \<le> ShaEngineOps_hash_lenght SHA512 then Inl OutOfBounds
      else Inl AssertFailed)"
proof -
  have z: "replicate 65 (CHR 0x00) = hex_buf [] 65" by (simp add: hex_buf_def)
  have "sha_to_hex_loop 0 sha (hex_buf [] 65) = Inr (hex_buf (concat (map hex2 sha)) 65)"
    if "length sha \<le> 32"
    using that sha_to_hex_loop_eq [of "[]" 0 sha 65] by simp
  moreover have "sha_to_hex_loop 0 sha (hex_buf [] 65) = Inl OutOfBounds" if "\<not> length sha \<le> 32"
    using that by (intro sha_to_hex_loop_overrun) simp_all
  ultimately show ?thesis
    by (simp add: sha_to_hex_str_def max_hash_length_def ShaEngineOps_hash_lenght_def z)
qed

lemma hex2_chars_all: "c \<in> set (hex2 b) \<Longrightarrow> c \<noteq> CHR 0x00"
  using hex2_chars [of b] by (metis empty_iff empty_set set_ConsD)

lemma sha_c_str_hex_buf: "sha_c_str (hex_buf (concat (map hex2 sha)) n) = concat (map hex2 sha)"
proof -
  have "\<forall>c\<in>set (concat (map hex2 sha)). c \<noteq> CHR 0x00"
  proof (induction sha)
    case (Cons b bs)
    then show ?case using hex2_chars [of b] by (metis (no_types, lifting) UnE concat.simps(2) list.simps(9)
          set_append set_ConsD empty_iff empty_set)
  qed simp
  then show ?thesis
    by (simp add: sha_c_str_def hex_buf_def takeWhile_append2 takeWhile_replicate del: set_concat)
qed

text \<open>
  The device identifier is the SHA-1 of the address between two constant strings, as digits; without an
  address it is the same for every device.
\<close>

lemma DeviceID_init_eq:
  assumes "sha SHA1 (ascii ''open-control-systems-'' @ (case mac of None \<Rightarrow> [] | Some m \<Rightarrow> m)
      @ ascii ''-device-id'') = Some d" and "length d = 20"
  shows "DeviceID_init sha sha512 mac = Inr (concat (map hex2 d))"
proof -
  have "sha_to_hex_str d = Inr (hex_buf (concat (map hex2 d)) 65)"
    using assms(2) sha_to_hex_loop_eq [of "[]" 0 d 65]
    by (simp add: sha_to_hex_str_def max_hash_length_def ShaEngineOps_hash_lenght_def hex_buf_def)
  then show ?thesis using assms
    by (cases mac) (simp_all add: DeviceID_init_def Let_def ShaGenerator_generate_def
        MbedTlsShaEngine_generate_def ShaGenerator_add_eq ShaGenerator_init_def
        ShaEngineOps_hash_lenght_def sha_c_str_hex_buf)
qed

lemma DeviceID_init_digits:
  assumes "\<And>src d. sha SHA1 src = Some d \<Longrightarrow> length d = 20" and "DeviceID_init sha sha512 mac = Inr i"
  shows "\<exists>d. length d = 20 \<and> i = concat (map hex2 d)"
proof -
  let ?src = "ascii ''open-control-systems-'' @ (case mac of None \<Rightarrow> [] | Some m \<Rightarrow> m) @ ascii ''-device-id''"
  obtain d where d: "sha SHA1 ?src = Some d"
    using assms(2) by (cases "sha SHA1 ?src"; cases mac)
      (auto simp: DeviceID_init_def Let_def ShaGenerator_generate_def MbedTlsShaEngine_generate_def
        ShaGenerator_add_eq ShaGenerator_init_def)
  then have "DeviceID_init sha sha512 mac = Inr (concat (map hex2 d))" using assms(1) by (intro DeviceID_init_eq)
  then show ?thesis using assms(1) [OF d] assms(2) by auto
qed

end
