(* ===== verification/Net.thy ===== *)
theory Net
  imports Sync Storage Security
begin

text \<open>
  \<open>components/ocs_net\<close>: the Wi-Fi station (sta_network.cpp) and access point (ap_network.cpp), the
  fan-out of network events (fanout_network_handler.cpp), the mDNS store and driver (mdns_store.cpp,
  default_mdns_driver.cpp, mdns_to_str.cpp), the signal strength (rssi_to_signal_strength.cpp); and the
  local network of \<open>components/ocs_pipeline/network\<close>. The Wi-Fi and mDNS calls of the ESP-IDF are
  parameters.
\<close>

section \<open>C strings\<close>

text \<open>\<^verbatim>\<open>strncpy\<close> into an array of \<open>n\<close> characters: padded, and without a terminator when it does not fit.\<close>

definition strncpy :: "nat \<Rightarrow> string \<Rightarrow> string" where
  "strncpy n s = take n s @ replicate (n - length s) (CHR 0x00)"

text \<open>Reading an array as a C string; without a terminator the read leaves the array.\<close>

definition string_of_array :: "string \<Rightarrow> string checked" where
  "string_of_array buf =
     (if CHR 0x00 \<in> set buf then Inr (takeWhile (\<lambda>c. c \<noteq> CHR 0x00) buf) else Inl OutOfBounds)"

section \<open>Network events\<close>

record 'w INetworkHandler =
  nh_handle_connect :: "'w \<Rightarrow> 'w"
  nh_handle_disconnect :: "'w \<Rightarrow> 'w"

fun FanoutNetworkHandler_handle_connect :: "'w INetworkHandler list \<Rightarrow> 'w \<Rightarrow> 'w" where
  "FanoutNetworkHandler_handle_connect [] w = w"
| "FanoutNetworkHandler_handle_connect (h # hs) w =
     FanoutNetworkHandler_handle_connect hs (nh_handle_connect h w)"

fun FanoutNetworkHandler_handle_disconnect :: "'w INetworkHandler list \<Rightarrow> 'w \<Rightarrow> 'w" where
  "FanoutNetworkHandler_handle_disconnect [] w = w"
| "FanoutNetworkHandler_handle_disconnect (h # hs) w =
     FanoutNetworkHandler_handle_disconnect hs (nh_handle_disconnect h w)"

definition FanoutNetworkHandler_add :: "'w INetworkHandler \<Rightarrow> 'w INetworkHandler list \<Rightarrow> 'w INetworkHandler list" where
  "FanoutNetworkHandler_add handler handlers = handlers @ [handler]"

text \<open>The events of the ESP-IDF, by base; the disconnection carries its reason, when it carries data.\<close>

datatype wifi_event = WIFI_EVENT_STA_START | WIFI_EVENT_STA_DISCONNECTED "nat option"
  | WIFI_EVENT_AP_START | WIFI_EVENT_AP_STOP | WIFI_EVENT_AP_STACONNECTED | WIFI_EVENT_AP_STADISCONNECTED
  | WIFI_EVENT_OTHER int

datatype ip_event = IP_EVENT_STA_GOT_IP | IP_EVENT_OTHER int

datatype esp_event = WIFI_EVENT wifi_event | IP_EVENT ip_event | OTHER_EVENT int

text \<open>The driver: a failed call is \<open>False\<close> or \<open>None\<close>.\<close>

record 'w wifi_driver =
  wd_start :: "'w \<Rightarrow> bool \<times> 'w"
  wd_stop :: "'w \<Rightarrow> bool \<times> 'w"
  wd_connect :: "'w \<Rightarrow> bool \<times> 'w"
  wd_ap_rssi :: "'w \<Rightarrow> int option"
  wd_ip_addr :: "'w \<Rightarrow> u32 option"

section \<open>Station\<close>

definition EVENT_BIT_CONNECTED :: u32 where "EVENT_BIT_CONNECTED = 1"
definition EVENT_BIT_FAILED :: u32 where "EVENT_BIT_FAILED = 2"

record StaNetworkParams =
  sp_max_retry_count :: u32
  sp_ssid :: string
  sp_password :: string

record StaNetwork =
  sta_params :: StaNetworkParams
  sta_bits :: u32
  sta_retry_count :: u32

text \<open>
  The constructor, with the two fields it configures; their sizes are those of \<^verbatim>\<open>wifi_config_t\<close>.
\<close>

definition StaNetwork_init :: "nat \<Rightarrow> nat \<Rightarrow> StaNetworkParams \<Rightarrow> string \<times> string \<times> StaNetwork" where
  "StaNetwork_init ssid_size password_size p =
     (strncpy ssid_size (sp_ssid p), strncpy password_size (sp_password p),
      \<lparr>sta_params = p, sta_bits = 0, sta_retry_count = 0\<rparr>)"

definition get_rssi :: "'w wifi_driver \<Rightarrow> 'w \<Rightarrow> int" where
  "get_rssi wd w = (case wd_ap_rssi wd w of None \<Rightarrow> 0 | Some rssi \<Rightarrow> rssi)"

definition StaNetwork_get_ip_addr :: "'w wifi_driver \<Rightarrow> StaNetwork \<Rightarrow> 'w \<Rightarrow> u32" where
  "StaNetwork_get_ip_addr wd n w =
     (if sta_bits n AND EVENT_BIT_CONNECTED = 0 then 0
      else case wd_ip_addr wd w of None \<Rightarrow> 0 | Some ip \<Rightarrow> ip)"

record StaInfo =
  si_ssid :: string
  si_rssi :: int
  si_ip_addr :: u32

definition StaNetwork_get_info :: "'w wifi_driver \<Rightarrow> StaNetwork \<Rightarrow> 'w \<Rightarrow> StaInfo" where
  "StaNetwork_get_info wd n w =
     \<lparr>si_ssid = sp_ssid (sta_params n), si_rssi = get_rssi wd w,
      si_ip_addr = StaNetwork_get_ip_addr wd n w\<rparr>"

definition StaNetwork_start :: "'w wifi_driver \<Rightarrow> 'w step" where
  "StaNetwork_start wd w = (case wd_start wd w of (ok, w') \<Rightarrow> (if \<not> ok then Error else OK, w'))"

definition StaNetwork_stop :: "'w wifi_driver \<Rightarrow> 'w step" where
  "StaNetwork_stop wd w = (case wd_stop wd w of (ok, w') \<Rightarrow> (if \<not> ok then Error else OK, w'))"

text \<open>
  \<^verbatim>\<open>xEventGroupWaitBits\<close> for one of the bits, leaving them set; without one it blocks (\<open>None\<close>)
  until the wait is over.
\<close>

definition xEventGroupWaitBits :: "u32 \<Rightarrow> bool \<Rightarrow> u32 \<Rightarrow> u32 option" where
  "xEventGroupWaitBits wanted expired bits =
     (if bits AND wanted \<noteq> 0 then Some bits else if expired then Some bits else None)"

definition StaNetwork_wait :: "bool \<Rightarrow> StaNetwork \<Rightarrow> status_code checked option" where
  "StaNetwork_wait expired n =
     (case xEventGroupWaitBits (EVENT_BIT_CONNECTED OR EVENT_BIT_FAILED) expired (sta_bits n) of
        None \<Rightarrow> None
      | Some bits \<Rightarrow>
          Some (if bits AND EVENT_BIT_CONNECTED \<noteq> 0 then Inr OK
                else if bits AND EVENT_BIT_FAILED \<noteq> 0 then Inr Error
                else Inl AssertFailed))"

definition StaNetwork_handle_sta_start :: "'w wifi_driver \<Rightarrow> StaNetwork \<times> 'w \<Rightarrow> StaNetwork \<times> 'w" where
  "StaNetwork_handle_sta_start wd nw = (fst nw, snd (wd_connect wd (snd nw)))"

definition StaNetwork_handle_sta_disconnected ::
    "'w wifi_driver \<Rightarrow> 'w INetworkHandler \<Rightarrow> nat option \<Rightarrow> StaNetwork \<times> 'w \<Rightarrow> (StaNetwork \<times> 'w) checked" where
  "StaNetwork_handle_sta_disconnected wd h data nw =
     (case data of
        None \<Rightarrow> Inl AssertFailed
      | Some _ \<Rightarrow>
          let (n, w) = nw;
              n = n\<lparr>sta_bits := sta_bits n AND NOT EVENT_BIT_CONNECTED\<rparr>;
              (n, w) =
                (if sta_retry_count n < sp_max_retry_count (sta_params n)
                 then (n\<lparr>sta_retry_count := sta_retry_count n + 1\<rparr>, snd (wd_connect wd w))
                 else (n\<lparr>sta_bits := sta_bits n OR EVENT_BIT_FAILED\<rparr>, w))
          in Inr (n, nh_handle_disconnect h w))"

definition StaNetwork_handle_wifi_event ::
    "'w wifi_driver \<Rightarrow> 'w INetworkHandler \<Rightarrow> wifi_event \<Rightarrow> StaNetwork \<times> 'w \<Rightarrow> (StaNetwork \<times> 'w) checked" where
  "StaNetwork_handle_wifi_event wd h e nw =
     (case e of
        WIFI_EVENT_STA_START \<Rightarrow> Inr (StaNetwork_handle_sta_start wd nw)
      | WIFI_EVENT_STA_DISCONNECTED data \<Rightarrow> StaNetwork_handle_sta_disconnected wd h data nw
      | _ \<Rightarrow> Inr nw)"

definition StaNetwork_handle_sta_got_ip ::
    "'w INetworkHandler \<Rightarrow> StaNetwork \<times> 'w \<Rightarrow> StaNetwork \<times> 'w" where
  "StaNetwork_handle_sta_got_ip h nw =
     ((fst nw)\<lparr>sta_retry_count := 0, sta_bits := sta_bits (fst nw) OR EVENT_BIT_CONNECTED\<rparr>,
      nh_handle_connect h (snd nw))"

definition StaNetwork_handle_ip_event ::
    "'w INetworkHandler \<Rightarrow> ip_event \<Rightarrow> StaNetwork \<times> 'w \<Rightarrow> StaNetwork \<times> 'w" where
  "StaNetwork_handle_ip_event h e nw =
     (case e of IP_EVENT_STA_GOT_IP \<Rightarrow> StaNetwork_handle_sta_got_ip h nw | _ \<Rightarrow> nw)"

definition StaNetwork_handle_event ::
    "'w wifi_driver \<Rightarrow> 'w INetworkHandler \<Rightarrow> esp_event \<Rightarrow> StaNetwork \<times> 'w \<Rightarrow> (StaNetwork \<times> 'w) checked" where
  "StaNetwork_handle_event wd h e nw =
     (case e of
        WIFI_EVENT e \<Rightarrow> StaNetwork_handle_wifi_event wd h e nw
      | IP_EVENT e \<Rightarrow> Inr (StaNetwork_handle_ip_event h e nw)
      | OTHER_EVENT _ \<Rightarrow> Inl AssertFailed)"

text \<open>The event loop task delivers the events one after the other.\<close>

fun StaNetwork_run :: "'w wifi_driver \<Rightarrow> 'w INetworkHandler \<Rightarrow> esp_event list \<Rightarrow> StaNetwork \<times> 'w
    \<Rightarrow> (StaNetwork \<times> 'w) checked" where
  "StaNetwork_run wd h [] nw = Inr nw"
| "StaNetwork_run wd h (e # es) nw =
     (case StaNetwork_handle_event wd h e nw of Inl f \<Rightarrow> Inl f | Inr nw' \<Rightarrow> StaNetwork_run wd h es nw')"

definition rssi_to_signal_strength :: "int \<Rightarrow> string" where
  "rssi_to_signal_strength rssi =
     (if rssi > -50 then ''excellent''
      else if rssi > -60 then ''good''
      else if rssi > -70 then ''fair''
      else if rssi > -80 then ''poor''
      else ''unreliable'')"

section \<open>Access point\<close>

record ApNetworkParams =
  app_ssid :: string
  app_password :: string
  app_channel :: u8
  app_max_connection :: u8

record ApNetwork =
  ap_params :: ApNetworkParams
  ap_cond :: Cond
  ap_code :: status_code
  ap_connection_count :: u8

definition ApNetwork_init :: "nat \<Rightarrow> nat \<Rightarrow> ApNetworkParams \<Rightarrow> string \<times> string \<times> ApNetwork" where
  "ApNetwork_init ssid_size password_size p =
     (strncpy ssid_size (app_ssid p), strncpy password_size (app_password p),
      \<lparr>ap_params = p, ap_cond = Cond_init, ap_code = Last, ap_connection_count = 0\<rparr>)"

record ApInfo =
  ai_channel :: u8
  ai_cur_connection :: u8
  ai_max_connection :: u8

definition ApNetwork_get_info :: "ApNetwork \<Rightarrow> ApInfo" where
  "ApNetwork_get_info n =
     \<lparr>ai_channel = app_channel (ap_params n), ai_cur_connection = ap_connection_count n,
      ai_max_connection = app_max_connection (ap_params n)\<rparr>"

definition ApNetwork_start :: "'w wifi_driver \<Rightarrow> 'w step" where
  "ApNetwork_start wd w = (case wd_start wd w of (ok, w') \<Rightarrow> (if \<not> ok then Error else OK, w'))"

definition ApNetwork_stop :: "'w wifi_driver \<Rightarrow> 'w step" where
  "ApNetwork_stop wd w = (case wd_stop wd w of (ok, w') \<Rightarrow> (if \<not> ok then Error else OK, w'))"

text \<open>
  The loop of \<^verbatim>\<open>wait\<close>, with the mutex held. The world changes while the task sleeps in
  \<open>cond_wait\<close>; \<open>code_of\<close> reads \<^verbatim>\<open>code_\<close> in it.
\<close>

partial_function (option) ApNetwork_wait ::
    "('v \<Rightarrow> status_code) \<Rightarrow> ('v \<Rightarrow> status_code \<times> 'v) \<Rightarrow> 'v \<Rightarrow> (status_code \<times> 'v) option" where
  "ApNetwork_wait code_of cond_wait v =
     (if code_of v = Last then
        (case cond_wait v of (code, v') \<Rightarrow>
           if code \<noteq> OK then Some (code, v') else ApNetwork_wait code_of cond_wait v')
      else Some (code_of v, v))"

text \<open>The state of an access point among the tasks, and the rest of the world.\<close>

type_synonym 'w ap_state = "ApNetwork \<times> rtos \<times> 'w"

definition ApNetwork_set_code :: "status_code \<Rightarrow> ('w \<Rightarrow> 'w) \<Rightarrow> 'w ap_state \<Rightarrow> 'w ap_state" where
  "ApNetwork_set_code code notify s =
     (case s of (n, r, w) \<Rightarrow>
        case Cond_broadcast (ap_cond n, r) of
          (_, (c, r')) \<Rightarrow> (n\<lparr>ap_code := code, ap_cond := c\<rparr>, r', notify w))"

definition ApNetwork_handle_start :: "'w INetworkHandler \<Rightarrow> 'w ap_state \<Rightarrow> 'w ap_state" where
  "ApNetwork_handle_start h = ApNetwork_set_code OK (nh_handle_connect h)"

definition ApNetwork_handle_stop :: "'w INetworkHandler \<Rightarrow> 'w ap_state \<Rightarrow> 'w ap_state" where
  "ApNetwork_handle_stop h = ApNetwork_set_code Error (nh_handle_disconnect h)"

definition ApNetwork_handle_connected :: "'w ap_state \<Rightarrow> 'w ap_state" where
  "ApNetwork_handle_connected s =
     (case s of (n, rw) \<Rightarrow> (n\<lparr>ap_connection_count := ap_connection_count n + 1\<rparr>, rw))"

definition ApNetwork_handle_disconnected :: "'w ap_state \<Rightarrow> 'w ap_state" where
  "ApNetwork_handle_disconnected s =
     (case s of (n, rw) \<Rightarrow> (n\<lparr>ap_connection_count := ap_connection_count n - 1\<rparr>, rw))"

definition ApNetwork_handle_wifi_event :: "'w INetworkHandler \<Rightarrow> wifi_event \<Rightarrow> 'w ap_state \<Rightarrow> 'w ap_state" where
  "ApNetwork_handle_wifi_event h e s =
     (case e of
        WIFI_EVENT_AP_START \<Rightarrow> ApNetwork_handle_start h s
      | WIFI_EVENT_AP_STOP \<Rightarrow> ApNetwork_handle_stop h s
      | WIFI_EVENT_AP_STACONNECTED \<Rightarrow> ApNetwork_handle_connected s
      | WIFI_EVENT_AP_STADISCONNECTED \<Rightarrow> ApNetwork_handle_disconnected s
      | _ \<Rightarrow> s)"

definition ApNetwork_handle_event :: "'w INetworkHandler \<Rightarrow> esp_event \<Rightarrow> 'w ap_state \<Rightarrow> 'w ap_state checked" where
  "ApNetwork_handle_event h e s =
     (case e of WIFI_EVENT e \<Rightarrow> Inr (ApNetwork_handle_wifi_event h e s) | _ \<Rightarrow> Inl AssertFailed)"

section \<open>mDNS\<close>

datatype Service = Http
datatype Proto = Tcp

record 'w IMdnsDriver =
  md_start :: "'w step"
  md_stop :: "'w step"
  md_add_service :: "Service \<Rightarrow> Proto \<Rightarrow> u32 \<Rightarrow> 'w step"
  md_add_txt_record :: "Service \<Rightarrow> Proto \<Rightarrow> string \<Rightarrow> string \<Rightarrow> 'w step"

fun mdns_service_to_str :: "Service \<Rightarrow> string" where
  "mdns_service_to_str Http = ''_http''"

fun mdns_proto_to_str :: "Proto \<Rightarrow> string" where
  "mdns_proto_to_str Tcp = ''_tcp''"

text \<open>The mDNS library.\<close>

record 'w mdns_api =
  ml_init :: "'w \<Rightarrow> bool \<times> 'w"
  ml_free :: "'w \<Rightarrow> 'w"
  ml_hostname_set :: "string \<Rightarrow> 'w \<Rightarrow> bool \<times> 'w"
  ml_instance_name_set :: "string \<Rightarrow> 'w \<Rightarrow> bool \<times> 'w"
  ml_service_add :: "string \<Rightarrow> string \<Rightarrow> u16 \<Rightarrow> 'w \<Rightarrow> bool \<times> 'w"
  ml_service_txt_item_set :: "string \<Rightarrow> string \<Rightarrow> string \<Rightarrow> string \<Rightarrow> 'w \<Rightarrow> bool \<times> 'w"

definition esp_step :: "('w \<Rightarrow> bool \<times> 'w) \<Rightarrow> 'w step" where
  "esp_step call w = (case call w of (ok, w') \<Rightarrow> (if \<not> ok then Error else OK, w'))"

definition DefaultMdnsDriver_start :: "'w mdns_api \<Rightarrow> string \<Rightarrow> string \<Rightarrow> 'w step" where
  "DefaultMdnsDriver_start ml hostname instance_name =
     run_steps [esp_step (ml_init ml), esp_step (ml_hostname_set ml hostname),
       esp_step (ml_instance_name_set ml instance_name)]"

definition DefaultMdnsDriver_stop :: "'w mdns_api \<Rightarrow> 'w step" where
  "DefaultMdnsDriver_stop ml w = (OK, ml_free ml w)"

definition DefaultMdnsDriver_add_service :: "'w mdns_api \<Rightarrow> Service \<Rightarrow> Proto \<Rightarrow> u32 \<Rightarrow> 'w step" where
  "DefaultMdnsDriver_add_service ml service proto port =
     esp_step (ml_service_add ml (mdns_service_to_str service) (mdns_proto_to_str proto) (ucast port))"

definition DefaultMdnsDriver_add_txt_record ::
    "'w mdns_api \<Rightarrow> Service \<Rightarrow> Proto \<Rightarrow> string \<Rightarrow> string \<Rightarrow> 'w step" where
  "DefaultMdnsDriver_add_txt_record ml service proto key v =
     esp_step (ml_service_txt_item_set ml (mdns_service_to_str service) (mdns_proto_to_str proto) key v)"

definition DefaultMdnsDriver_vtable :: "'w mdns_api \<Rightarrow> string \<Rightarrow> string \<Rightarrow> 'w IMdnsDriver" where
  "DefaultMdnsDriver_vtable ml hostname instance_name =
     \<lparr>md_start = DefaultMdnsDriver_start ml hostname instance_name, md_stop = DefaultMdnsDriver_stop ml,
      md_add_service = DefaultMdnsDriver_add_service ml, md_add_txt_record = DefaultMdnsDriver_add_txt_record ml\<rparr>"

definition NoopMdnsDriver_vtable :: "'w IMdnsDriver" where
  "NoopMdnsDriver_vtable =
     \<lparr>md_start = (\<lambda>w. (OK, w)), md_stop = (\<lambda>w. (OK, w)), md_add_service = (\<lambda>_ _ _ w. (OK, w)),
      md_add_txt_record = (\<lambda>_ _ _ _ w. (OK, w))\<rparr>"

record MdnsNode =
  mn_port :: u32
  mn_records :: "(string \<times> string) list"

text \<open>
  The two levels of \<^verbatim>\<open>unordered_map\<close>, as association lists. Every enumeration has one value, so
  neither has more than one entry and the order of iteration is the only one.
\<close>

type_synonym MdnsStore = "(Service \<times> (Proto \<times> MdnsNode) list) list"

text \<open>\<^verbatim>\<open>operator[]\<close>: update the value of a key, which is the default first when there is none.\<close>

fun map_at :: "'v \<Rightarrow> 'k \<Rightarrow> ('v \<Rightarrow> 'v) \<Rightarrow> ('k \<times> 'v) list \<Rightarrow> ('k \<times> 'v) list" where
  "map_at d k f [] = [(k, f d)]"
| "map_at d k f ((k', v) # kvs) = (if k' = k then (k', f v) # kvs else (k', v) # map_at d k f kvs)"

definition MdnsNode_init :: MdnsNode where
  "MdnsNode_init = \<lparr>mn_port = 0, mn_records = []\<rparr>"

definition MdnsStore_add_service :: "Service \<Rightarrow> Proto \<Rightarrow> u32 \<Rightarrow> MdnsStore \<Rightarrow> MdnsStore" where
  "MdnsStore_add_service service proto port =
     map_at [] service (map_at MdnsNode_init proto (\<lambda>node. node\<lparr>mn_port := port\<rparr>))"

definition MdnsStore_add_txt_record :: "Service \<Rightarrow> Proto \<Rightarrow> string \<Rightarrow> string \<Rightarrow> MdnsStore \<Rightarrow> MdnsStore" where
  "MdnsStore_add_txt_record service proto key v =
     map_at [] service
       (map_at MdnsNode_init proto (\<lambda>node. node\<lparr>mn_records := mn_records node @ [(key, v)]\<rparr>))"

fun MdnsStore_flush_records :: "'w IMdnsDriver \<Rightarrow> Service \<Rightarrow> Proto \<Rightarrow> (string \<times> string) list \<Rightarrow> 'w \<Rightarrow> 'w" where
  "MdnsStore_flush_records d service proto [] w = w"
| "MdnsStore_flush_records d service proto ((key, v) # records) w =
     (case md_add_txt_record d service proto key v w of
        (code, w') \<Rightarrow> MdnsStore_flush_records d service proto records w')"

fun MdnsStore_flush_protos :: "'w IMdnsDriver \<Rightarrow> Service \<Rightarrow> (Proto \<times> MdnsNode) list \<Rightarrow> 'w \<Rightarrow> 'w" where
  "MdnsStore_flush_protos d service [] w = w"
| "MdnsStore_flush_protos d service ((proto, node) # nodes) w =
     (case md_add_service d service proto (mn_port node) w of
        (code, w') \<Rightarrow>
          if code \<noteq> OK then MdnsStore_flush_protos d service nodes w'
          else MdnsStore_flush_protos d service nodes
                 (MdnsStore_flush_records d service proto (mn_records node) w'))"

fun MdnsStore_flush_services :: "'w IMdnsDriver \<Rightarrow> MdnsStore \<Rightarrow> 'w \<Rightarrow> 'w" where
  "MdnsStore_flush_services d [] w = w"
| "MdnsStore_flush_services d ((service, nodes) # services) w =
     MdnsStore_flush_services d services (MdnsStore_flush_protos d service nodes w)"

definition MdnsStore_flush :: "'w IMdnsDriver \<Rightarrow> MdnsStore \<Rightarrow> 'w step" where
  "MdnsStore_flush d s w = (OK, MdnsStore_flush_services d s w)"

definition MdnsStore_start :: "'w IMdnsDriver \<Rightarrow> MdnsStore \<Rightarrow> 'w step" where
  "MdnsStore_start d s w =
     (case md_start d w of (code, w') \<Rightarrow> if code = OK then MdnsStore_flush d s w' else (code, w'))"

definition MdnsStore_stop :: "'w IMdnsDriver \<Rightarrow> 'w step" where
  "MdnsStore_stop d = md_stop d"

section \<open>Local network\<close>

definition max_ssid_size :: nat where "max_ssid_size = 32"
definition max_password_size :: nat where "max_password_size = 64"

text \<open>
  \<^verbatim>\<open>initialize_network_\<close>: the parameters of the access point. The character arrays are turned
  into \<^verbatim>\<open>std::string\<close> as C strings.
\<close>

definition LocalNetworkPipeline_initialize ::
    "'w IStorage \<Rightarrow> string \<Rightarrow> string \<Rightarrow> u8 \<Rightarrow> u8 \<Rightarrow> 'w \<Rightarrow> (ApNetworkParams \<times> 'w) checked" where
  "LocalNetworkPipeline_initialize st fw_name device_id channel max_connection w =
     (let ssid = strncpy max_ssid_size (fw_name @ ''-'' @ device_id);
          (code, password, w) =
            (case StorageOps_prob_read st ''net_ap_pswd'' (replicate max_password_size 0) w of
               (code, buf, w) \<Rightarrow> (code, map (\<lambda>b. char_of (unat b)) buf, w));
          password = (if code \<noteq> OK
            then strncpy max_password_size (fw_name @ ''-'' @ take 7 device_id)
            else password)
      in case string_of_array ssid of
           Inl f \<Rightarrow> Inl f
         | Inr ssid \<Rightarrow>
             (case string_of_array password of
                Inl f \<Rightarrow> Inl f
              | Inr password \<Rightarrow>
                  Inr (\<lparr>app_ssid = ssid, app_password = password, app_channel = channel,
                        app_max_connection = max_connection\<rparr>, w)))"

definition LocalNetworkPipeline_start :: "'w wifi_driver \<Rightarrow> 'w step \<Rightarrow> 'w step" where
  "LocalNetworkPipeline_start wd wait w =
     (case and_then (ApNetwork_start wd) wait w of
        (code, w') \<Rightarrow> (code, if code \<noteq> OK then snd (ApNetwork_stop wd w') else w'))"

section \<open>The station follows its events\<close>

text \<open>
  What the events say: whether the last of connection and disconnection was a connection, how many
  disconnections came since the last connection, and whether there ever were more of them in a row than
  the station may retry.
\<close>

record sta_link =
  lk_connected :: bool
  lk_drops :: nat
  lk_gave_up :: bool

fun link_step :: "nat \<Rightarrow> esp_event \<Rightarrow> sta_link \<Rightarrow> sta_link" where
  "link_step m (IP_EVENT IP_EVENT_STA_GOT_IP) l = l\<lparr>lk_connected := True, lk_drops := 0\<rparr>"
| "link_step m (WIFI_EVENT (WIFI_EVENT_STA_DISCONNECTED d)) l =
     \<lparr>lk_connected = False, lk_drops = lk_drops l + 1, lk_gave_up = (lk_gave_up l \<or> m \<le> lk_drops l)\<rparr>"
| "link_step m e l = l"

definition sta_refines :: "sta_link \<Rightarrow> StaNetwork \<Rightarrow> bool" where
  "sta_refines l n \<longleftrightarrow>
     (let m = unat (sp_max_retry_count (sta_params n)) in
      bit (sta_bits n) 0 = lk_connected l \<and> bit (sta_bits n) 1 = lk_gave_up l
      \<and> unat (sta_retry_count n) = min m (lk_drops l))"

definition event_ok :: "esp_event \<Rightarrow> bool" where
  "event_ok e \<longleftrightarrow> (\<forall>b. e \<noteq> OTHER_EVENT b) \<and> e \<noteq> WIFI_EVENT (WIFI_EVENT_STA_DISCONNECTED None)"

lemma event_bit_iff [simp]:
  "bit EVENT_BIT_CONNECTED n \<longleftrightarrow> n = 0" "bit EVENT_BIT_FAILED n \<longleftrightarrow> n = 1"
proof -
  show "bit EVENT_BIT_CONNECTED n \<longleftrightarrow> n = 0" by (simp add: EVENT_BIT_CONNECTED_def bit_1_iff)
  have e: "EVENT_BIT_FAILED = push_bit 1 1" by (simp add: EVENT_BIT_FAILED_def)
  show "bit EVENT_BIT_FAILED n \<longleftrightarrow> n = 1" unfolding e bit_push_bit_iff bit_1_iff by auto
qed

lemma event_bits:
  "bit (b AND NOT EVENT_BIT_CONNECTED) n \<longleftrightarrow> bit b n \<and> n \<noteq> 0"
  "bit (b OR EVENT_BIT_CONNECTED) n \<longleftrightarrow> bit b n \<or> n = 0"
  "bit (b OR EVENT_BIT_FAILED) n \<longleftrightarrow> bit b n \<or> n = 1"
  by (auto simp only: bit_and_iff bit_or_iff bit_not_iff event_bit_iff dest: bit_imp_possible_bit)

lemma and_neq_0: "b AND c \<noteq> (0 :: u32) \<longleftrightarrow> (\<exists>n. bit b n \<and> bit c n)"
  by (simp only: bit_eq_iff bit_and_iff bit_0_eq bot_fun_def bot_bool_def)
    (use bit_imp_possible_bit in blast)

lemma event_bit_set:
  "b AND EVENT_BIT_CONNECTED \<noteq> 0 \<longleftrightarrow> bit b 0" "b AND EVENT_BIT_FAILED \<noteq> 0 \<longleftrightarrow> bit b 1"
  "b AND (EVENT_BIT_CONNECTED OR EVENT_BIT_FAILED) \<noteq> 0 \<longleftrightarrow> bit b 0 \<or> bit b 1"
  by (auto simp only: and_neq_0 bit_or_iff event_bit_iff)

lemma StaNetwork_wait_eq:
  "sta_refines l n \<Longrightarrow> StaNetwork_wait expired n =
     (if lk_connected l then Some (Inr OK) else if lk_gave_up l then Some (Inr Error)
      else if expired then Some (Inl AssertFailed) else None)"
  unfolding sta_refines_def Let_def StaNetwork_wait_def xEventGroupWaitBits_def event_bit_set by auto

lemma unat_Suc_less: "x < (y :: u32) \<Longrightarrow> unat (x + 1) = unat x + 1"
proof -
  assume "x < y"
  then have "unat x < unat y" by (simp add: word_less_nat_alt)
  then have "unat x + 1 < 4294967296" using unat_u32_less [of y] by linarith
  then have "unat x + unat (1 :: u32) < 2 ^ LENGTH(32)" by simp
  then show ?thesis by (simp only: unat_plus_if' if_True) simp
qed

lemma sta_refines_step:
  assumes "sta_refines l n" and "event_ok e"
  shows "\<exists>n' w'. StaNetwork_handle_event wd h e (n, w) = Inr (n', w')
    \<and> sta_refines (link_step (unat (sp_max_retry_count (sta_params n))) e l) n' \<and> sta_params n' = sta_params n"
proof (cases e)
  case (WIFI_EVENT e')
  show ?thesis
  proof (cases e')
    case (WIFI_EVENT_STA_DISCONNECTED d)
    then obtain reason where d: "d = Some reason" using assms(2) WIFI_EVENT by (cases d) (auto simp: event_ok_def)
    show ?thesis
    proof (cases "sta_retry_count n < sp_max_retry_count (sta_params n)")
      case True
      then have "lk_drops l < unat (sp_max_retry_count (sta_params n))"
        using assms(1) by (simp add: sta_refines_def Let_def word_less_nat_alt)
      then show ?thesis using assms(1) True WIFI_EVENT WIFI_EVENT_STA_DISCONNECTED d
        by (simp add: StaNetwork_handle_event_def StaNetwork_handle_wifi_event_def Let_def
            StaNetwork_handle_sta_disconnected_def sta_refines_def event_bits unat_Suc_less del: One_nat_def)
    next
      case False
      then have "unat (sp_max_retry_count (sta_params n)) \<le> lk_drops l"
        using assms(1) by (simp add: sta_refines_def Let_def word_less_nat_alt)
      then show ?thesis using assms(1) False WIFI_EVENT WIFI_EVENT_STA_DISCONNECTED d
        by (simp add: StaNetwork_handle_event_def StaNetwork_handle_wifi_event_def Let_def
            StaNetwork_handle_sta_disconnected_def sta_refines_def event_bits del: One_nat_def)
    qed
  qed (use assms WIFI_EVENT in \<open>simp_all add: StaNetwork_handle_event_def
      StaNetwork_handle_wifi_event_def StaNetwork_handle_sta_start_def\<close>)
next
  case (IP_EVENT e')
  then show ?thesis using assms
    by (cases e') (simp_all add: StaNetwork_handle_event_def StaNetwork_handle_ip_event_def
        StaNetwork_handle_sta_got_ip_def sta_refines_def Let_def event_bits del: One_nat_def)
next
  case (OTHER_EVENT b)
  then show ?thesis using assms(2) by (simp add: event_ok_def)
qed

lemma sta_refines_run:
  "sta_refines l n \<Longrightarrow> list_all event_ok es \<Longrightarrow> m = unat (sp_max_retry_count (sta_params n)) \<Longrightarrow>
    \<exists>n' w'. StaNetwork_run wd h es (n, w) = Inr (n', w') \<and> sta_refines (fold (link_step m) es l) n'
      \<and> sta_params n' = sta_params n"
proof (induction es arbitrary: l n w)
  case (Cons e es)
  obtain n' w' where e: "StaNetwork_handle_event wd h e (n, w) = Inr (n', w')"
      "sta_refines (link_step m e l) n'" "sta_params n' = sta_params n"
    using sta_refines_step [OF Cons.prems(1), of e wd h w] Cons.prems(2,3) by auto
  show ?case using Cons.IH [OF e(2), of w'] Cons.prems(2,3) e(1,3) by simp
qed simp

definition link_init :: sta_link where
  "link_init = \<lparr>lk_connected = False, lk_drops = 0, lk_gave_up = False\<rparr>"

definition StaNetwork_new :: "StaNetworkParams \<Rightarrow> StaNetwork" where
  "StaNetwork_new p = snd (snd (StaNetwork_init 32 64 p))"

lemma sta_refines_init: "sta_refines link_init (StaNetwork_new p)"
  by (simp add: sta_refines_def StaNetwork_new_def StaNetwork_init_def link_init_def)

text \<open>
  C8. The station refines what its events say, whatever the driver and the handler do: it never fails on
  a well-formed event, its connection bit is the last of connection and disconnection, its counter the
  disconnections in a row up to the limit; \<^verbatim>\<open>wait\<close> answers from that, and asserts when its time is
  over before either.
\<close>

theorem StaNetwork_refines_events:
  assumes "list_all event_ok es"
  shows "\<exists>n w'. StaNetwork_run wd h es (StaNetwork_new p, w) = Inr (n, w')
    \<and> (let l = fold (link_step (unat (sp_max_retry_count p))) es link_init in
        sta_refines l n
        \<and> StaNetwork_wait expired n =
            (if lk_connected l then Some (Inr OK) else if lk_gave_up l then Some (Inr Error)
             else if expired then Some (Inl AssertFailed) else None))"
proof -
  have p: "sta_params (StaNetwork_new p) = p" by (simp add: StaNetwork_new_def StaNetwork_init_def)
  obtain n w' where "StaNetwork_run wd h es (StaNetwork_new p, w) = Inr (n, w')"
      and r: "sta_refines (fold (link_step (unat (sp_max_retry_count p))) es link_init) n"
    using sta_refines_run [OF sta_refines_init assms, of "unat (sp_max_retry_count p)" p wd h w] p by auto
  then show ?thesis using StaNetwork_wait_eq [OF r] by (auto simp: Let_def)
qed

theorem StaNetwork_refines_events_witness:
  "\<forall>wd h w. \<exists>n w'. StaNetwork_run wd h [WIFI_EVENT WIFI_EVENT_STA_START, IP_EVENT IP_EVENT_STA_GOT_IP]
     (StaNetwork_new \<lparr>sp_max_retry_count = 5, sp_ssid = ''a'', sp_password = ''b''\<rparr>, w) = Inr (n, w')
     \<and> StaNetwork_wait False n = Some (Inr OK)"
proof -
  let ?es = "[WIFI_EVENT WIFI_EVENT_STA_START, IP_EVENT IP_EVENT_STA_GOT_IP]"
  have "list_all event_ok ?es" by (simp add: event_ok_def)
  from StaNetwork_refines_events [OF this, of _ _
      "\<lparr>sp_max_retry_count = 5, sp_ssid = ''a'', sp_password = ''b''\<rparr>" _ False]
  show ?thesis by (intro allI) (fastforce simp: Let_def)
qed

definition sta_drop :: "nat \<Rightarrow> esp_event" where
  "sta_drop reason = WIFI_EVENT (WIFI_EVENT_STA_DISCONNECTED (Some reason))"

lemma fold_drops:
  "fold (link_step m) (replicate k (sta_drop r)) l =
     (if k = 0 then l else \<lparr>lk_connected = False, lk_drops = lk_drops l + k,
        lk_gave_up = (lk_gave_up l \<or> m < lk_drops l + k)\<rparr>)"
  by (induction k arbitrary: l) (auto simp: sta_drop_def)

text \<open>
  C35. A station that gave up once reports it for ever: after a connection that worked again and was lost,
  it is reconnecting (it used one retry of the ones it has), but \<^verbatim>\<open>wait\<close> returns an error at once;
  without the old failure it would wait.
\<close>

theorem StaNetwork_wait_stale_failure:
  assumes "sp_max_retry_count p \<noteq> 0"
  shows "\<exists>n w' n2 w2. StaNetwork_run wd h (replicate (unat (sp_max_retry_count p) + 1) (sta_drop 1)
        @ [IP_EVENT IP_EVENT_STA_GOT_IP, sta_drop 2]) (StaNetwork_new p, w) = Inr (n, w')
      \<and> sta_retry_count n = 1 \<and> StaNetwork_wait False n = Some (Inr Error)
    \<and> StaNetwork_run wd h [IP_EVENT IP_EVENT_STA_GOT_IP, sta_drop 2] (StaNetwork_new p, w) = Inr (n2, w2)
      \<and> sta_retry_count n2 = 1 \<and> StaNetwork_wait False n2 = None"
proof -
  let ?m = "unat (sp_max_retry_count p)"
  let ?up = "[IP_EVENT IP_EVENT_STA_GOT_IP, sta_drop 2]" and ?down = "replicate (?m + 1) (sta_drop 1)"
  have m: "0 < ?m" using assms by (metis gr0I unat_0 word_unat_eq_iff)
  have ok: "list_all event_ok (?down @ ?up)" "list_all event_ok ?up"
    by (auto simp: event_ok_def sta_drop_def list_all_iff)
  obtain n w' where 1: "StaNetwork_run wd h (?down @ ?up) (StaNetwork_new p, w) = Inr (n, w')"
      "sta_refines (fold (link_step ?m) (?down @ ?up) link_init) n" "sta_params n = p"
    using sta_refines_run [OF sta_refines_init ok(1) refl, of wd h p w]
    by (auto simp: StaNetwork_new_def StaNetwork_init_def)
  obtain n2 w2 where 2: "StaNetwork_run wd h ?up (StaNetwork_new p, w) = Inr (n2, w2)"
      "sta_refines (fold (link_step ?m) ?up link_init) n2" "sta_params n2 = p"
    using sta_refines_run [OF sta_refines_init ok(2) refl, of wd h p w]
    by (auto simp: StaNetwork_new_def StaNetwork_init_def)
  have l1: "fold (link_step ?m) (?down @ ?up) link_init = \<lparr>lk_connected = False, lk_drops = 1, lk_gave_up = True\<rparr>"
    using fold_drops [of ?m "?m + 1" 1 link_init] by (simp add: sta_drop_def link_init_def)
  have l2: "fold (link_step ?m) ?up link_init = \<lparr>lk_connected = False, lk_drops = 1, lk_gave_up = False\<rparr>"
    using m by (simp add: sta_drop_def link_init_def)
  have "unat (sta_retry_count n) = 1" "unat (sta_retry_count n2) = 1"
    using 1(2,3) 2(2,3) m unfolding l1 l2 by (simp_all add: sta_refines_def Let_def)
  then have "sta_retry_count n = 1" "sta_retry_count n2 = 1" by (simp_all only: unat_1 word_unat_eq_iff)
  moreover have "StaNetwork_wait False n = Some (Inr Error)" "StaNetwork_wait False n2 = None"
    using StaNetwork_wait_eq [OF 1(2) [unfolded l1], of False] StaNetwork_wait_eq [OF 2(2) [unfolded l2], of False]
    by simp_all
  ultimately show ?thesis using 1(1) 2(1) by blast
qed

theorem StaNetwork_wait_stale_failure_witness:
  "\<forall>wd h w. \<exists>n w'. StaNetwork_run wd h (replicate 2 (sta_drop 1) @ [IP_EVENT IP_EVENT_STA_GOT_IP, sta_drop 2])
     (StaNetwork_new \<lparr>sp_max_retry_count = 1, sp_ssid = ''a'', sp_password = ''b''\<rparr>, w) = Inr (n, w')
     \<and> StaNetwork_wait False n = Some (Inr Error)"
  using StaNetwork_wait_stale_failure [of "\<lparr>sp_max_retry_count = 1, sp_ssid = ''a'', sp_password = ''b''\<rparr>"]
  by (intro allI) (fastforce simp: numeral_2_eq_2)

text \<open>A station without an access point reports no signal strength as the best one.\<close>

lemma rssi_of_no_signal:
  "wd_ap_rssi wd w = None \<Longrightarrow> rssi_to_signal_strength (si_rssi (StaNetwork_get_info wd n w)) = ''excellent''"
  by (simp add: StaNetwork_get_info_def get_rssi_def rssi_to_signal_strength_def)

section \<open>The access point follows its events\<close>

definition ap_starts :: "wifi_event list \<Rightarrow> status_code \<Rightarrow> status_code" where
  "ap_starts es c = fold (\<lambda>e c. if e = WIFI_EVENT_AP_START then OK
     else if e = WIFI_EVENT_AP_STOP then Error else c) es c"

text \<open>
  After any sequence of events the access point has the code of the last start or stop and the number of
  joins less the number of leaves, in 8 bits.
\<close>

lemma ApNetwork_tracks_code:
  "ap_code (fst (fold (ApNetwork_handle_wifi_event h) es s)) = ap_starts es (ap_code (fst s))"
proof -
  have "ap_code (fst (ApNetwork_handle_wifi_event h e s)) = ap_starts [e] (ap_code (fst s))" for e s
    by (cases e; cases s; simp add: ApNetwork_handle_wifi_event_def ApNetwork_handle_start_def ap_starts_def
        ApNetwork_handle_stop_def ApNetwork_set_code_def ApNetwork_handle_connected_def
        ApNetwork_handle_disconnected_def split: prod.splits)
  then show ?thesis by (induction es arbitrary: s) (simp_all add: ap_starts_def)
qed

lemma ApNetwork_tracks_connections:
  "ap_connection_count (fst (fold (ApNetwork_handle_wifi_event h) es s)) = ap_connection_count (fst s)
     + of_nat (count_list es WIFI_EVENT_AP_STACONNECTED) - of_nat (count_list es WIFI_EVENT_AP_STADISCONNECTED)"
proof -
  have "ap_connection_count (fst (ApNetwork_handle_wifi_event h e s)) = ap_connection_count (fst s)
      + of_nat (count_list [e] WIFI_EVENT_AP_STACONNECTED) - of_nat (count_list [e] WIFI_EVENT_AP_STADISCONNECTED)"
    for e s
    by (cases e; cases s; simp add: ApNetwork_handle_wifi_event_def ApNetwork_handle_start_def
        ApNetwork_handle_stop_def ApNetwork_set_code_def ApNetwork_handle_connected_def
        ApNetwork_handle_disconnected_def split: prod.splits)
  then show ?thesis by (induction es arbitrary: s) simp_all
qed

text \<open>
  When the access point starts, every task that waits is notified, nobody stays in the queue, and
  \<^verbatim>\<open>wait\<close> returns at once with \<open>OK\<close>, until the next stop, whatever joins and leaves.
\<close>

theorem ApNetwork_start_wakes:
  assumes "distinct (cond_tasks (ap_cond n))" and "WIFI_EVENT_AP_STOP \<notin> set es"
  shows "\<exists>n1 r1 w1. ApNetwork_handle_event h (WIFI_EVENT WIFI_EVENT_AP_START) (n, r, w) = Inr (n1, r1, w1)
    \<and> cond_tasks (ap_cond n1) = []
    \<and> (\<forall>t. rt_notify r1 t = rt_notify r t + of_bool (t \<in> set (cond_tasks (ap_cond n))))
    \<and> (\<exists>n2. fst (fold (ApNetwork_handle_wifi_event h) es (n1, r1, w1)) = n2
        \<and> ApNetwork_wait ap_code cond_wait n2 = Some (OK, n2))"
proof -
  obtain n1 r1 w1 where 1: "ApNetwork_handle_wifi_event h WIFI_EVENT_AP_START (n, r, w) = (n1, r1, w1)"
    by (metis prod.exhaust)
  then have n1: "ap_code n1 = OK" "cond_tasks (ap_cond n1) = []"
      "rt_notify r1 t = rt_notify r t + of_bool (t \<in> set (cond_tasks (ap_cond n)))" for t
    using Cond_broadcast_eq [OF assms(1), of r]
    by (auto simp: ApNetwork_handle_wifi_event_def ApNetwork_handle_start_def ApNetwork_set_code_def)
  have "ap_starts es OK = OK" using assms(2) by (induction es) (auto simp: ap_starts_def)
  then have "ap_code (fst (fold (ApNetwork_handle_wifi_event h) es (n1, r1, w1))) = OK"
    using n1(1) by (simp add: ApNetwork_tracks_code)
  then have "ApNetwork_wait ap_code cond_wait (fst (fold (ApNetwork_handle_wifi_event h) es (n1, r1, w1)))
      = Some (OK, fst (fold (ApNetwork_handle_wifi_event h) es (n1, r1, w1)))"
    by (subst ApNetwork_wait.simps) simp
  then show ?thesis using 1 n1(2,3) by (auto simp: ApNetwork_handle_event_def)
qed

theorem ApNetwork_start_wakes_witness:
  "\<exists>n1 r1 w1. ApNetwork_handle_event \<lparr>nh_handle_connect = Suc, nh_handle_disconnect = id\<rparr>
       (WIFI_EVENT WIFI_EVENT_AP_START)
       (\<lparr>ap_params = p, ap_cond = \<lparr>cond_tasks = [3, 4]\<rparr>, ap_code = Last, ap_connection_count = 0\<rparr>,
        \<lparr>rt_notify = (\<lambda>_. 0), rt_owner = None\<rparr>, 0) = Inr (n1, r1, w1) \<and> rt_notify r1 4 = 1"
proof -
  let ?h = "\<lparr>nh_handle_connect = Suc, nh_handle_disconnect = id\<rparr>"
  let ?n = "\<lparr>ap_params = p, ap_cond = \<lparr>cond_tasks = [3, 4]\<rparr>, ap_code = Last, ap_connection_count = 0\<rparr>"
  let ?r = "\<lparr>rt_notify = (\<lambda>_. 0), rt_owner = None\<rparr>"
  obtain n1 r1 w1 where "ApNetwork_handle_event ?h (WIFI_EVENT WIFI_EVENT_AP_START) (?n, ?r, 0) = Inr (n1, r1, w1)"
      and "\<forall>t. rt_notify r1 t = rt_notify ?r t + of_bool (t \<in> set (cond_tasks (ap_cond ?n)))"
    using ApNetwork_start_wakes [of ?n "[WIFI_EVENT_AP_STACONNECTED]" ?h ?r 0 "\<lambda>n. (OK, n)"] by auto
  then have "rt_notify r1 4 = 1" by simp
  then show ?thesis using \<open>ApNetwork_handle_event _ _ _ = _\<close> by blast
qed

section \<open>mDNS\<close>

datatype mdns_op = AddService u32 | AddTxt string string

fun mdns_apply :: "mdns_op \<Rightarrow> MdnsStore \<Rightarrow> MdnsStore" where
  "mdns_apply (AddService port) = MdnsStore_add_service Http Tcp port"
| "mdns_apply (AddTxt k v) = MdnsStore_add_txt_record Http Tcp k v"

fun mdns_node :: "mdns_op \<Rightarrow> MdnsNode \<Rightarrow> MdnsNode" where
  "mdns_node (AddService port) node = node\<lparr>mn_port := port\<rparr>"
| "mdns_node (AddTxt k v) node = node\<lparr>mn_records := mn_records node @ [(k, v)]\<rparr>"

fun mdns_txt :: "mdns_op \<Rightarrow> (string \<times> string) list" where
  "mdns_txt (AddService port) = []"
| "mdns_txt (AddTxt k v) = [(k, v)]"

fun mdns_port :: "u32 \<Rightarrow> mdns_op list \<Rightarrow> u32" where
  "mdns_port p [] = p"
| "mdns_port p (AddService port # ops) = mdns_port port ops"
| "mdns_port p (AddTxt k v # ops) = mdns_port p ops"

lemma mdns_apply_one: "mdns_apply op [(Http, [(Tcp, node)])] = [(Http, [(Tcp, mdns_node op node)])]"
  by (cases op) (simp_all add: MdnsStore_add_service_def MdnsStore_add_txt_record_def)

lemma mdns_apply_fold:
  "fold mdns_apply ops [(Http, [(Tcp, node)])] = [(Http, [(Tcp, fold mdns_node ops node)])]"
  by (induction ops arbitrary: node) (simp_all add: mdns_apply_one)

lemma mdns_apply_all:
  "ops \<noteq> [] \<Longrightarrow> fold mdns_apply ops [] = [(Http, [(Tcp, fold mdns_node ops MdnsNode_init)])]"
proof (cases ops)
  case (Cons op rest)
  have "mdns_apply op [] = [(Http, [(Tcp, mdns_node op MdnsNode_init)])]"
    by (cases op) (simp_all add: MdnsStore_add_service_def MdnsStore_add_txt_record_def)
  then show ?thesis using Cons by (simp add: mdns_apply_fold)
qed simp

lemma mdns_node_fold:
  "fold mdns_node ops node =
     \<lparr>mn_port = mdns_port (mn_port node) ops, mn_records = mn_records node @ concat (map mdns_txt ops)\<rparr>"
proof (induction ops arbitrary: node)
  case (Cons op ops)
  then show ?case by (cases op) simp_all
qed simp

lemma MdnsStore_flush_records_eq:
  "MdnsStore_flush_records d service proto rs w =
     fold (\<lambda>(k, v) w. snd (md_add_txt_record d service proto k v w)) rs w"
  by (induction rs arbitrary: w) (auto split: prod.splits)

text \<open>
  Starting the store gives the driver what was added before, and nothing else: the last port that was
  added, and then every record in the order of the additions. An error of one of these calls is not
  reported, and after an error of the service no record is given.
\<close>

theorem MdnsStore_start_registers:
  assumes "ops \<noteq> []" and "md_start d w = (OK, w1)" and "md_add_service d Http Tcp (mdns_port 0 ops) w1 = (code, w2)"
  shows "MdnsStore_start d (fold mdns_apply ops []) w =
    (OK, if code \<noteq> OK then w2
         else fold (\<lambda>(k, v) w. snd (md_add_txt_record d Http Tcp k v w)) (concat (map mdns_txt ops)) w2)"
  using assms by (simp add: MdnsStore_start_def MdnsStore_flush_def mdns_apply_all mdns_node_fold
      MdnsNode_init_def MdnsStore_flush_records_eq)

theorem MdnsStore_start_registers_witness:
  "MdnsStore_start (NoopMdnsDriver_vtable\<lparr>md_add_service := (\<lambda>s p port w. (OK, port # w))\<rparr>)
     (fold mdns_apply [AddService 1, AddTxt ''k'' ''v'', AddService 80] []) [] = (OK, [80])"
  using MdnsStore_start_registers [of "[AddService 1, AddTxt ''k'' ''v'', AddService 80]"
      "NoopMdnsDriver_vtable\<lparr>md_add_service := (\<lambda>s p port w. (OK, port # w))\<rparr>" "[]" "[]" OK "[80]"]
  by (simp add: NoopMdnsDriver_vtable_def)

section \<open>Local network\<close>

lemma string_of_array_strncpy:
  assumes "CHR 0x00 \<notin> set s"
  shows "string_of_array (strncpy n s) = (if length s < n then Inr s else Inl OutOfBounds)"
proof (cases "length s < n")
  case True
  then have s: "strncpy n s = s @ replicate (n - length s) (CHR 0x00)" by (simp add: strncpy_def)
  have "takeWhile (\<lambda>c. c \<noteq> CHR 0x00) (strncpy n s) = s"
    unfolding s using assms by (subst takeWhile_append2) (auto simp: takeWhile_replicate)
  moreover have "CHR 0x00 \<in> set (strncpy n s)" using True by (simp add: s)
  ultimately show ?thesis using True by (simp add: string_of_array_def)
next
  case False
  then have "strncpy n s = take n s" by (simp add: strncpy_def)
  then show ?thesis using False assms by (auto simp: string_of_array_def dest: in_set_takeD)
qed

text \<open>
  C36. The access point of the local network is never set up properly: the name of the firmware with the
  device identifier of this library has more than 32 characters, so the array of the SSID is left without
  a terminator and read past its end.
\<close>

theorem LocalNetworkPipeline_ssid_overruns:
  assumes "\<And>src d. sha SHA1 src = Some d \<Longrightarrow> length d = 20"
    and "DeviceID_init sha sha512 mac = Inr device_id" and "CHR 0x00 \<notin> set fw_name"
  shows "LocalNetworkPipeline_initialize st fw_name device_id channel max_connection w = Inl OutOfBounds"
proof -
  obtain d where d: "length d = 20" "device_id = concat (map hex2 d)"
    using DeviceID_init_digits [of sha sha512 mac device_id] assms(1,2) by blast
  have "length device_id = 40" using d by (simp add: length_concat hex2_def comp_def sum_list_triv)
  moreover have "CHR 0x00 \<notin> set device_id" using hex2_chars_all d(2) by auto
  ultimately have "string_of_array (strncpy max_ssid_size (fw_name @ ''-'' @ device_id)) = Inl OutOfBounds"
    using assms(3) by (subst string_of_array_strncpy) (auto simp: max_ssid_size_def)
  then show ?thesis by (simp add: LocalNetworkPipeline_initialize_def Let_def split: prod.splits)
qed

theorem LocalNetworkPipeline_ssid_overruns_witness:
  "\<forall>st w. \<exists>device_id. DeviceID_init (\<lambda>_ _. Some (replicate 20 0xAB)) True None = Inr device_id
     \<and> LocalNetworkPipeline_initialize st ''fw'' device_id 1 4 w = Inl OutOfBounds"
proof (intro allI exI conjI)
  show id: "DeviceID_init (\<lambda>_ _. Some (replicate 20 0xAB)) True None = Inr (concat (map hex2 (replicate 20 0xAB)))"
    by (rule DeviceID_init_eq) simp_all
  fix st w
  show "LocalNetworkPipeline_initialize st ''fw'' (concat (map hex2 (replicate 20 0xAB))) 1 4 w = Inl OutOfBounds"
    using id by (intro LocalNetworkPipeline_ssid_overruns [of "\<lambda>_ _. Some (replicate 20 0xAB)" True None]) auto
qed

end
