(* ===== verification/System.thy ===== *)
theory System
  imports OneWire Sync
begin

text \<open>
  \<open>components/ocs_system\<close>: suspending and rebooting (fanout_suspender.cpp, suspender_guard.cpp,
  fanout_reboot_handler.cpp, default_rebooter.cpp, delay_rebooter.cpp, reboot_task.cpp), the delayers
  (delayer_configuration.cpp, default_delayer.cpp, busy_loop_delayer.cpp, low_power_delayer.cpp), the
  randomizer (default_randomizer.cpp), the description of the device (device_info.cpp) and the names of
  reset reasons and task states. The hardware timer, the random number generator and the calls of the
  ESP-IDF are parameters.
\<close>

section \<open>Suspending\<close>

record 'w ISuspendHandler =
  sh_handle_suspend :: "'w step"
  sh_handle_resume :: "'w step"

record 'w FanoutSuspender_Node =
  fn_id :: string
  fn_handler :: "'w ISuspendHandler"

type_synonym 'w FanoutSuspender = "'w FanoutSuspender_Node list"

fun FanoutSuspender_suspend :: "'w FanoutSuspender \<Rightarrow> 'w step" where
  "FanoutSuspender_suspend [] w = (OK, w)"
| "FanoutSuspender_suspend (node # nodes) w =
     (case sh_handle_suspend (fn_handler node) w of (code, w') \<Rightarrow> FanoutSuspender_suspend nodes w')"

fun FanoutSuspender_resume :: "'w FanoutSuspender \<Rightarrow> 'w step" where
  "FanoutSuspender_resume [] w = (OK, w)"
| "FanoutSuspender_resume (node # nodes) w =
     (case sh_handle_resume (fn_handler node) w of (code, w') \<Rightarrow> FanoutSuspender_resume nodes w')"

definition FanoutSuspender_add ::
    "'w ISuspendHandler \<Rightarrow> string \<Rightarrow> 'w FanoutSuspender \<Rightarrow> status_code \<times> 'w FanoutSuspender" where
  "FanoutSuspender_add handler i nodes =
     (if \<exists>node\<in>set nodes. fn_id node = i then (InvalidArg, nodes)
      else (OK, nodes @ [\<lparr>fn_id = i, fn_handler = handler\<rparr>]))"

text \<open>A scope with a guard: the constructor, the body, the destructor.\<close>

definition SuspenderGuard_scope :: "'w step \<Rightarrow> 'w step \<Rightarrow> ('w \<Rightarrow> 'a \<times> 'w) \<Rightarrow> 'w \<Rightarrow> 'a \<times> 'w" where
  "SuspenderGuard_scope suspend resume body w =
     (case suspend w of (_, w1) \<Rightarrow> case body w1 of (x, w2) \<Rightarrow> case resume w2 of (_, w3) \<Rightarrow> (x, w3))"

section \<open>Rebooting\<close>

text \<open>\<^verbatim>\<open>IRebootHandler\<close> and \<^verbatim>\<open>IRebooter\<close> each have one call without a result.\<close>

type_synonym 'w IRebootHandler = "'w \<Rightarrow> 'w"
type_synonym 'w IRebooter = "'w \<Rightarrow> 'w"

fun FanoutRebootHandler_handle_reboot :: "'w IRebootHandler list \<Rightarrow> 'w IRebootHandler" where
  "FanoutRebootHandler_handle_reboot [] w = w"
| "FanoutRebootHandler_handle_reboot (h # hs) w = FanoutRebootHandler_handle_reboot hs (h w)"

definition FanoutRebootHandler_add :: "'w IRebootHandler \<Rightarrow> 'w IRebootHandler list \<Rightarrow> 'w IRebootHandler list" where
  "FanoutRebootHandler_add handler handlers = handlers @ [handler]"

definition DefaultRebooter_reboot :: "('w \<Rightarrow> 'w) \<Rightarrow> 'w IRebootHandler \<Rightarrow> 'w IRebooter" where
  "DefaultRebooter_reboot esp_restart handler w = esp_restart (handler w)"

definition DelayRebooter_reboot :: "(u32 \<Rightarrow> 'w \<Rightarrow> 'w) \<Rightarrow> u32 \<Rightarrow> 'w IRebooter \<Rightarrow> 'w IRebooter" where
  "DelayRebooter_reboot vTaskDelay delay rebooter w = rebooter (vTaskDelay delay w)"

definition RebootTask_run :: "'w IRebooter \<Rightarrow> 'w step" where
  "RebootTask_run rebooter w = (OK, rebooter w)"

section \<open>Delayers\<close>

datatype DelayerStrategy = Default | BusyLoop | LowPower | DelayerStrategy_Last

definition parse_delayer_strategy :: "int \<Rightarrow> DelayerStrategy option" where
  "parse_delayer_strategy v =
     (if v < 0 \<or> v \<ge> 3 then None else Some ([Default, BusyLoop, LowPower, DelayerStrategy_Last] ! nat v))"

text \<open>A general purpose timer of the ESP-IDF; a result that is not \<^verbatim>\<open>ESP_OK\<close> is \<open>False\<close>.\<close>

record 'w gptimer_api =
  gt_set_raw_count :: "u64 \<Rightarrow> 'w \<Rightarrow> bool \<times> 'w"
  gt_get_raw_count :: "'w \<Rightarrow> u64 option \<times> 'w"
  gt_set_alarm_action :: "u64 \<Rightarrow> 'w \<Rightarrow> bool \<times> 'w"
  gt_start :: "'w \<Rightarrow> bool \<times> 'w"
  gt_stop :: "'w \<Rightarrow> bool \<times> 'w"

definition DefaultDelayer_delay :: "(u32 \<Rightarrow> 'w \<Rightarrow> 'w) \<Rightarrow> 'w IDelayer" where
  "DefaultDelayer_delay ets_delay_us delay w = (OK, ets_delay_us (word_of_int delay) w)"

text \<open>A timer call as a step.\<close>

definition gt_step :: "('w \<Rightarrow> bool \<times> 'w) \<Rightarrow> 'w step" where
  "gt_step call w = (case call w of (ok, w') \<Rightarrow> (if \<not> ok then Error else OK, w'))"

text \<open>
  The comparison of \<^verbatim>\<open>uint64_t\<close> with \<^verbatim>\<open>core::Time\<close> is unsigned. A loop that does not end is
  \<open>None\<close>.
\<close>

partial_function (option) BusyLoopDelayer_loop ::
    "'w gptimer_api \<Rightarrow> time \<Rightarrow> 'w \<Rightarrow> (status_code \<times> 'w) option" where
  "BusyLoopDelayer_loop gt delay w =
     (case gt_get_raw_count gt w of
        (None, w') \<Rightarrow> Some (Error, w')
      | (Some v, w') \<Rightarrow>
          if v \<ge> word_of_int delay then Some (OK, w') else BusyLoopDelayer_loop gt delay w')"

definition BusyLoopDelayer_delay :: "'w gptimer_api \<Rightarrow> time \<Rightarrow> 'w \<Rightarrow> (status_code \<times> 'w) option" where
  "BusyLoopDelayer_delay gt delay w =
     (case run_steps [gt_step (gt_set_raw_count gt 0), gt_step (gt_start gt)] w of
        (code, w1) \<Rightarrow>
          if code \<noteq> OK then Some (code, w1)
          else case BusyLoopDelayer_loop gt delay w1 of
            None \<Rightarrow> None
          | Some (code, w2) \<Rightarrow> Some (if code \<noteq> OK then (code, w2) else gt_step (gt_stop gt) w2))"

text \<open>
  The low power delayer runs beside its own alarm interrupt. The world has the flag, the kernel and the
  rest; \<open>early\<close> says that the interrupt runs before \<^verbatim>\<open>wait\<close> stored the task.
\<close>

definition LowPowerDelayer_handle_alarm :: "(nat \<Rightarrow> bool) \<Rightarrow> BasicAsyncFlag \<times> rtos \<Rightarrow> bool \<times> BasicAsyncFlag \<times> rtos" where
  "LowPowerDelayer_handle_alarm woken fr =
     (case AsyncFlagIsr_signal woken fr of (code, fr') \<Rightarrow> (code = IsrYield, fr'))"

definition LowPowerDelayer_wait ::
    "(nat \<Rightarrow> bool) \<Rightarrow> bool \<Rightarrow> nat \<Rightarrow> BasicAsyncFlag \<times> rtos \<Rightarrow> (status_code \<times> BasicAsyncFlag \<times> rtos) option" where
  "LowPowerDelayer_wait woken early me fr =
     (let (f, r) = (if early then snd (LowPowerDelayer_handle_alarm woken fr) else fr);
          f = BasicAsyncFlag_wait_store me f;
          (f, r) = (if early then (f, r) else snd (LowPowerDelayer_handle_alarm woken (f, r)))
      in map_option (\<lambda>(code, r). (code, f, r)) (BasicAsyncFlag_wait_take me False r))"

definition LowPowerDelayer_delay ::
    "'w gptimer_api \<Rightarrow> (nat \<Rightarrow> bool) \<Rightarrow> bool \<Rightarrow> nat \<Rightarrow> time \<Rightarrow> (BasicAsyncFlag \<times> rtos) \<times> 'w
       \<Rightarrow> (status_code \<times> (BasicAsyncFlag \<times> rtos) \<times> 'w) option" where
  "LowPowerDelayer_delay gt woken early me delay s =
     (case s of (fr, w) \<Rightarrow>
        case run_steps [gt_step (gt_set_raw_count gt 0),
               gt_step (gt_set_alarm_action gt (word_of_int delay)), gt_step (gt_start gt)] w of
          (code, w1) \<Rightarrow>
            if code \<noteq> OK then Some (code, fr, w1)
            else case LowPowerDelayer_wait woken early me fr of
              None \<Rightarrow> None
            | Some (code, fr') \<Rightarrow>
                if code \<noteq> OK then Some (code, fr', w1)
                else case gt_step (gt_stop gt) w1 of (code, w2) \<Rightarrow> Some (code, fr', w2))"

section \<open>Random numbers\<close>

text \<open>
  \<open>rnd\<close> is \<^verbatim>\<open>esp_random\<close>: the number it gives and the generator afterwards. The arithmetic is that
  of \<^verbatim>\<open>uint64_t\<close>.
\<close>

partial_function (option) random_loop :: "('r \<Rightarrow> u32 \<times> 'r) \<Rightarrow> u64 \<Rightarrow> 'r \<Rightarrow> (u64 \<times> 'r) option" where
  "random_loop rnd width g =
     (case rnd g of (val, g') \<Rightarrow>
        let x = ucast val; r = x mod width
        in if x - r > - width then random_loop rnd width g' else Some (r, g'))"

definition DefaultRandomizer_random ::
    "('r \<Rightarrow> u32 \<times> 'r) \<Rightarrow> u32 \<Rightarrow> u32 \<Rightarrow> 'r \<Rightarrow> (u32 \<times> 'r) checked option" where
  "DefaultRandomizer_random rnd lo hi g =
     (if \<not> lo \<le> hi then Some (Inl AssertFailed)
      else case random_loop rnd (ucast hi - ucast lo + 1) g of
        None \<Rightarrow> None
      | Some (r, g') \<Rightarrow>
          let ret = lo + ucast r
          in Some (if \<not> ret \<ge> lo then Inl AssertFailed
                   else if \<not> ret \<le> hi then Inl AssertFailed else Inr (ret, g')))"

section \<open>Descriptions\<close>

record DeviceInfo =
  di_fw_name :: string
  di_fw_version :: string
  di_fw_description :: string
  di_device_id :: string

definition DeviceInfo_init :: "string \<Rightarrow> string \<Rightarrow> string \<Rightarrow> string \<Rightarrow> DeviceInfo" where
  "DeviceInfo_init fw_name fw_version fw_description device_id =
     \<lparr>di_fw_name = fw_name, di_fw_version = fw_version, di_fw_description = fw_description,
      di_device_id = device_id\<rparr>"

datatype esp_reset_reason = ESP_RST_UNKNOWN | ESP_RST_POWERON | ESP_RST_EXT | ESP_RST_SW | ESP_RST_PANIC
  | ESP_RST_INT_WDT | ESP_RST_TASK_WDT | ESP_RST_WDT | ESP_RST_DEEPSLEEP | ESP_RST_BROWNOUT | ESP_RST_SDIO
  | ESP_RST_USB | ESP_RST_JTAG | ESP_RST_OTHER nat

fun reset_reason_to_str :: "esp_reset_reason \<Rightarrow> string" where
  "reset_reason_to_str ESP_RST_UNKNOWN = ''RST_UNKNOWN''"
| "reset_reason_to_str ESP_RST_POWERON = ''RST_POWERON''"
| "reset_reason_to_str ESP_RST_EXT = ''RST_EXT''"
| "reset_reason_to_str ESP_RST_SW = ''RST_SW''"
| "reset_reason_to_str ESP_RST_PANIC = ''RST_PANIC''"
| "reset_reason_to_str ESP_RST_INT_WDT = ''RST_INT_WDT''"
| "reset_reason_to_str ESP_RST_TASK_WDT = ''RST_TASK_WDT''"
| "reset_reason_to_str ESP_RST_WDT = ''RST_WDT''"
| "reset_reason_to_str ESP_RST_DEEPSLEEP = ''RST_DEEPSLEEP''"
| "reset_reason_to_str ESP_RST_BROWNOUT = ''RST_BROWNOUT''"
| "reset_reason_to_str ESP_RST_SDIO = ''RST_SDIO''"
| "reset_reason_to_str ESP_RST_USB = ''RST_USB''"
| "reset_reason_to_str ESP_RST_JTAG = ''RST_JTAG''"
| "reset_reason_to_str (ESP_RST_OTHER _) = ''<none>''"

datatype eTaskState = eRunning | eReady | eBlocked | eSuspended | eDeleted | eInvalid

fun task_state_to_str :: "eTaskState \<Rightarrow> string" where
  "task_state_to_str eRunning = ''Running''"
| "task_state_to_str eReady = ''Ready''"
| "task_state_to_str eBlocked = ''Blocked''"
| "task_state_to_str eSuspended = ''Suspended''"
| "task_state_to_str eDeleted = ''Deleted''"
| "task_state_to_str eInvalid = ''<none>''"

section \<open>Suspending reaches every handler\<close>

text \<open>
  A failing handler stops nobody: the handlers run in the order of registration, and their identifiers
  stay distinct.
\<close>

lemma FanoutSuspender_suspend_eq:
  "FanoutSuspender_suspend nodes w = (OK, fold (\<lambda>node w. snd (sh_handle_suspend (fn_handler node) w)) nodes w)"
  by (induction nodes arbitrary: w) (simp_all split: prod.splits)

lemma FanoutSuspender_resume_eq:
  "FanoutSuspender_resume nodes w = (OK, fold (\<lambda>node w. snd (sh_handle_resume (fn_handler node) w)) nodes w)"
  by (induction nodes arbitrary: w) (simp_all split: prod.splits)

lemma FanoutSuspender_add_distinct:
  "distinct (map fn_id nodes) \<Longrightarrow> distinct (map fn_id (snd (FanoutSuspender_add handler i nodes)))"
  by (auto simp: FanoutSuspender_add_def registry_simps)

lemma FanoutRebootHandler_handle_reboot_eq: "FanoutRebootHandler_handle_reboot hs w = fold (\<lambda>h. h) hs w"
  by (induction hs arbitrary: w) simp_all

text \<open>
  A rebooted device has told every handler first, in the order of registration, and a delayed reboot
  waits before that: nothing runs between the last handler and the restart.
\<close>

theorem reboot_notifies_all:
  "RebootTask_run (DelayRebooter_reboot vTaskDelay delay (DefaultRebooter_reboot esp_restart
       (FanoutRebootHandler_handle_reboot (FanoutRebootHandler_add h hs)))) w
     = (OK, esp_restart (h (fold (\<lambda>h. h) hs (vTaskDelay delay w))))"
  by (simp add: RebootTask_run_def DelayRebooter_reboot_def DefaultRebooter_reboot_def
      FanoutRebootHandler_handle_reboot_eq FanoutRebootHandler_add_def)

section \<open>Random numbers\<close>

lemma unat_ucast_u64: "unat (ucast (x :: u32) :: u64) = unat x"
proof (rule unat_ucast_small)
  have "unat x < 4294967296" by (rule unat_u32_less)
  then show "unat x < 2 ^ LENGTH(64)" by (rule order.strict_trans) simp
qed

lemma unat_width:
  assumes "lo \<le> (hi :: u32)"
  shows "unat (ucast hi - ucast lo + 1 :: u64) = unat hi - unat lo + 1"
proof -
  have le: "unat lo \<le> unat hi" using assms by (simp add: word_le_nat_alt)
  have "(ucast hi - ucast lo :: u64) = of_nat (unat hi - unat lo)"
    using le by (simp add: of_nat_diff)
  then have "(ucast hi - ucast lo + 1 :: u64) = of_nat (unat hi - unat lo + 1)" by simp
  moreover have "unat hi - unat lo + 1 < 18446744073709551616" using unat_u32_less [of hi] by linarith
  then have "unat hi - unat lo + 1 < 2 ^ LENGTH(64)" by simp
  ultimately show ?thesis by (simp only: unat_of_nat mod_less)
qed

lemma random_loop_once:
  assumes "lo \<le> (hi :: u32)" and "rnd g = (val, g')"
  shows "\<exists>r. random_loop rnd (ucast hi - ucast lo + 1) g = Some (r, g')
    \<and> unat r = unat val mod (unat hi - unat lo + 1)"
proof -
  let ?W = "ucast hi - ucast lo + 1 :: u64" and ?x = "ucast val :: u64"
  have W: "unat ?W = unat hi - unat lo + 1" by (rule unat_width) (rule assms(1))
  have x: "unat ?x = unat val" by (rule unat_ucast_u64)
  have r: "unat (?x mod ?W) = unat val mod (unat hi - unat lo + 1)"
    by (simp only: unat_mod_distrib W x)
  have "?x mod ?W \<le> ?x" by (simp only: word_le_nat_alt r x) simp
  then have "unat (?x - ?x mod ?W) = unat val - unat (?x mod ?W)"
    by (simp only: unat_sub x)
  then have lt: "unat (?x - ?x mod ?W) < 4294967296" using unat_u32_less [of val] by linarith
  have "unat ?W \<noteq> 0" using W by linarith
  then have "unat (0 - ?W) = 2 ^ LENGTH(64) - unat ?W" by (simp only: unat_sub_if' unat_0 le_zero_eq if_False add_0)
  moreover have "unat ?W \<le> 4294967296" using W unat_u32_less [of hi] by linarith
  ultimately have "4294967296 \<le> unat (0 - ?W)" by simp
  then have "4294967296 \<le> unat (- ?W)" by (simp only: diff_0)
  then have "\<not> ?x - ?x mod ?W > - ?W" using lt by (simp only: word_less_nat_alt)
  then have "random_loop rnd ?W g = Some (?x mod ?W, g')"
    using assms(2) by (subst random_loop.simps) (simp add: Let_def)
  then show ?thesis using r by blast
qed

text \<open>
  A random number is in its bounds, the assertions hold, and exactly one number is drawn: the loop
  that is to reject the draws of the last incomplete interval never rejects, because \<^verbatim>\<open>-range\<close> is
  taken in 64 bits. The result is the plain remainder, so the low numbers are more likely.
\<close>

theorem random_never_rejects:
  assumes "lo \<le> hi" and "rnd g = (val, g')"
  shows "\<exists>x. DefaultRandomizer_random rnd lo hi g = Some (Inr (x, g')) \<and> lo \<le> x \<and> x \<le> hi
    \<and> unat x = unat lo + unat val mod (unat hi - unat lo + 1)"
proof -
  obtain r where r: "random_loop rnd (ucast hi - ucast lo + 1) g = Some (r, g')"
      "unat r = unat val mod (unat hi - unat lo + 1)"
    using random_loop_once [OF assms(1), of rnd g val g'] assms(2) by blast
  have le: "unat lo \<le> unat hi" using assms(1) by (simp add: word_le_nat_alt)
  have "unat r < unat hi - unat lo + 1" using r(2) by simp
  then have b: "unat lo + unat r \<le> unat hi" using le by linarith
  have lt: "unat lo + unat r < 4294967296" using b unat_u32_less [of hi] by linarith
  then have "unat r < 4294967296" by linarith
  then have "unat (ucast r :: u32) = unat r" by (intro unat_ucast_small) simp
  moreover have "unat lo + unat r < 2 ^ LENGTH(32)" using lt by simp
  ultimately have x: "unat (lo + ucast r) = unat lo + unat r"
    by (subst unat_plus_if') simp
  have "lo \<le> lo + ucast r" "lo + ucast r \<le> hi"
    by (simp_all only: word_le_nat_alt x) (use b in simp_all)
  then show ?thesis using x r assms(1)
    by (intro exI [of _ "lo + ucast r"]) (simp add: DefaultRandomizer_random_def Let_def)
qed

theorem random_never_rejects_witness:
  "\<exists>x. DefaultRandomizer_random (\<lambda>_ :: unit. (0xFFFFFFFF, ())) 0 0xBFFFFFFF () = Some (Inr (x, ()))
    \<and> unat x = 0x3FFFFFFF"
  using random_never_rejects [of 0 "0xBFFFFFFF" "\<lambda>_. (0xFFFFFFFF, ())" "()" "0xFFFFFFFF" "()"] by auto

section \<open>Delays\<close>

lemma BusyLoopDelayer_loop_ends:
  assumes "\<And>w. gt_get_raw_count gt w = (Some (rd w), tick w)"
    and "word_of_int delay \<le> rd ((tick ^^ n) w)" and "\<forall>k<n. \<not> word_of_int delay \<le> rd ((tick ^^ k) w)"
  shows "BusyLoopDelayer_loop gt delay w = Some (OK, (tick ^^ Suc n) w)"
  using assms(2,3)
proof (induction n arbitrary: w)
  case 0
  then show ?case by (subst BusyLoopDelayer_loop.simps) (simp add: assms(1))
next
  case (Suc n)
  have "\<not> word_of_int delay \<le> rd w" using Suc.prems(2) by (metis funpow_0 zero_less_Suc)
  then have "BusyLoopDelayer_loop gt delay w = BusyLoopDelayer_loop gt delay (tick w)"
    by (subst BusyLoopDelayer_loop.simps) (simp add: assms(1))
  moreover have "\<forall>k<n. \<not> word_of_int delay \<le> rd ((tick ^^ k) (tick w))"
    using Suc.prems(2) by (metis Suc_less_eq funpow_swap1 funpow.simps(2) comp_apply)
  moreover have "word_of_int delay \<le> rd ((tick ^^ n) (tick w))"
    using Suc.prems(1) by (simp add: funpow_swap1)
  ultimately show ?case using Suc.IH [of "tick w"] by (simp add: funpow_swap1)
qed

text \<open>
  The busy loop ends with a timer that counts, at the first reading that is not below the delay, and
  the timer is stopped then.
\<close>

theorem BusyLoopDelayer_delay_ends:
  assumes "\<And>w. gt_get_raw_count gt w = (Some (rd w), tick w)"
    and "gt_set_raw_count gt 0 w = (True, w1)" and "gt_start gt w1 = (True, w2)"
    and "\<exists>n. word_of_int delay \<le> rd ((tick ^^ n) w2)"
  shows "\<exists>n. BusyLoopDelayer_delay gt delay w = Some (gt_step (gt_stop gt) ((tick ^^ Suc n) w2))
    \<and> word_of_int delay \<le> rd ((tick ^^ n) w2) \<and> (\<forall>k<n. rd ((tick ^^ k) w2) < word_of_int delay)"
proof -
  obtain n where n: "word_of_int delay \<le> rd ((tick ^^ n) w2)"
      "\<forall>k<n. \<not> word_of_int delay \<le> rd ((tick ^^ k) w2)"
    using exists_least_iff [THEN iffD1, OF assms(4)] by blast
  have "run_steps [gt_step (gt_set_raw_count gt 0), gt_step (gt_start gt)] w = (OK, w2)"
    using assms(2,3) by (simp add: gt_step_def and_then_def)
  then have "BusyLoopDelayer_delay gt delay w = Some (gt_step (gt_stop gt) ((tick ^^ Suc n) w2))"
    using BusyLoopDelayer_loop_ends [OF assms(1) n] by (simp add: BusyLoopDelayer_delay_def)
  moreover have "\<forall>k<n. rd ((tick ^^ k) w2) < word_of_int delay" using n(2) by (simp add: not_le)
  ultimately show ?thesis using n(1) by blast
qed

text \<open>A timer in the world: its count, and whether it runs.\<close>

definition test_gptimer :: "(u64 \<times> bool) gptimer_api" where
  "test_gptimer = \<lparr>gt_set_raw_count = (\<lambda>v w. (True, (v, snd w))),
     gt_get_raw_count = (\<lambda>w. (Some (fst w), (fst w + 1, snd w))),
     gt_set_alarm_action = (\<lambda>v w. (True, w)), gt_start = (\<lambda>w. (True, (fst w, True))),
     gt_stop = (\<lambda>w. (True, (fst w, False)))\<rparr>"

theorem BusyLoopDelayer_delay_ends_witness:
  "\<exists>w. BusyLoopDelayer_delay test_gptimer 2 (9, False) = Some (OK, w)"
proof -
  have "\<exists>n. BusyLoopDelayer_delay test_gptimer 2 (9, False)
      = Some (gt_step (gt_stop test_gptimer) (((\<lambda>w. (fst w + 1, snd w)) ^^ Suc n) (0, True)))
    \<and> word_of_int 2 \<le> fst (((\<lambda>w. (fst w + 1, snd w)) ^^ n) (0 :: u64, True))
    \<and> (\<forall>k<n. fst (((\<lambda>w. (fst w + 1, snd w)) ^^ k) (0 :: u64, True)) < word_of_int 2)"
    by (rule BusyLoopDelayer_delay_ends [of test_gptimer fst _ _ "(0, False)"])
      (auto simp: test_gptimer_def intro: exI [of _ 2] simp: numeral_2_eq_2)
  then show ?thesis by (auto simp: gt_step_def test_gptimer_def)
qed

text \<open>
  The low power delay ends when the alarm comes while the task waits. When the alarm comes between the
  start of the timer and the wait, its signal finds no task, and the delay never ends.
\<close>

theorem LowPowerDelayer_delay_race:
  assumes "gt_set_raw_count gt 0 w = (True, w1)" and "gt_set_alarm_action gt (word_of_int delay) w1 = (True, w2)"
    and "gt_start gt w2 = (True, w3)" and "gt_stop gt w3 = (True, w4)" and "rt_notify r me = 0"
  shows "LowPowerDelayer_delay gt woken False me delay ((BasicAsyncFlag_init, r), w)
      = Some (OK, (BasicAsyncFlag_init, r), w4)
    \<and> LowPowerDelayer_delay gt woken True me delay ((BasicAsyncFlag_init, r), w) = None"
proof -
  have s: "run_steps [gt_step (gt_set_raw_count gt 0),
      gt_step (gt_set_alarm_action gt (word_of_int delay)), gt_step (gt_start gt)] w = (OK, w3)"
    using assms(1-3) by (simp add: gt_step_def and_then_def)
  have "LowPowerDelayer_wait woken False me (BasicAsyncFlag_init, r) = Some (OK, (BasicAsyncFlag_init, r))"
    "LowPowerDelayer_wait woken True me (BasicAsyncFlag_init, r) = None"
    using assms(5) by (simp_all add: LowPowerDelayer_wait_def LowPowerDelayer_handle_alarm_def
        AsyncFlagIsr_signal_def BasicAsyncFlag_acquire_task_def BasicAsyncFlag_wait_store_def
        BasicAsyncFlag_wait_take_def BasicAsyncFlag_init_def xTaskNotifyGive_def ulTaskNotifyTake_def
        fun_upd_idem)
  then show ?thesis using s assms(4) by (simp add: LowPowerDelayer_delay_def gt_step_def)
qed

theorem LowPowerDelayer_delay_race_witness:
  "LowPowerDelayer_delay test_gptimer (\<lambda>_. True) True 1 100
     ((BasicAsyncFlag_init, \<lparr>rt_notify = (\<lambda>_. 0), rt_owner = None\<rparr>), (0, False)) = None"
  using LowPowerDelayer_delay_race [of test_gptimer "(0, False)" "(0, False)" 100 "(0, False)" "(0, True)"
      "(0, False)" "\<lparr>rt_notify = (\<lambda>_. 0), rt_owner = None\<rparr>" 1 "\<lambda>_. True"]
  by (simp add: test_gptimer_def)

end
