(* ===== verification/Json.thy ===== *)
theory Json
  imports Core Analog Sht41 Bme280 Diagnostic Net System
begin

text \<open>
  The JSON formatters of \<open>components/ocs_fmt/json\<close> and of \<open>components/ocs_pipeline/jsonfmt\<close>.
  A document of the cJSON library is a value, a number the rational that its \<^verbatim>\<open>double\<close> denotes.
  The allocations of the library and its printer are parameters. The contract of a formatter is the
  locale \<open>json_formatter\<close>: it appends its fields, all of them or, out of memory, a prefix.
\<close>

section \<open>Documents\<close>

datatype cJSON = JNull | JBool bool | JNumber rat | JString string | JArray "cJSON list"
  | JObject "(string \<times> cJSON) list"

text \<open>
  Whether the creation of an item succeeds, depending on the heap. The created item is deleted when it
  cannot be added; adding an item to a document does not fail.
\<close>

type_synonym 'm heap = "'m \<Rightarrow> bool \<times> 'm"

definition plenty :: "'m heap \<Rightarrow> bool" where
  "plenty alloc \<longleftrightarrow> (\<forall>m. fst (alloc m))"

definition make_item :: "'m heap \<Rightarrow> cJSON \<Rightarrow> 'm \<Rightarrow> cJSON option \<times> 'm" where
  "make_item alloc item m = (case alloc m of (ok, m') \<Rightarrow> (if ok then Some item else None, m'))"

definition cJSON_AddItemToObjectCS :: "cJSON \<Rightarrow> string \<Rightarrow> cJSON \<Rightarrow> bool \<times> cJSON" where
  "cJSON_AddItemToObjectCS json key item =
     (case json of JObject kvs \<Rightarrow> (True, JObject (kvs @ [(key, item)])) | _ \<Rightarrow> (True, json))"

definition cJSON_AddItemToArray :: "cJSON \<Rightarrow> cJSON \<Rightarrow> bool \<times> cJSON" where
  "cJSON_AddItemToArray json item =
     (case json of JArray items \<Rightarrow> (True, JArray (items @ [item])) | _ \<Rightarrow> (True, json))"

text \<open>An integer passed as \<^verbatim>\<open>double\<close>.\<close>

definition double_of_int :: "int \<Rightarrow> rat" where
  "double_of_int n = float64 (of_int n)"

section \<open>Object and array formatters\<close>

definition add_item_cs :: "'m heap \<Rightarrow> string \<Rightarrow> cJSON \<Rightarrow> cJSON \<times> 'm \<Rightarrow> bool \<times> (cJSON \<times> 'm)" where
  "add_item_cs alloc key value jm =
     (case jm of (json, m) \<Rightarrow>
        case make_item alloc value m of
          (None, m') \<Rightarrow> (False, (json, m'))
        | (Some item, m') \<Rightarrow>
            (case cJSON_AddItemToObjectCS json key item of (ok, json') \<Rightarrow> (ok, (json', m'))))"

definition add_string_ref_cs where "add_string_ref_cs alloc key v = add_item_cs alloc key (JString v)"
definition add_string_cs where "add_string_cs alloc key v = add_item_cs alloc key (JString v)"
definition add_number_cs where "add_number_cs alloc key v = add_item_cs alloc key (JNumber v)"
definition add_bool_cs where "add_bool_cs alloc key v = add_item_cs alloc key (JBool v)"
definition add_true_cs where "add_true_cs alloc key = add_bool_cs alloc key True"
definition add_false_cs where "add_false_cs alloc key = add_bool_cs alloc key False"
definition add_null_cs where "add_null_cs alloc key = add_item_cs alloc key JNull"

lemmas add_cs_defs = add_string_ref_cs_def add_string_cs_def add_number_cs_def add_bool_cs_def
  add_true_cs_def add_false_cs_def add_null_cs_def

definition append_item :: "'m heap \<Rightarrow> cJSON \<Rightarrow> cJSON \<times> 'm \<Rightarrow> bool \<times> (cJSON \<times> 'm)" where
  "append_item alloc value jm =
     (case jm of (json, m) \<Rightarrow>
        case make_item alloc value m of
          (None, m') \<Rightarrow> (False, (json, m'))
        | (Some item, m') \<Rightarrow>
            (case cJSON_AddItemToArray json item of (ok, json') \<Rightarrow> (ok, (json', m'))))"

definition CjsonArrayFormatter_init :: "cJSON \<Rightarrow> cJSON checked" where
  "CjsonArrayFormatter_init json = (case json of JArray _ \<Rightarrow> Inr json | _ \<Rightarrow> Inl AssertFailed)"

definition append_uint16 :: "'m heap \<Rightarrow> u16 \<Rightarrow> cJSON \<times> 'm \<Rightarrow> bool \<times> (cJSON \<times> 'm)" where
  "append_uint16 alloc v = append_item alloc (JNumber (double_of_int (uint v)))"

definition append_string where "append_string alloc str = append_item alloc (JString str)"
definition append_string_ref where "append_string_ref alloc str = append_item alloc (JString str)"

text \<open>\<^verbatim>\<open>if (!formatter.add_...) return StatusCode::NoMem;\<close>\<close>

definition no_mem :: "('s \<Rightarrow> bool \<times> 's) \<Rightarrow> 's step" where
  "no_mem add s = (case add s of (ok, s') \<Rightarrow> (if \<not> ok then NoMem else OK, s'))"

section \<open>Generic formatters\<close>

type_synonym 'm IFormatter = "(cJSON \<times> 'm) step"

fun FanoutFormatter_format :: "'m IFormatter list \<Rightarrow> 'm IFormatter" where
  "FanoutFormatter_format [] jm = (OK, jm)"
| "FanoutFormatter_format (formatter # formatters) jm =
     (case formatter jm of
        (code, jm') \<Rightarrow> if code \<noteq> OK then (code, jm') else FanoutFormatter_format formatters jm')"

definition FanoutFormatter_add :: "'m IFormatter \<Rightarrow> 'm IFormatter list \<Rightarrow> 'm IFormatter list" where
  "FanoutFormatter_add formatter formatters = formatters @ [formatter]"

datatype FieldType = Object | Array

definition FieldFormatter_make_field :: "'m heap \<Rightarrow> FieldType \<Rightarrow> 'm \<Rightarrow> cJSON option \<times> 'm" where
  "FieldFormatter_make_field alloc type m =
     (case type of Object \<Rightarrow> make_item alloc (JObject []) m | Array \<Rightarrow> make_item alloc (JArray []) m)"

fun FieldFormatter_format :: "'m heap \<Rightarrow> string \<Rightarrow> FieldType \<Rightarrow> 'm IFormatter list \<Rightarrow> 'm IFormatter" where
  "FieldFormatter_format alloc key type formatters (json, m) =
     (case FieldFormatter_make_field alloc type m of
        (None, m1) \<Rightarrow> (NoMem, (json, m1))
      | (Some field, m1) \<Rightarrow>
          (case FanoutFormatter_format formatters (field, m1) of
             (code, (field', m2)) \<Rightarrow>
               if code \<noteq> OK then (code, (json, m2))
               else case cJSON_AddItemToObjectCS json key field' of
                 (ok, json') \<Rightarrow> if \<not> ok then (NoMem, (json, m2)) else (OK, (json', m2))))"

text \<open>
  \<^verbatim>\<open>values_\<close> is an \<^verbatim>\<open>unordered_map\<close>: an association list, which \<open>order\<close> brings into the
  unspecified order of the iteration.
\<close>

type_synonym StringFormatter = "(string \<times> string) list"
type_synonym iteration = "StringFormatter \<Rightarrow> StringFormatter"

definition StringFormatter_add :: "string \<Rightarrow> string \<Rightarrow> StringFormatter \<Rightarrow> StringFormatter" where
  "StringFormatter_add key v values = map_at [] key (\<lambda>_. v) values"

definition StringFormatter_format :: "'m heap \<Rightarrow> iteration \<Rightarrow> StringFormatter \<Rightarrow> 'm IFormatter" where
  "StringFormatter_format alloc order values =
     run_steps (map (\<lambda>(key, v). no_mem (add_string_ref_cs alloc key v)) (order values))"

definition TimeFormatter_format :: "'m heap \<Rightarrow> time \<Rightarrow> time \<Rightarrow> 'm IFormatter" where
  "TimeFormatter_format alloc start_point now jm =
     (case TimeOps_get_time now of
        None \<Rightarrow> (Error, jm)
      | Some timestamp \<Rightarrow>
          no_mem (add_number_cs alloc ''timestamp''
            (double_of_int (if timestamp < start_point then -1 else timestamp))) jm)"

text \<open>
  \<^verbatim>\<open>cJSON_PrintPreallocated\<close>: whether the text fits, and what the buffer holds afterwards.
\<close>

type_synonym printer = "cJSON \<Rightarrow> nat \<Rightarrow> bool \<times> string"

record DynamicFormatter =
  df_size :: nat
  df_buf :: string

definition DynamicFormatter_init :: "nat \<Rightarrow> DynamicFormatter checked" where
  "DynamicFormatter_init n =
     (if n = 0 then Inl AssertFailed else Inr \<lparr>df_size = n, df_buf = replicate n (CHR 0x00)\<rparr>)"

definition DynamicFormatter_format :: "printer \<Rightarrow> cJSON \<Rightarrow> DynamicFormatter \<Rightarrow> status_code \<times> DynamicFormatter" where
  "DynamicFormatter_format print json f =
     (case print json (df_size f) of (ok, buf) \<Rightarrow> (if \<not> ok then NoMem else OK, f\<lparr>df_buf := buf\<rparr>))"

section \<open>Formatters of the components\<close>

definition BME280SensorFormatter_format :: "'m heap \<Rightarrow> bool \<Rightarrow> BmeData \<Rightarrow> 'm IFormatter" where
  "BME280SensorFormatter_format alloc ff d =
     (if ff then run_steps
        [no_mem (add_number_cs alloc ''sensor_bme280_pressure'' (bme_pressure d)),
         no_mem (add_number_cs alloc ''sensor_bme280_temperature'' (bme_temperature d)),
         no_mem (add_number_cs alloc ''sensor_bme280_humidity'' (bme_humidity d))]
      else run_steps
        [no_mem (add_number_cs alloc ''pressure'' (bme_pressure d)),
         no_mem (add_number_cs alloc ''temperature'' (bme_temperature d)),
         no_mem (add_number_cs alloc ''humidity'' (bme_humidity d))])"

definition SHT41SensorFormatter_format :: "'m heap \<Rightarrow> bool \<Rightarrow> ShtData \<Rightarrow> 'm IFormatter" where
  "SHT41SensorFormatter_format alloc ff d =
     (if ff then run_steps
        [no_mem (add_number_cs alloc ''sensor_sht41_humidity'' (sht_humidity d)),
         no_mem (add_number_cs alloc ''sensor_sht41_temperature'' (sht_temperature d)),
         no_mem (add_number_cs alloc ''sensor_sht41_heating_count'' (double_of_int (uint (sht_data_heating_count d))))]
      else run_steps
        [no_mem (add_number_cs alloc ''humidity'' (sht_humidity d)),
         no_mem (add_number_cs alloc ''temperature'' (sht_temperature d)),
         no_mem (add_number_cs alloc ''heating_count'' (double_of_int (uint (sht_data_heating_count d))))])"

definition LdrSensorFormatter_format :: "'m heap \<Rightarrow> bool \<Rightarrow> LdrData \<Rightarrow> 'm IFormatter" where
  "LdrSensorFormatter_format alloc ff d =
     (if ff then run_steps
        [no_mem (add_number_cs alloc ''sensor_ldr_raw'' (double_of_int (uint (ldr_raw d)))),
         no_mem (add_number_cs alloc ''sensor_ldr_voltage'' (double_of_int (uint (ldr_voltage d)))),
         no_mem (add_number_cs alloc ''sensor_ldr_lightness'' (double_of_int (ldr_lightness d)))]
      else run_steps
        [no_mem (add_number_cs alloc ''raw'' (double_of_int (uint (ldr_raw d)))),
         no_mem (add_number_cs alloc ''voltage'' (double_of_int (uint (ldr_voltage d)))),
         no_mem (add_number_cs alloc ''lightness'' (double_of_int (ldr_lightness d)))])"

definition SoilAnalogSensorFormatter_format :: "'m heap \<Rightarrow> bool \<Rightarrow> SoilData \<Rightarrow> 'm IFormatter" where
  "SoilAnalogSensorFormatter_format alloc ff d =
     (if ff then run_steps
        [no_mem (add_number_cs alloc ''sensor_soil_raw'' (double_of_int (uint (sd_raw d)))),
         no_mem (add_number_cs alloc ''sensor_soil_voltage'' (double_of_int (uint (sd_voltage d)))),
         no_mem (add_number_cs alloc ''sensor_soil_moisture'' (double_of_int (sd_moisture d))),
         no_mem (add_string_ref_cs alloc ''sensor_soil_prev_status'' (soil_status_to_str (sd_prev_status d))),
         no_mem (add_number_cs alloc ''sensor_soil_prev_status_dur'' (double_of_int (sd_prev_status_duration d))),
         no_mem (add_string_ref_cs alloc ''sensor_soil_curr_status'' (soil_status_to_str (sd_curr_status d))),
         no_mem (add_number_cs alloc ''sensor_soil_curr_status_dur'' (double_of_int (sd_curr_status_duration d))),
         no_mem (add_number_cs alloc ''sensor_soil_write_count'' (double_of_int (uint (sd_write_count d)))),
         no_mem (add_number_cs alloc ''sensor_soil_status_len'' (double_of_int (uint (sd_status_len d)))),
         no_mem (add_number_cs alloc ''sensor_soil_status_pos'' (double_of_int (sd_status_pos d)))]
      else run_steps
        [no_mem (add_number_cs alloc ''raw'' (double_of_int (uint (sd_raw d)))),
         no_mem (add_number_cs alloc ''voltage'' (double_of_int (uint (sd_voltage d)))),
         no_mem (add_number_cs alloc ''moisture'' (double_of_int (sd_moisture d))),
         no_mem (add_string_ref_cs alloc ''prev_status'' (soil_status_to_str (sd_prev_status d))),
         no_mem (add_number_cs alloc ''prev_status_dur'' (double_of_int (sd_prev_status_duration d))),
         no_mem (add_string_ref_cs alloc ''curr_status'' (soil_status_to_str (sd_curr_status d))),
         no_mem (add_number_cs alloc ''curr_status_dur'' (double_of_int (sd_curr_status_duration d))),
         no_mem (add_number_cs alloc ''write_count'' (double_of_int (uint (sd_write_count d)))),
         no_mem (add_number_cs alloc ''status_len'' (double_of_int (uint (sd_status_len d)))),
         no_mem (add_number_cs alloc ''status_pos'' (double_of_int (sd_status_pos d)))])"

definition DS18B20SensorFormatter_format :: "'m heap \<Rightarrow> string \<Rightarrow> rat \<Rightarrow> 'm IFormatter" where
  "DS18B20SensorFormatter_format alloc sensor_id temperature =
     run_steps [no_mem (add_number_cs alloc sensor_id temperature)]"

definition ApNetworkFormatter_format :: "'m heap \<Rightarrow> ApInfo \<Rightarrow> 'm IFormatter" where
  "ApNetworkFormatter_format alloc info =
     run_steps
       [no_mem (add_number_cs alloc ''network_ap_channel'' (double_of_int (uint (ai_channel info)))),
        no_mem (add_number_cs alloc ''network_ap_cur_conn'' (double_of_int (uint (ai_cur_connection info)))),
        no_mem (add_number_cs alloc ''network_ap_max_conn'' (double_of_int (uint (ai_max_connection info))))]"

text \<open>\<open>ip_to_str\<close> is \<^verbatim>\<open>inet_ntoa_r\<close> of lwIP.\<close>

definition StaNetworkFormatter_format :: "(u32 \<Rightarrow> string) \<Rightarrow> 'm heap \<Rightarrow> StaInfo \<Rightarrow> 'm IFormatter" where
  "StaNetworkFormatter_format ip_to_str alloc info =
     run_steps
       [no_mem (add_string_cs alloc ''network_sta_ssid'' (si_ssid info)),
        no_mem (add_number_cs alloc ''network_sta_rssi'' (double_of_int (si_rssi info))),
        no_mem (add_string_ref_cs alloc ''network_sta_signal_strength'' (rssi_to_signal_strength (si_rssi info))),
        no_mem (add_string_cs alloc ''network_sta_ip'' (ip_to_str (si_ip_addr info)))]"

fun CounterFormatter_format :: "'m heap \<Rightarrow> 'w ICounter list \<Rightarrow> 'w \<Rightarrow> 'm IFormatter" where
  "CounterFormatter_format alloc [] w jm = (OK, jm)"
| "CounterFormatter_format alloc (c # cs) w jm =
     and_then (no_mem (add_number_cs alloc (ct_id c) (double_of_int (uint (ct_get c w)))))
       (CounterFormatter_format alloc cs w) jm"

text \<open>What the ESP-IDF says of the memory and of the last reset.\<close>

record system_values =
  sv_heap :: u32
  sv_heap_min :: u32
  sv_heap_internal :: u32
  sv_reset_reason :: esp_reset_reason

definition SystemFormatter_format :: "'m heap \<Rightarrow> system_values \<Rightarrow> 'm IFormatter" where
  "SystemFormatter_format alloc v =
     run_steps
       [no_mem (add_number_cs alloc ''system_memory_heap'' (double_of_int (uint (sv_heap v)))),
        no_mem (add_number_cs alloc ''system_memory_heap_min'' (double_of_int (uint (sv_heap_min v)))),
        no_mem (add_number_cs alloc ''system_memory_heap_internal'' (double_of_int (uint (sv_heap_internal v)))),
        no_mem (add_string_ref_cs alloc ''system_reset_reason'' (reset_reason_to_str (sv_reset_reason v)))]"

definition TelemetryFormatter_init :: "'m heap \<Rightarrow> system_values \<Rightarrow> 'm IFormatter list" where
  "TelemetryFormatter_init alloc v = FanoutFormatter_add (SystemFormatter_format alloc v) []"

definition VersionFormatter_init :: "string \<Rightarrow> StringFormatter" where
  "VersionFormatter_init idf_version = StringFormatter_add ''version_esp_idf'' idf_version []"

text \<open>\<^verbatim>\<open>version\<close> is a fresh \<^verbatim>\<open>core::Version\<close>.\<close>

definition RegistrationFormatter_values :: "string \<Rightarrow> DeviceInfo \<Rightarrow> StringFormatter" where
  "RegistrationFormatter_values idf_version info =
     (let vs = VersionFormatter_init idf_version;
          vs = StringFormatter_add ''fw_version''
            (if fst (Version_parse (di_fw_version info) (Version 0 0 0)) then di_fw_version info else ''<none>'') vs;
          vs = StringFormatter_add ''fw_name'' (di_fw_name info) vs;
          vs = StringFormatter_add ''fw_description'' (di_fw_description info) vs
      in StringFormatter_add ''device_id'' (di_device_id info) vs)"

definition RegistrationFormatter_init :: "'m heap \<Rightarrow> iteration \<Rightarrow> string \<Rightarrow> DeviceInfo \<Rightarrow> 'm IFormatter list" where
  "RegistrationFormatter_init alloc order idf_version info =
     FanoutFormatter_add (StringFormatter_format alloc order (RegistrationFormatter_values idf_version info)) []"

text \<open>
  The report of the tasks; two of its fields depend on the configuration of FreeRTOS. A name is a pointer, which may
  be null: \<^verbatim>\<open>cJSON_CreateString\<close> then makes no item.
\<close>

record TaskStatus =
  ts_name :: "string option"
  ts_state :: eTaskState
  ts_number :: u32
  ts_priority :: u32
  ts_stack_free :: u32
  ts_core_id :: int
  ts_run_time :: u32

definition runtime_relative :: "u32 \<Rightarrow> u32 \<Rightarrow> rat" where
  "runtime_relative run_time total_time =
     (let v = float64 (double_of_int (uint run_time) / double_of_int (uint total_time));
          multiplier = 100
      in float64 (of_int \<lceil>float64 (v * multiplier)\<rceil> / multiplier))"

definition format_task_state :: "bool \<Rightarrow> bool \<Rightarrow> 'm heap \<Rightarrow> u32 \<Rightarrow> TaskStatus \<Rightarrow> 'm IFormatter" where
  "format_task_state include_coreid run_time_stats alloc total_time st =
     run_steps
       ([(case ts_name st of None \<Rightarrow> Pair NoMem | Some name \<Rightarrow> no_mem (add_string_cs alloc ''name'' name)),
         no_mem (add_string_ref_cs alloc ''state'' (task_state_to_str (ts_state st))),
         no_mem (add_number_cs alloc ''number'' (double_of_int (uint (ts_number st)))),
         no_mem (add_number_cs alloc ''priority'' (double_of_int (uint (ts_priority st)))),
         no_mem (add_number_cs alloc ''stack_free'' (double_of_int (uint (ts_stack_free st))))]
        @ (if include_coreid then [no_mem (add_number_cs alloc ''core_id'' (double_of_int (ts_core_id st)))] else [])
        @ (if run_time_stats \<and> total_time \<noteq> 0 then
             [no_mem (add_number_cs alloc ''runtime_abs'' (double_of_int (uint (ts_run_time st)))),
              no_mem (add_number_cs alloc ''runtime_rel'' (runtime_relative (ts_run_time st) total_time))]
           else []))"

text \<open>The loop over the tasks fills the array, which is in the document already.\<close>

fun SystemStateFormatter_tasks ::
    "bool \<Rightarrow> bool \<Rightarrow> 'm heap \<Rightarrow> u32 \<Rightarrow> TaskStatus list \<Rightarrow> cJSON \<times> 'm \<Rightarrow> status_code \<times> (cJSON \<times> 'm)" where
  "SystemStateFormatter_tasks ic rs alloc total_time [] am = (OK, am)"
| "SystemStateFormatter_tasks ic rs alloc total_time (st # sts) (array, m) =
     (case make_item alloc (JObject []) m of
        (None, m1) \<Rightarrow> (NoMem, (array, m1))
      | (Some json, m1) \<Rightarrow>
          (case format_task_state ic rs alloc (total_time div 100) st (json, m1) of
             (code, (json', m2)) \<Rightarrow>
               if code \<noteq> OK then (code, (array, m2))
               else case cJSON_AddItemToArray array json' of
                 (ok, array') \<Rightarrow>
                   if \<not> ok then (NoMem, (array, m2))
                   else SystemStateFormatter_tasks ic rs alloc total_time sts (array', m2)))"

definition SystemStateFormatter_format ::
    "bool \<Rightarrow> bool \<Rightarrow> 'm heap \<Rightarrow> u32 \<Rightarrow> TaskStatus list \<Rightarrow> 'm IFormatter" where
  "SystemStateFormatter_format ic rs alloc total_time sts jm =
     (case jm of (json, m) \<Rightarrow>
        case make_item alloc (JArray []) m of
          (None, m1) \<Rightarrow> (NoMem, (json, m1))
        | (Some array, m1) \<Rightarrow>
            (case SystemStateFormatter_tasks ic rs alloc total_time sts (array, m1) of
               (code, (array', m2)) \<Rightarrow> (code, (snd (cJSON_AddItemToObjectCS json ''tasks'' array'), m2))))"

text \<open>The console task: the code, and the line it logs.\<close>

definition ConsoleTask_run ::
    "'m heap \<Rightarrow> printer \<Rightarrow> 'm IFormatter \<Rightarrow> DynamicFormatter \<Rightarrow> 'm \<Rightarrow> status_code \<times> string option \<times> DynamicFormatter \<times> 'm" where
  "ConsoleTask_run alloc print formatter df m =
     (case make_item alloc (JObject []) m of
        (None, m1) \<Rightarrow> (NoMem, None, df, m1)
      | (Some json, m1) \<Rightarrow>
          (case formatter (json, m1) of
             (code, (json', m2)) \<Rightarrow>
               if code \<noteq> OK then (code, None, df, m2)
               else case DynamicFormatter_format print json' df of
                 (code, df') \<Rightarrow>
                   if code \<noteq> OK then (code, None, df', m2) else (OK, Some (df_buf df'), df', m2)))"

section \<open>The contract of a formatter\<close>

text \<open>
  A formatter appends its fields to the object in their order: all of them with \<open>OK\<close>, or a proper prefix
  with \<open>NoMem\<close>, which does not happen while the heap has memory.
\<close>

locale json_formatter =
  fixes alloc :: "'m heap" and format :: "'m IFormatter" and kvs :: "(string \<times> cJSON) list"
  assumes appends: "\<exists>k m'. k \<le> length kvs \<and> format (JObject js, m)
      = (if k = length kvs then OK else NoMem, (JObject (js @ take k kvs), m'))"
    and succeeds: "plenty alloc \<Longrightarrow> fst (format (JObject js, m)) = OK"
begin

lemma complete: "plenty alloc \<Longrightarrow> \<exists>m'. format (JObject js, m) = (OK, (JObject (js @ kvs), m'))"
  using appends [of js m] succeeds [of js m] by (auto split: if_splits)

lemma whole: "format (JObject js, m) = (OK, (json, m')) \<Longrightarrow> json = JObject (js @ kvs)"
  using appends [of js m] by (auto split: if_splits)

end

text \<open>Composition: nothing, one item, a sequence.\<close>

lemma json_formatter_nil: "json_formatter alloc (\<lambda>jm. (OK, jm)) []"
  by unfold_locales simp_all

lemma json_formatter_item:
  "json_formatter alloc (no_mem (add_item_cs alloc key v)) [(key, v)]"
proof (unfold_locales, goal_cases)
  case (1 js m)
  then show ?case
    by (cases "alloc m"; cases "fst (alloc m)")
      (auto simp: no_mem_def add_item_cs_def make_item_def cJSON_AddItemToObjectCS_def
        intro: exI [of _ 0] exI [of _ "Suc 0"])
next
  case (2 js m)
  then show ?case
    by (auto simp: plenty_def no_mem_def add_item_cs_def make_item_def cJSON_AddItemToObjectCS_def
        split: prod.splits) (metis fst_conv)
qed

lemma json_formatter_then:
  assumes "json_formatter alloc f xs" and "json_formatter alloc g ys"
  shows "json_formatter alloc (and_then f g) (xs @ ys)"
proof (rule json_formatter.intro, goal_cases)
  case (1 js m)
  obtain k m1 where k: "k \<le> length xs"
      "f (JObject js, m) = (if k = length xs then OK else NoMem, (JObject (js @ take k xs), m1))"
    using json_formatter.appends [OF assms(1)] by blast
  show ?case
  proof (cases "k = length xs")
    case True
    obtain l m2 where l: "l \<le> length ys"
        "g (JObject (js @ xs), m1) = (if l = length ys then OK else NoMem, (JObject ((js @ xs) @ take l ys), m2))"
      using json_formatter.appends [OF assms(2)] by blast
    then show ?thesis using k(2) True by (intro exI [of _ "length xs + l"] exI [of _ m2]) (simp add: and_then_def)
  next
    case False
    then show ?thesis using k by (intro exI [of _ k] exI [of _ m1]) (auto simp: and_then_def)
  qed
next
  case (2 js m)
  obtain m1 where "f (JObject js, m) = (OK, (JObject (js @ xs), m1))"
    using json_formatter.complete [OF assms(1) 2] by blast
  then show ?case using json_formatter.succeeds [OF assms(2) 2] by (simp add: and_then_def)
qed

lemma json_formatter_steps:
  "list_all2 (json_formatter alloc) fs kvss \<Longrightarrow> json_formatter alloc (run_steps fs) (concat kvss)"
proof (induction rule: list_all2_induct)
  case Nil
  have "run_steps [] = (\<lambda>jm. (OK, jm))" by (simp add: fun_eq_iff)
  then show ?case using json_formatter_nil by simp
next
  case (Cons f fs kvs kvss)
  have "run_steps (f # fs) = and_then f (run_steps fs)" by (simp add: fun_eq_iff)
  then show ?case using json_formatter_then [OF Cons(1) Cons(3)] by simp
qed

lemma json_formatter_items:
  "json_formatter alloc (run_steps (map (\<lambda>(key, v). no_mem (add_item_cs alloc key v)) kvs)) kvs"
proof -
  have "list_all2 (json_formatter alloc) (map (\<lambda>(key, v). no_mem (add_item_cs alloc key v)) kvs) (map (\<lambda>kv. [kv]) kvs)"
    by (simp add: list_all2_conv_all_nth json_formatter_item split: prod.split)
  from json_formatter_steps [OF this] show ?thesis by (simp add: concat_map_singleton)
qed

lemma FanoutFormatter_steps: "FanoutFormatter_format fs = run_steps fs"
proof
  show "FanoutFormatter_format fs jm = run_steps fs jm" for jm
    by (induction fs arbitrary: jm) (auto simp: and_then_def split: prod.splits)
qed

text \<open>
  Formatters compose: a fan-out of formatters that keep the contract keeps it with their fields in
  order, so a document is either complete, field by field, or reported as \<open>NoMem\<close> with a prefix, and it
  is complete as long as there is memory.
\<close>

theorem FanoutFormatter_composes:
  assumes "list_all2 (json_formatter alloc) formatters kvss"
  shows "\<exists>k m'. k \<le> length (concat kvss)
    \<and> FanoutFormatter_format formatters (JObject js, m)
        = (if k = length (concat kvss) then OK else NoMem, (JObject (js @ take k (concat kvss)), m'))
    \<and> (k = length (concat kvss) \<or> \<not> plenty alloc)"
proof -
  have c: "json_formatter alloc (FanoutFormatter_format formatters) (concat kvss)"
    using json_formatter_steps [OF assms] by (simp add: FanoutFormatter_steps)
  show ?thesis
    using json_formatter.appends [OF c, of js m] json_formatter.succeeds [OF c, of js m]
    by (auto split: if_splits)
qed

section \<open>The formatters keep the contract\<close>

definition bme_fields :: "bool \<Rightarrow> BmeData \<Rightarrow> (string \<times> cJSON) list" where
  "bme_fields ff d =
     (let k = (\<lambda>key. if ff then ''sensor_bme280_'' @ key else key) in
      [(k ''pressure'', JNumber (bme_pressure d)), (k ''temperature'', JNumber (bme_temperature d)),
       (k ''humidity'', JNumber (bme_humidity d))])"

interpretation bme280_formatter:
  json_formatter alloc "BME280SensorFormatter_format alloc ff d" "bme_fields ff d" for alloc ff d
  using json_formatter_items [of alloc "bme_fields ff d"]
  by (simp add: bme_fields_def BME280SensorFormatter_format_def add_cs_defs Let_def split: if_splits)

definition sht_fields :: "bool \<Rightarrow> ShtData \<Rightarrow> (string \<times> cJSON) list" where
  "sht_fields ff d =
     (let k = (\<lambda>key. if ff then ''sensor_sht41_'' @ key else key) in
      [(k ''humidity'', JNumber (sht_humidity d)), (k ''temperature'', JNumber (sht_temperature d)),
       (k ''heating_count'', JNumber (double_of_int (uint (sht_data_heating_count d))))])"

interpretation sht41_formatter:
  json_formatter alloc "SHT41SensorFormatter_format alloc ff d" "sht_fields ff d" for alloc ff d
  using json_formatter_items [of alloc "sht_fields ff d"]
  by (simp add: sht_fields_def SHT41SensorFormatter_format_def add_cs_defs Let_def split: if_splits)

definition ldr_fields :: "bool \<Rightarrow> LdrData \<Rightarrow> (string \<times> cJSON) list" where
  "ldr_fields ff d =
     (let k = (\<lambda>key. if ff then ''sensor_ldr_'' @ key else key) in
      [(k ''raw'', JNumber (double_of_int (uint (ldr_raw d)))),
       (k ''voltage'', JNumber (double_of_int (uint (ldr_voltage d)))),
       (k ''lightness'', JNumber (double_of_int (ldr_lightness d)))])"

interpretation ldr_formatter:
  json_formatter alloc "LdrSensorFormatter_format alloc ff d" "ldr_fields ff d" for alloc ff d
  using json_formatter_items [of alloc "ldr_fields ff d"]
  by (simp add: ldr_fields_def LdrSensorFormatter_format_def add_cs_defs Let_def split: if_splits)

definition soil_fields :: "bool \<Rightarrow> SoilData \<Rightarrow> (string \<times> cJSON) list" where
  "soil_fields ff d =
     (let k = (\<lambda>key. if ff then ''sensor_soil_'' @ key else key); i = (\<lambda>n. JNumber (double_of_int n)) in
      [(k ''raw'', i (uint (sd_raw d))), (k ''voltage'', i (uint (sd_voltage d))),
       (k ''moisture'', i (sd_moisture d)),
       (k ''prev_status'', JString (soil_status_to_str (sd_prev_status d))),
       (k ''prev_status_dur'', i (sd_prev_status_duration d)),
       (k ''curr_status'', JString (soil_status_to_str (sd_curr_status d))),
       (k ''curr_status_dur'', i (sd_curr_status_duration d)),
       (k ''write_count'', i (uint (sd_write_count d))), (k ''status_len'', i (uint (sd_status_len d))),
       (k ''status_pos'', i (sd_status_pos d))])"

interpretation soil_formatter:
  json_formatter alloc "SoilAnalogSensorFormatter_format alloc ff d" "soil_fields ff d" for alloc ff d
  using json_formatter_items [of alloc "soil_fields ff d"]
  by (simp add: soil_fields_def SoilAnalogSensorFormatter_format_def add_cs_defs Let_def split: if_splits)

definition system_fields :: "system_values \<Rightarrow> (string \<times> cJSON) list" where
  "system_fields v =
     [(''system_memory_heap'', JNumber (double_of_int (uint (sv_heap v)))),
      (''system_memory_heap_min'', JNumber (double_of_int (uint (sv_heap_min v)))),
      (''system_memory_heap_internal'', JNumber (double_of_int (uint (sv_heap_internal v)))),
      (''system_reset_reason'', JString (reset_reason_to_str (sv_reset_reason v)))]"

interpretation system_formatter:
  json_formatter alloc "SystemFormatter_format alloc v" "system_fields v" for alloc v
  using json_formatter_items [of alloc "system_fields v"]
  by (simp add: system_fields_def SystemFormatter_format_def add_cs_defs)

definition counter_fields :: "'w ICounter list \<Rightarrow> 'w \<Rightarrow> (string \<times> cJSON) list" where
  "counter_fields cs w = map (\<lambda>c. (ct_id c, JNumber (double_of_int (uint (ct_get c w))))) cs"

lemma CounterFormatter_steps:
  "CounterFormatter_format alloc cs w
     = run_steps (map (\<lambda>(key, v). no_mem (add_item_cs alloc key v)) (counter_fields cs w))"
proof
  show "CounterFormatter_format alloc cs w jm
      = run_steps (map (\<lambda>(key, v). no_mem (add_item_cs alloc key v)) (counter_fields cs w)) jm" for jm
    by (induction cs arbitrary: jm) (simp_all add: counter_fields_def add_cs_defs and_then_def split: prod.split)
qed

interpretation counter_formatter:
  json_formatter alloc "CounterFormatter_format alloc cs w" "counter_fields cs w" for alloc cs w
  unfolding CounterFormatter_steps by (rule json_formatter_items)

interpretation string_formatter:
  json_formatter alloc "StringFormatter_format alloc order values" "map (\<lambda>(k, v). (k, JString v)) (order values)"
  for alloc order "values"
  using json_formatter_items [of alloc "map (\<lambda>(k, v). (k, JString v)) (order values)"]
  by (simp add: StringFormatter_format_def add_cs_defs comp_def case_prod_unfold)

lemma FieldFormatter_contract:
  assumes "list_all2 (json_formatter alloc) formatters kvss"
  shows "json_formatter alloc (FieldFormatter_format alloc key Object formatters) [(key, JObject (concat kvss))]"
proof -
  have c: "json_formatter alloc (FanoutFormatter_format formatters) (concat kvss)"
    using json_formatter_steps [OF assms] by (simp add: FanoutFormatter_steps)
  show ?thesis
  proof (unfold_locales, goal_cases)
    case (1 js m)
    show ?case
    proof (cases "make_item alloc (JObject []) m")
      case (Pair item m1)
      then have item: "item = None \<or> item = Some (JObject [])"
        by (auto simp: make_item_def split: prod.splits if_splits)
      obtain k m2 where k: "k \<le> length (concat kvss)"
          "FanoutFormatter_format formatters (JObject [], m1)
             = (if k = length (concat kvss) then OK else NoMem, (JObject ([] @ take k (concat kvss)), m2))"
        using json_formatter.appends [OF c] by blast
      show ?thesis
      proof (cases "item = None")
        case True
        then show ?thesis using Pair
          by (intro exI [of _ 0] exI [of _ m1]) (simp add: FieldFormatter_make_field_def)
      next
        case False
        then have "make_item alloc (JObject []) m = (Some (JObject []), m1)" using Pair item by auto
        then show ?thesis using k
          by (intro exI [of _ "if k = length (concat kvss) then 1 else 0"] exI [of _ m2])
            (simp add: FieldFormatter_make_field_def cJSON_AddItemToObjectCS_def)
      qed
    qed
  next
    case (2 js m)
    obtain m1 where m1: "alloc m = (True, m1)" using 2 by (metis plenty_def prod.collapse)
    obtain m2 where "FanoutFormatter_format formatters (JObject [], m1) = (OK, (JObject ([] @ concat kvss), m2))"
      using json_formatter.complete [OF c 2] by blast
    then show ?case using m1
      by (simp add: FieldFormatter_make_field_def make_item_def cJSON_AddItemToObjectCS_def)
  qed
qed

section \<open>Documents of the device\<close>

lemma map_at_new: "k \<notin> fst ` set kvs \<Longrightarrow> map_at d k f kvs = kvs @ [(k, f d)]"
  by (induction kvs) auto

lemma RegistrationFormatter_values_eq:
  "RegistrationFormatter_values idf info =
     [(''version_esp_idf'', idf),
      (''fw_version'', if fst (Version_parse (di_fw_version info) (Version 0 0 0)) then di_fw_version info else ''<none>''),
      (''fw_name'', di_fw_name info), (''fw_description'', di_fw_description info),
      (''device_id'', di_device_id info)]"
  by (simp add: RegistrationFormatter_values_def VersionFormatter_init_def StringFormatter_add_def map_at_new Let_def)

text \<open>
  The registration of a device has exactly five fields, in an unspecified order; the version of the
  firmware is given when it parses as one, and as \<open><none>\<close> otherwise.
\<close>

theorem registration_document:
  assumes "plenty alloc" and "\<And>vs. set (order vs) = set vs" and "\<And>vs. length (order vs) = length vs"
  shows "\<exists>kvs m'. FanoutFormatter_format (RegistrationFormatter_init alloc order idf info) (JObject [], m)
      = (OK, (JObject kvs, m'))
    \<and> length kvs = 5
    \<and> set kvs = {(''version_esp_idf'', JString idf),
        (''fw_version'', JString (if fst (Version_parse (di_fw_version info) (Version 0 0 0))
                                 then di_fw_version info else ''<none>'')),
        (''fw_name'', JString (di_fw_name info)), (''fw_description'', JString (di_fw_description info)),
        (''device_id'', JString (di_device_id info))}"
proof -
  let ?vs = "RegistrationFormatter_values idf info"
  let ?kvs = "map (\<lambda>(k, v). (k, JString v)) (order ?vs)"
  obtain m' where "StringFormatter_format alloc order ?vs (JObject [], m) = (OK, (JObject ([] @ ?kvs), m'))"
    using string_formatter.complete [OF assms(1)] by blast
  then have "FanoutFormatter_format (RegistrationFormatter_init alloc order idf info) (JObject [], m)
      = (OK, (JObject ?kvs, m'))"
    by (simp add: RegistrationFormatter_init_def FanoutFormatter_add_def)
  moreover have "length ?kvs = 5" using assms(3) by (simp add: RegistrationFormatter_values_eq)
  moreover have "set ?kvs = (\<lambda>(k, v). (k, JString v)) ` set ?vs" by (simp add: assms(2))
  ultimately show ?thesis by (intro exI [of _ ?kvs] exI [of _ m']) (simp add: RegistrationFormatter_values_eq)
qed

theorem registration_document_witness:
  "\<exists>kvs m'. FanoutFormatter_format (RegistrationFormatter_init (\<lambda>m :: unit. (True, m)) rev ''v5''
       (DeviceInfo_init ''fw'' ''x'' ''d'' ''id'')) (JObject [], ()) = (OK, (JObject kvs, m'))
     \<and> length kvs = 5"
proof -
  have "plenty (\<lambda>m :: unit. (True, m))" by (simp add: plenty_def)
  from registration_document [OF this, of rev "''v5''" "DeviceInfo_init ''fw'' ''x'' ''d'' ''id''" "()"]
  show ?thesis by auto
qed

theorem FanoutFormatter_composes_witness:
  "\<forall>v d. \<exists>k :: nat. k \<le> 7 \<and> fst (FanoutFormatter_format
     [SystemFormatter_format (\<lambda>m. (0 < m, m - 1)) v, LdrSensorFormatter_format (\<lambda>m. (0 < m, m - 1)) True d]
     (JObject [], 5 :: nat)) = (if k = 7 then OK else NoMem)"
proof (intro allI)
  fix v d
  let ?alloc = "\<lambda>m :: nat. (0 < m, m - 1)"
  let ?fs = "[SystemFormatter_format ?alloc v, LdrSensorFormatter_format ?alloc True d]"
  let ?kvss = "[system_fields v, ldr_fields True d]"
  have "list_all2 (json_formatter ?alloc) ?fs ?kvss"
    by (simp add: system_formatter.json_formatter_axioms ldr_formatter.json_formatter_axioms)
  then obtain k m' where k: "k \<le> length (concat ?kvss)"
      "FanoutFormatter_format ?fs (JObject [], 5)
         = (if k = length (concat ?kvss) then OK else NoMem, (JObject ([] @ take k (concat ?kvss)), m'))"
    using FanoutFormatter_composes [of ?alloc ?fs ?kvss "[]" 5] by blast
  have len: "length (concat ?kvss) = 7" by (simp add: system_fields_def ldr_fields_def Let_def)
  have "fst (FanoutFormatter_format ?fs (JObject [], 5)) = (if k = 7 then OK else NoMem)"
    unfolding k(2) len by (simp only: fst_conv)
  then show "\<exists>k :: nat. k \<le> 7 \<and> fst (FanoutFormatter_format ?fs (JObject [], 5)) = (if k = 7 then OK else NoMem)"
    using k(1) len by (intro exI [of _ k]) (simp only: simp_thms)
qed

text \<open>The report has one object per task, in the order FreeRTOS gives them.\<close>

lemma SystemStateFormatter_tasks_count:
  assumes "plenty alloc" and "\<forall>st\<in>set sts. ts_name st \<noteq> None"
  shows "\<exists>items m'. SystemStateFormatter_tasks ic rs alloc ttime sts (JArray js, m) = (OK, (JArray (js @ items), m'))
    \<and> length items = length sts"
  using assms(2)
proof (induction sts arbitrary: js m)
  case (Cons st sts)
  obtain name where name: "ts_name st = Some name" using Cons.prems by auto
  obtain m1 where m1: "alloc m = (True, m1)" using assms(1) by (metis plenty_def prod.collapse)
  let ?kvs = "[(''name'', JString name), (''state'', JString (task_state_to_str (ts_state st))),
     (''number'', JNumber (double_of_int (uint (ts_number st)))),
     (''priority'', JNumber (double_of_int (uint (ts_priority st)))),
     (''stack_free'', JNumber (double_of_int (uint (ts_stack_free st))))]
     @ (if ic then [(''core_id'', JNumber (double_of_int (ts_core_id st)))] else [])
     @ (if rs \<and> ttime div 100 \<noteq> 0 then
          [(''runtime_abs'', JNumber (double_of_int (uint (ts_run_time st)))),
           (''runtime_rel'', JNumber (runtime_relative (ts_run_time st) (ttime div 100)))] else [])"
  have "format_task_state ic rs alloc (ttime div 100) st
      = run_steps (map (\<lambda>(key, v). no_mem (add_item_cs alloc key v)) ?kvs)"
    by (cases ic; cases rs; cases "ttime div 100 = 0"; simp add: format_task_state_def add_cs_defs name)
  then have "json_formatter alloc (format_task_state ic rs alloc (ttime div 100) st) ?kvs"
    by (simp only: json_formatter_items)
  from json_formatter.complete [OF this assms(1), of "[]" m1] obtain m2 where
    "format_task_state ic rs alloc (ttime div 100) st (JObject [], m1) = (OK, (JObject ?kvs, m2))" by auto
  moreover obtain items m' where "SystemStateFormatter_tasks ic rs alloc ttime sts (JArray (js @ [JObject ?kvs]), m2)
      = (OK, (JArray ((js @ [JObject ?kvs]) @ items), m'))" "length items = length sts"
    using Cons.IH Cons.prems by (meson list.set_intros(2))
  ultimately show ?case using m1
    by (intro exI [of _ "JObject ?kvs # items"] exI [of _ m'])
      (simp add: make_item_def cJSON_AddItemToArray_def del: append.simps append_assoc)
qed simp

end
