(* ===== verification/RomScan.thy ===== *)
theory RomScan
  imports OneWire
begin

text \<open>
  The search for the devices on a 1-Wire bus, \<^verbatim>\<open>onewire::RomCodeScanner\<close>
  (ocs_onewire/rom_code_scanner.cpp), and the loop of the HTTP handler that calls it
  (ocs_pipeline/httpserver/ds18b20_handler.cpp, \<^verbatim>\<open>scan_rom_codes\<close>), against the behaviour of the
  devices in a ROM search.
\<close>

section \<open>The scanner\<close>

record RomCodeScanner =
  sc_finished :: bool
  sc_prev_discrepancy :: int
  sc_curr_discrepancy :: int
  sc_conflict_count :: u32

definition RomCodeScanner_init :: RomCodeScanner where
  "RomCodeScanner_init = \<lparr>sc_finished = False, sc_prev_discrepancy = - 1,
     sc_curr_discrepancy = - 1, sc_conflict_count = 0\<rparr>"

definition RomCodeScanner_reset :: "RomCodeScanner \<Rightarrow> RomCodeScanner" where
  "RomCodeScanner_reset s = s\<lparr>sc_finished := False, sc_prev_discrepancy := - 1,
     sc_curr_discrepancy := - 1, sc_conflict_count := 0\<rparr>"

text \<open>\<^verbatim>\<open>nth(buf[byte_pos], bit_pos)\<close>; a byte outside the buffer is undefined behaviour.\<close>

definition buf_nth :: "bytes \<Rightarrow> nat \<Rightarrow> u8 checked" where
  "buf_nth buf position =
     (if position div 8 < length buf
      then Inr (BitOps_nth (ucast (buf ! (position div 8))) (of_nat (position mod 8)))
      else Inl OutOfBounds)"

definition RomCodeScanner_handle_discrepancy ::
    "bytes \<Rightarrow> int \<Rightarrow> RomCodeScanner \<Rightarrow> (u8 \<times> RomCodeScanner) checked" where
  "RomCodeScanner_handle_discrepancy buf position s =
     (if sc_curr_discrepancy s = position then
        (if position = 0 then
           Inr (1, s\<lparr>sc_prev_discrepancy := 0, sc_curr_discrepancy := - 1, sc_conflict_count := 0\<rparr>)
         else if sc_conflict_count s = 0 then Inl AssertFailed
         else Inr (1, s\<lparr>sc_curr_discrepancy := sc_prev_discrepancy s,
                        sc_conflict_count := sc_conflict_count s - 1\<rparr>))
      else if sc_curr_discrepancy s < position then
        Inr (0, (if sc_prev_discrepancy s < 0
                 then s\<lparr>sc_prev_discrepancy := position, sc_curr_discrepancy := position,
                        sc_conflict_count := sc_conflict_count s + 1\<rparr>
                 else s\<lparr>sc_prev_discrepancy := sc_curr_discrepancy s,
                        sc_curr_discrepancy := position,
                        sc_conflict_count := sc_conflict_count s + 1\<rparr>))
      else if sc_prev_discrepancy s < 0 then Inl AssertFailed
      else (case buf_nth buf (nat (sc_prev_discrepancy s)) of
              Inl f \<Rightarrow> Inl f
            | Inr v \<Rightarrow> Inr (v, s\<lparr>sc_prev_discrepancy := position\<rparr>)))"

definition buf_store :: "bytes \<Rightarrow> nat \<Rightarrow> bool \<Rightarrow> bytes" where
  "buf_store buf n v = buf[n div 8 := store_bit (buf ! (n div 8)) (n mod 8) v]"

text \<open>The loop over the bit positions.\<close>

fun RomCodeScanner_scan_loop ::
    "'w wire \<Rightarrow> nat list \<Rightarrow> bytes \<Rightarrow> RomCodeScanner \<Rightarrow> 'w \<Rightarrow>
       (status_code \<times> bytes \<times> RomCodeScanner \<times> 'w) checked" where
  "RomCodeScanner_scan_loop wire [] buf s w = Inr (OK, buf, s, w)"
| "RomCodeScanner_scan_loop wire (n # ns) buf s w =
     (case wr_read_bit wire 0 w of
        (code, bit1, w1) \<Rightarrow>
          if code \<noteq> OK then Inr (code, buf, s, w1)
          else (case wr_read_bit wire 0 w1 of
             (code, bit2, w2) \<Rightarrow>
               if code \<noteq> OK then Inr (code, buf, s, w2)
               else if bit1 \<noteq> 0 \<and> bit2 \<noteq> 0 then Inr (NoData, buf, s, w2)
               else (case (if bit1 = 0 \<and> bit2 = 0
                           then RomCodeScanner_handle_discrepancy buf (int n) s
                           else Inr ((if bit1 \<noteq> 0 \<and> bit2 = 0 then 1 else 0), s)) of
                  Inl f \<Rightarrow> Inl f
                | Inr (v, s') \<Rightarrow>
                    let buf' = buf_store buf n (v \<noteq> 0)
                    in case wr_write_bit wire v w2 of
                         (code, w3) \<Rightarrow>
                           if code \<noteq> OK then Inr (code, buf', s', w3)
                           else RomCodeScanner_scan_loop wire ns buf' s' w3)))"

definition RomCodeScanner_scan_buf ::
    "'w wire \<Rightarrow> bytes \<Rightarrow> RomCodeScanner \<Rightarrow> 'w \<Rightarrow>
       (status_code \<times> bytes \<times> RomCodeScanner \<times> 'w) checked" where
  "RomCodeScanner_scan_buf wire buf s w =
     RomCodeScanner_scan_loop wire [0..<length buf * 8] buf s w"

definition RomCodeScanner_scan ::
    "'w wire \<Rightarrow> RomCode \<Rightarrow> RomCodeScanner \<Rightarrow> 'w \<Rightarrow>
       (status_code \<times> RomCode \<times> RomCodeScanner \<times> 'w) checked" where
  "RomCodeScanner_scan wire rc s w =
     (if sc_finished s then Inr (NoData, rc, s, w)
      else
        (case run_steps [wr_reset wire, Bus_write_byte wire SearchRom] w of
           (code, w1) \<Rightarrow>
             if code \<noteq> OK then Inr (code, rc, s, w1)
             else (case RomCodeScanner_scan_buf wire (RomCode_bytes rc) s w1 of
                Inl f \<Rightarrow> Inl f
              | Inr (code, buf, s', w2) \<Rightarrow>
                  let rc' = RomCode_of_bytes buf
                  in if code \<noteq> OK then Inr (code, rc', s', w2)
                     else if \<not> RomCode_valid rc' then Inr (Error, rc', s', w2)
                     else Inr (OK, rc', (if sc_conflict_count s' = 0 then s'\<lparr>sc_finished := True\<rparr>
                                         else s'), w2))))"

section \<open>Devices in a search\<close>

definition code_bit :: "bytes \<Rightarrow> nat \<Rightarrow> bool" where
  "code_bit c n = bit (c ! (n div 8)) (n mod 8)"

text \<open>
  The behaviour of the devices in a ROM search. \<open>srch w = Some (cs, n, k)\<close>: the devices \<open>cs\<close> take part, at
  bit \<open>n\<close>, and \<open>k\<close> of the two reads of this bit are done. The bus is a wired AND: the first read is
  one when all bits are one, the second when all are zero; the written bit selects the devices that go on.
\<close>

definition search_laws :: "'w wire \<Rightarrow> ('w \<Rightarrow> (bytes list \<times> nat \<times> nat) option) \<Rightarrow> bytes list \<Rightarrow> bool" where
  "search_laws wire srch devs \<longleftrightarrow>
     (\<forall>w. \<exists>w'. run_steps [wr_reset wire, Bus_write_byte wire SearchRom] w = (OK, w')
        \<and> srch w' = Some (devs, 0, 0))
   \<and> (\<forall>v w cs n. srch w = Some (cs, n, 0) \<longrightarrow> (\<exists>w'. wr_read_bit wire v w
        = (OK, (if list_all (\<lambda>c. code_bit c n) cs then 1 else 0), w') \<and> srch w' = Some (cs, n, 1)))
   \<and> (\<forall>v w cs n. srch w = Some (cs, n, 1) \<longrightarrow> (\<exists>w'. wr_read_bit wire v w
        = (OK, (if list_all (\<lambda>c. \<not> code_bit c n) cs then 1 else 0), w') \<and> srch w' = Some (cs, n, 2)))
   \<and> (\<forall>v w cs n. srch w = Some (cs, n, 2) \<longrightarrow> (\<exists>w'. wr_write_bit wire v w = (OK, w')
        \<and> srch w' = Some (filter (\<lambda>c. code_bit c n = (v \<noteq> 0)) cs, Suc n, 0)))"

text \<open>The code of the buffer agrees with \<open>c\<close> on the first \<open>n\<close> bits.\<close>

definition agrees :: "bytes \<Rightarrow> bytes \<Rightarrow> nat \<Rightarrow> bool" where
  "agrees buf c n \<longleftrightarrow> length buf = 8 \<and> (\<forall>m < n. code_bit buf m = code_bit c m)"

lemma code_bit_buf_store:
  assumes "length buf = 8" and "n < 64"
  shows "code_bit (buf_store buf n v) m \<longleftrightarrow> (if m = n then v else code_bit buf m)"
proof (cases "m div 8 = n div 8")
  case True
  then have "m = n \<longleftrightarrow> m mod 8 = n mod 8" by (metis div_mult_mod_eq)
  moreover have "n div 8 < 8" using assms(2) by simp
  ultimately show ?thesis
    using assms True by (simp add: code_bit_def buf_store_def bit_store_bit)
next
  case False
  then show ?thesis
    using assms by (auto simp: code_bit_def buf_store_def nth_list_update)
qed

lemma agrees_store:
  "agrees buf c n \<Longrightarrow> n < 64 \<Longrightarrow> agrees (buf_store buf n (code_bit c n)) c (Suc n)"
  by (auto simp: agrees_def code_bit_buf_store less_Suc_eq) (simp add: buf_store_def)

lemma agrees_eq: "agrees buf c 64 \<Longrightarrow> length c = 8 \<Longrightarrow> buf = c"
proof (rule nth_equalityI)
  assume a: "agrees buf c 64" and l: "length c = 8"
  then show "length buf = length c" by (simp add: agrees_def)
  fix i assume i: "i < length buf"
  show "buf ! i = c ! i"
  proof (rule u8_eqI)
    fix n :: nat assume n: "n < 8"
    have "8 * i + n < 64" using i n a by (simp add: agrees_def)
    then have "code_bit buf (8 * i + n) = code_bit c (8 * i + n)" using a by (simp add: agrees_def)
    then show "bit (buf ! i) n = bit (c ! i) n" using n by (simp add: code_bit_def)
  qed
qed

lemma search_start:
  "search_laws wire srch devs \<Longrightarrow> \<exists>w'. run_steps [wr_reset wire, Bus_write_byte wire SearchRom] w
     = (OK, w') \<and> srch w' = Some (devs, 0, 0)"
  unfolding search_laws_def by (elim conjE) (rule spec)

lemma search_read:
  assumes "search_laws wire srch devs" and "srch w = Some (cs, n, 0)"
  shows "\<exists>w1 w2. wr_read_bit wire 0 w = (OK, (if list_all (\<lambda>c. code_bit c n) cs then 1 else 0), w1)
    \<and> wr_read_bit wire 0 w1 = (OK, (if list_all (\<lambda>c. \<not> code_bit c n) cs then 1 else 0), w2)
    \<and> srch w2 = Some (cs, n, 2)"
proof -
  have r0: "\<exists>w'. wr_read_bit wire v w = (OK, (if list_all (\<lambda>c. code_bit c n) cs then 1 else 0), w')
      \<and> srch w' = Some (cs, n, 1)" if "srch w = Some (cs, n, 0)" for v w cs n
    using assms(1) that unfolding search_laws_def by (elim conjE) simp
  have r1: "\<exists>w'. wr_read_bit wire v w = (OK, (if list_all (\<lambda>c. \<not> code_bit c n) cs then 1 else 0), w')
      \<and> srch w' = Some (cs, n, 2)" if "srch w = Some (cs, n, 1)" for v w cs n
    using assms(1) that unfolding search_laws_def by (elim conjE) simp
  from r0 [OF assms(2)] r1 show ?thesis by meson
qed

lemma search_write:
  assumes "search_laws wire srch devs" and "srch w = Some (cs, n, 2)"
  shows "\<exists>w'. wr_write_bit wire v w = (OK, w')
    \<and> srch w' = Some (filter (\<lambda>c. code_bit c n = (v \<noteq> 0)) cs, Suc n, 0)"
  using assms unfolding search_laws_def by (elim conjE) simp

text \<open>One position at which the devices agree, and one at which they do not.\<close>

lemma scan_step_agree:
  assumes "search_laws wire srch devs" and "srch w = Some (cs, n, 0)" and "cs \<noteq> []"
    and "\<forall>c' \<in> set cs. code_bit c' n = code_bit c n"
  shows "\<exists>w'. RomCodeScanner_scan_loop wire (n # ns) buf s w
      = RomCodeScanner_scan_loop wire ns (buf_store buf n (code_bit c n)) s w'
    \<and> srch w' = Some (cs, Suc n, 0)"
proof -
  let ?v = "if code_bit c n then 1 else 0 :: u8"
  obtain c0 where "c0 \<in> set cs" using assms(3) by fastforce
  then have a: "list_all (\<lambda>c. code_bit c n) cs \<longleftrightarrow> code_bit c n"
    "list_all (\<lambda>c. \<not> code_bit c n) cs \<longleftrightarrow> \<not> code_bit c n"
    using assms(4) by (auto simp: list_all_iff)
  obtain w1 w2 where w: "wr_read_bit wire 0 w = (OK, (if code_bit c n then 1 else 0), w1)"
    "wr_read_bit wire 0 w1 = (OK, (if \<not> code_bit c n then 1 else 0), w2)"
    "srch w2 = Some (cs, n, 2)"
    using search_read [OF assms(1,2)] unfolding a by blast
  have f: "filter (\<lambda>c'. code_bit c' n = (?v \<noteq> 0)) cs = cs"
    using assms(4) by (intro filter_True) auto
  obtain w3 where w3: "wr_write_bit wire ?v w2 = (OK, w3)" "srch w3 = Some (cs, Suc n, 0)"
    using search_write [OF assms(1) w(3), of ?v] unfolding f by blast
  show ?thesis
  proof (cases "code_bit c n")
    case True
    then show ?thesis using w w3 by auto
  next
    case False
    then show ?thesis using w w3 by auto
  qed
qed

lemma scan_step_conflict:
  assumes "search_laws wire srch devs" and "srch w = Some (cs, n, 0)"
    and "\<not> list_all (\<lambda>c. code_bit c n) cs" and "\<not> list_all (\<lambda>c. \<not> code_bit c n) cs"
    and "RomCodeScanner_handle_discrepancy buf (int n) s = Inr (v, s')"
  shows "\<exists>w'. RomCodeScanner_scan_loop wire (n # ns) buf s w
      = RomCodeScanner_scan_loop wire ns (buf_store buf n (v \<noteq> 0)) s' w'
    \<and> srch w' = Some (filter (\<lambda>c. code_bit c n = (v \<noteq> 0)) cs, Suc n, 0)"
proof -
  obtain w1 w2 where w: "wr_read_bit wire 0 w = (OK, 0, w1)" "wr_read_bit wire 0 w1 = (OK, 0, w2)"
    "srch w2 = Some (cs, n, 2)"
    using search_read [OF assms(1,2)] assms(3,4) by auto
  obtain w3 where w3: "wr_write_bit wire v w2 = (OK, w3)"
    "srch w3 = Some (filter (\<lambda>c. code_bit c n = (v \<noteq> 0)) cs, Suc n, 0)"
    using search_write [OF assms(1) w(3)] by blast
  have "RomCodeScanner_scan_loop wire (n # ns) buf s w
      = RomCodeScanner_scan_loop wire ns (buf_store buf n (v \<noteq> 0)) s' w3"
    using w(1,2) w3(1) assms(5) by simp
  with w3(2) show ?thesis by blast
qed

text \<open>A stretch of positions at which all devices that take part agree with \<open>c\<close>.\<close>

lemma scan_segment:
  assumes "search_laws wire srch devs" and "srch w = Some (cs, i, 0)" and "cs \<noteq> []"
    and "\<forall>c' \<in> set cs. \<forall>n. i \<le> n \<and> n < j \<longrightarrow> code_bit c' n = code_bit c n"
    and "agrees buf c i" and "i \<le> j" and "j \<le> 64"
  shows "\<exists>buf' w'. RomCodeScanner_scan_loop wire ([i..<j] @ ns) buf s w
      = RomCodeScanner_scan_loop wire ns buf' s w'
    \<and> srch w' = Some (cs, j, 0) \<and> agrees buf' c j \<and> (\<forall>m \<ge> j. code_bit buf' m = code_bit buf m)"
  using assms(2-)
proof (induction "j - i" arbitrary: i buf w)
  case 0
  then have "i = j" by simp
  with 0 show ?case by auto
next
  case (Suc k)
  then have ij: "i < j" by simp
  let ?b = "buf_store buf i (code_bit c i)"
  have "\<forall>c' \<in> set cs. code_bit c' i = code_bit c i" using Suc.prems(3) ij by simp
  from scan_step_agree [OF assms(1) Suc.prems(1,2) this] obtain w1 where w1:
    "RomCodeScanner_scan_loop wire (i # [Suc i..<j] @ ns) buf s w
      = RomCodeScanner_scan_loop wire ([Suc i..<j] @ ns) ?b s w1"
    "srch w1 = Some (cs, Suc i, 0)" by blast
  have ag: "agrees ?b c (Suc i)" using agrees_store Suc.prems(4,6) ij by simp
  have keep: "\<forall>m \<ge> j. code_bit ?b m = code_bit buf m"
    using Suc.prems(4,6) ij by (auto simp: agrees_def code_bit_buf_store)
  have k: "k = j - Suc i" "Suc i \<le> j" using Suc.hyps(2) ij by simp_all
  have seg: "\<forall>c' \<in> set cs. \<forall>n. Suc i \<le> n \<and> n < j \<longrightarrow> code_bit c' n = code_bit c n"
    using Suc.prems(3) by simp
  obtain buf' w' where "RomCodeScanner_scan_loop wire ([Suc i..<j] @ ns) ?b s w1
      = RomCodeScanner_scan_loop wire ns buf' s w'"
    "srch w' = Some (cs, j, 0)" "agrees buf' c j" "\<forall>m \<ge> j. code_bit buf' m = code_bit ?b m"
    using Suc.hyps(1) [OF k(1) w1(2) Suc.prems(2) seg ag k(2) Suc.prems(6)] by blast
  then show ?case using w1(1) ij keep by (auto simp: upt_conv_Cons)
qed

text \<open>The first position at which they do not agree, when the scanner takes the branch of \<open>c\<close> there.\<close>

lemma scan_branch:
  assumes "search_laws wire srch devs" and "srch w = Some (cs, i, 0)"
    and "\<forall>c' \<in> set cs. \<forall>n. i \<le> n \<and> n < d \<longrightarrow> code_bit c' n = code_bit c n"
    and "agrees buf c i" and "i \<le> d" and "d < 64"
    and "\<exists>x \<in> set cs. code_bit x d" and "\<exists>x \<in> set cs. \<not> code_bit x d"
    and "\<And>buf'. length buf' = 8 \<Longrightarrow> \<forall>m \<ge> d. code_bit buf' m = code_bit buf m \<Longrightarrow>
      RomCodeScanner_handle_discrepancy buf' (int d) s = Inr (if code_bit c d then 1 else 0, s')"
  shows "\<exists>buf' w'. RomCodeScanner_scan_loop wire [i..<64] buf s w
      = RomCodeScanner_scan_loop wire [Suc d..<64] buf' s' w'
    \<and> srch w' = Some (filter (\<lambda>x. code_bit x d = code_bit c d) cs, Suc d, 0)
    \<and> agrees buf' c (Suc d) \<and> (\<forall>m \<ge> Suc d. code_bit buf' m = code_bit buf m)"
proof -
  have cs: "cs \<noteq> []" using assms(7) by auto
  have d: "d \<le> 64" using assms(6) by simp
  from scan_segment [OF assms(1,2) cs assms(3,4,5) d, of "d # [Suc d..<64]" s]
  obtain b1 w1 where w1: "RomCodeScanner_scan_loop wire ([i..<d] @ d # [Suc d..<64]) buf s w
      = RomCodeScanner_scan_loop wire (d # [Suc d..<64]) b1 s w1" "srch w1 = Some (cs, d, 0)"
    "agrees b1 c d" "\<forall>m \<ge> d. code_bit b1 m = code_bit buf m" by blast
  have l: "length b1 = 8" using w1(3) by (simp add: agrees_def)
  have n: "\<not> list_all (\<lambda>c. code_bit c d) cs" "\<not> list_all (\<lambda>c. \<not> code_bit c d) cs"
    using assms(7,8) by (auto simp: list_all_iff)
  let ?v = "if code_bit c d then 1 else 0 :: u8"
  have v: "(?v \<noteq> 0) = code_bit c d" by simp
  from scan_step_conflict [OF assms(1) w1(2) n assms(9) [OF l w1(4)], of "[Suc d..<64]"]
  obtain w2 where w2: "RomCodeScanner_scan_loop wire (d # [Suc d..<64]) b1 s w1
      = RomCodeScanner_scan_loop wire [Suc d..<64] (buf_store b1 d (code_bit c d)) s' w2"
    "srch w2 = Some (filter (\<lambda>x. code_bit x d = code_bit c d) cs, Suc d, 0)"
    unfolding v by blast
  have "[i..<64] = [i..<d] @ d # [Suc d..<64]"
    using assms(5,6) upt_add_eq_append [of i d "64 - d"] by (simp add: upt_conv_Cons)
  moreover have "agrees (buf_store b1 d (code_bit c d)) c (Suc d)"
    using agrees_store w1(3) assms(6) by simp
  moreover have "\<forall>m \<ge> Suc d. code_bit (buf_store b1 d (code_bit c d)) m = code_bit buf m"
    using w1(4) l assms(6) by (auto simp: code_bit_buf_store)
  ultimately show ?thesis using w1(1) w2 by metis
qed

text \<open>Once a single code is left, its remaining bits are read.\<close>

lemma scan_tail:
  assumes "search_laws wire srch devs" and "srch w = Some (cs, i, 0)" and "cs \<noteq> []"
    and "\<forall>c' \<in> set cs. c' = c" and "agrees buf c i" and "i \<le> 64" and "length c = 8"
  shows "\<exists>w'. RomCodeScanner_scan_loop wire [i..<64] buf s w = Inr (OK, c, s, w')"
proof -
  from scan_segment [OF assms(1-3) _ assms(5,6), of "[]" s] assms(4)
  obtain buf' w' where "RomCodeScanner_scan_loop wire [i..<64] buf s w = Inr (OK, buf', s, w')"
    "agrees buf' c 64" by auto
  with agrees_eq assms(7) show ?thesis by blast
qed

abbreviation fresh_buf :: bytes where "fresh_buf \<equiv> RomCode_bytes RomCode_init"

lemma fresh_buf [simp]: "length fresh_buf = 8" "n < 64 \<Longrightarrow> \<not> code_bit fresh_buf n"
proof -
  have f: "fresh_buf = replicate 8 0" by (simp add: RomCode_bytes_def RomCode_init_def numeral_eq_Suc)
  then show "length fresh_buf = 8" by simp
  show "n < 64 \<Longrightarrow> \<not> code_bit fresh_buf n" unfolding f code_bit_def by simp
qed

text \<open>From the loop to a scan.\<close>

lemma scan_from_loop:
  assumes "search_laws wire srch devs" and "\<not> sc_finished s" and "RomCode_valid (RomCode_of_bytes c)"
    and "\<And>w. srch w = Some (devs, 0, 0) \<Longrightarrow>
      \<exists>w'. RomCodeScanner_scan_loop wire [0..<64] fresh_buf s w = Inr (OK, c, s', w')"
  shows "\<exists>w'. RomCodeScanner_scan wire RomCode_init s w = Inr (OK, RomCode_of_bytes c,
    (if sc_conflict_count s' = 0 then s'\<lparr>sc_finished := True\<rparr> else s'), w')"
proof -
  obtain w1 where w1: "run_steps [wr_reset wire, Bus_write_byte wire SearchRom] w = (OK, w1)"
    "srch w1 = Some (devs, 0, 0)"
    using search_start [OF assms(1)] by blast
  obtain w2 where w2: "RomCodeScanner_scan_loop wire [0..<64] fresh_buf s w1 = Inr (OK, c, s', w2)"
    using assms(4) [OF w1(2)] by blast
  show ?thesis
    using assms(2,3) w1(1) w2
    by (simp add: RomCodeScanner_scan_def RomCodeScanner_scan_buf_def Let_def
        del: run_steps.simps RomCodeScanner_scan_loop.simps upt_rec_numeral)
qed

text \<open>A scan in the state \<open>s\<close> finds \<open>rc\<close> and leaves the scanner in \<open>s'\<close>, whatever the world is.\<close>

abbreviation scans :: "'w wire \<Rightarrow> RomCodeScanner \<Rightarrow> RomCode \<Rightarrow> RomCodeScanner \<Rightarrow> bool" where
  "scans wire s rc s' \<equiv> \<forall>w. \<exists>w'. RomCodeScanner_scan wire RomCode_init s w = Inr (OK, rc, s', w')"

text \<open>Where two codes part.\<close>

definition parts_at :: "bytes \<Rightarrow> bytes \<Rightarrow> nat \<Rightarrow> bool" where
  "parts_at a b d \<longleftrightarrow> length a = 8 \<and> length b = 8 \<and> d < 64
     \<and> (\<forall>n < d. code_bit a n = code_bit b n) \<and> \<not> code_bit a d \<and> code_bit b d"

abbreviation sc_at :: "int \<Rightarrow> int \<Rightarrow> u32 \<Rightarrow> RomCodeScanner" where
  "sc_at p c n \<equiv> \<lparr>sc_finished = False, sc_prev_discrepancy = p, sc_curr_discrepancy = c,
     sc_conflict_count = n\<rparr>"

lemma agrees_0: "length buf = 8 \<Longrightarrow> agrees buf c 0"
  by (simp add: agrees_def)

text \<open>The first scan from the start takes the branch of the zeros at the first conflict.\<close>

lemma first_scan:
  assumes "search_laws wire srch devs" and "set devs = {a} \<union> bs" and "bs \<noteq> {}"
    and "\<forall>b \<in> bs. parts_at a b d" and "RomCode_valid (RomCode_of_bytes a)"
  shows "\<exists>w'. RomCodeScanner_scan wire RomCode_init RomCodeScanner_init w
    = Inr (OK, RomCode_of_bytes a, sc_at (int d) (int d) 1, w')"
proof -
  obtain b where b: "b \<in> bs" using assms(3) by blast
  have d: "d < 64" "length a = 8" "\<not> code_bit a d"
    using b assms(4) by (auto simp: parts_at_def)
  have "\<exists>w'. RomCodeScanner_scan_loop wire [0..<64] fresh_buf RomCodeScanner_init w
      = Inr (OK, a, sc_at (int d) (int d) 1, w')" if w: "srch w = Some (devs, 0, 0)" for w
  proof -
    have agree: "\<forall>c' \<in> set devs. \<forall>n. 0 \<le> n \<and> n < d \<longrightarrow> code_bit c' n = code_bit a n"
      using assms(2,4) by (auto simp: parts_at_def)
    have ex: "\<exists>x \<in> set devs. code_bit x d" "\<exists>x \<in> set devs. \<not> code_bit x d"
      using assms(2,4) b d(3) by (auto simp: parts_at_def)
    have h: "RomCodeScanner_handle_discrepancy buf' (int d) RomCodeScanner_init
        = Inr (if code_bit a d then 1 else 0, sc_at (int d) (int d) 1)" for buf'
      using d(3) by (simp add: RomCodeScanner_handle_discrepancy_def RomCodeScanner_init_def)
    from scan_branch [OF assms(1) w agree agrees_0 [OF fresh_buf(1)] le0 d(1) ex h]
    obtain b1 w1 where b1:
      "RomCodeScanner_scan_loop wire [0..<64] fresh_buf RomCodeScanner_init w
        = RomCodeScanner_scan_loop wire [Suc d..<64] b1 (sc_at (int d) (int d) 1) w1"
      "srch w1 = Some (filter (\<lambda>x. code_bit x d = code_bit a d) devs, Suc d, 0)"
      "agrees b1 a (Suc d)"
      by blast
    have one: "\<forall>c' \<in> set (filter (\<lambda>x. code_bit x d = code_bit a d) devs). c' = a"
      "filter (\<lambda>x. code_bit x d = code_bit a d) devs \<noteq> []"
      using assms(2,4) d(3) by (auto simp: parts_at_def filter_empty_conv)
    from scan_tail [OF assms(1) b1(2) one(2,1) b1(3) _ d(2)] d(1) b1(1) show ?thesis by auto
  qed
  from scan_from_loop [OF assms(1) _ assms(5) this] show ?thesis
    by (simp add: RomCodeScanner_init_def)
qed

text \<open>Two devices: one scan for each, the one with a zero at the first different bit first.\<close>

lemma two_scans:
  assumes "search_laws wire srch devs" and "set devs = {a, b}" and "parts_at a b d"
    and "RomCode_valid (RomCode_of_bytes a)" and "RomCode_valid (RomCode_of_bytes b)"
  shows "\<exists>s1 s2. scans wire RomCodeScanner_init (RomCode_of_bytes a) s1
    \<and> scans wire s1 (RomCode_of_bytes b) s2 \<and> sc_finished s2"
proof -
  have d: "d < 64" "length b = 8" "code_bit b d" "\<not> code_bit a d"
    using assms(3) by (auto simp: parts_at_def)
  have devs: "set devs = {a} \<union> {b}" using assms(2) by auto
  have s1: "scans wire RomCodeScanner_init (RomCode_of_bytes a) (sc_at (int d) (int d) 1)"
    using first_scan [OF assms(1) devs _ _ assms(4), of d] assms(3) by blast
  define s2 where "s2 = (if d = 0 then sc_at 0 (- 1) 0 else sc_at (int d) (int d) 0)"
  have "\<exists>w'. RomCodeScanner_scan_loop wire [0..<64] fresh_buf (sc_at (int d) (int d) 1) w
      = Inr (OK, b, s2, w')" if w: "srch w = Some (devs, 0, 0)" for w
  proof -
    have agree: "\<forall>c' \<in> set devs. \<forall>n. 0 \<le> n \<and> n < d \<longrightarrow> code_bit c' n = code_bit b n"
      using assms(2,3) by (auto simp: parts_at_def)
    have ex: "\<exists>x \<in> set devs. code_bit x d" "\<exists>x \<in> set devs. \<not> code_bit x d"
      using assms(2) d by auto
    have h: "RomCodeScanner_handle_discrepancy buf' (int d) (sc_at (int d) (int d) 1)
        = Inr (if code_bit b d then 1 else 0, s2)" for buf'
      using d(3) by (simp add: RomCodeScanner_handle_discrepancy_def s2_def)
    from scan_branch [OF assms(1) w agree agrees_0 [OF fresh_buf(1)] le0 d(1) ex h]
    obtain b1 w1 where b1:
      "RomCodeScanner_scan_loop wire [0..<64] fresh_buf (sc_at (int d) (int d) 1) w
        = RomCodeScanner_scan_loop wire [Suc d..<64] b1 s2 w1"
      "srch w1 = Some (filter (\<lambda>x. code_bit x d = code_bit b d) devs, Suc d, 0)"
      "agrees b1 b (Suc d)"
      by blast
    have one: "\<forall>c' \<in> set (filter (\<lambda>x. code_bit x d = code_bit b d) devs). c' = b"
      "filter (\<lambda>x. code_bit x d = code_bit b d) devs \<noteq> []"
      using assms(2) d by (auto simp: filter_empty_conv)
    from scan_tail [OF assms(1) b1(2) one(2,1) b1(3) _ d(2)] d(1) b1(1) show ?thesis by auto
  qed
  from scan_from_loop [OF assms(1) _ assms(5) this]
  have "scans wire (sc_at (int d) (int d) 1) (RomCode_of_bytes b)
      (if sc_conflict_count s2 = 0 then s2\<lparr>sc_finished := True\<rparr> else s2)" by simp
  moreover have "sc_conflict_count s2 = 0" by (simp add: s2_def)
  ultimately have "scans wire (sc_at (int d) (int d) 1) (RomCode_of_bytes b) (s2\<lparr>sc_finished := True\<rparr>)"
    by (simp only: if_True refl simp_thms)
  moreover have "sc_finished (s2\<lparr>sc_finished := True\<rparr>)" by (cases s2) simp
  ultimately show ?thesis using s1 by blast
qed

text \<open>A bus with given devices, for the witnesses: it counts the bits of the command.\<close>

definition search_sim :: "bytes list \<Rightarrow> (nat \<times> (bytes list \<times> nat \<times> nat) option) wire" where
  "search_sim devs =
     \<lparr>wr_reset = (\<lambda>_. (OK, (0, None))),
      wr_write_bit = (\<lambda>v (k, st). (OK,
        (case st of
           None \<Rightarrow> (Suc k, if k = 7 then Some (devs, 0, 0) else None)
         | Some (cs, n, m) \<Rightarrow> (k, Some (filter (\<lambda>c. code_bit c n = (v \<noteq> 0)) cs, Suc n, 0))))),
      wr_read_bit = (\<lambda>v (k, st).
        (case st of
           None \<Rightarrow> (OK, 1, (k, st))
         | Some (cs, n, m) \<Rightarrow>
             (OK, (if list_all (\<lambda>c. code_bit c n = (m = 0)) cs then 1 else 0), (k, Some (cs, n, Suc m)))))\<rparr>"

lemma search_sim_laws: "search_laws (search_sim devs) snd devs"
proof -
  have "\<exists>w'. run_steps [wr_reset (search_sim devs), Bus_write_byte (search_sim devs) SearchRom] w
      = (OK, w') \<and> snd w' = Some (devs, 0, 0)" for w
    by (simp add: search_sim_def Bus_write_byte_def numeral_eq_Suc)
  then show ?thesis
    unfolding search_laws_def by (auto simp: search_sim_def split_beta)
qed

abbreviation rom_a :: bytes where "rom_a \<equiv> [0x28, 0, 0, 0, 0, 0, 0, 0x1E]"
abbreviation rom_b :: bytes where "rom_b \<equiv> [0x28, 2, 0, 0, 0, 0, 0, 0x70]"
abbreviation rom_c :: bytes where "rom_c \<equiv> [0x28, 6, 0, 0, 0, 0, 0, 0xAC]"

lemma roms_valid: "RomCode_valid (RomCode_of_bytes rom_a)" "RomCode_valid (RomCode_of_bytes rom_b)"
  by code_simp+

lemma parts_ab: "parts_at rom_a rom_b 9" and parts_ac: "parts_at rom_a rom_c 9"
  and parts_bc: "parts_at rom_b rom_c 10"
  by code_simp+

text \<open>
  Three devices. When the device that differs first has a zero where the other two have a one (not at
  bit 0, where all family codes agree), the scanner finds two of them and then reports the first one again
  for ever, because it follows the previous path in a buffer that the caller has just cleared.
\<close>

lemma three_scans:
  assumes "search_laws wire srch devs" and "set devs = {a, b, c}"
    and "parts_at a b d1" and "parts_at a c d1" and "parts_at b c d2" and "0 < d1" and "d1 < d2"
    and "RomCode_valid (RomCode_of_bytes a)" and "RomCode_valid (RomCode_of_bytes b)"
  shows "\<exists>s1 s2. scans wire RomCodeScanner_init (RomCode_of_bytes a) s1
    \<and> scans wire s1 (RomCode_of_bytes b) s2 \<and> scans wire s2 (RomCode_of_bytes a) s2"
proof -
  let ?s1 = "sc_at (int d1) (int d1) 1" and ?t = "sc_at (int d1) (int d1) 0"
  let ?s2 = "sc_at (int d1) (int d2) 1"
  have d: "d1 < 64" "d2 < 64" "length a = 8" "length b = 8" "\<not> code_bit a d1" "code_bit b d1"
    "code_bit c d1" "\<not> code_bit b d2" "code_bit c d2"
    using assms(3-5) by (auto simp: parts_at_def)
  have devs: "set devs = {a} \<union> {b, c}" using assms(2) by auto
  have parts: "\<forall>x \<in> {b, c}. parts_at a x d1" using assms(3,4) by simp
  have scan1: "scans wire RomCodeScanner_init (RomCode_of_bytes a) ?s1"
    using first_scan [OF assms(1) devs _ parts assms(8)] by blast
  have agree: "\<forall>c' \<in> set devs. \<forall>n. 0 \<le> n \<and> n < d1 \<longrightarrow> code_bit c' n = code_bit x n"
    if "x \<in> {a, b}" for x
    using assms(2-4) that by (auto simp: parts_at_def)
  have ex: "\<exists>x \<in> set devs. code_bit x d1" "\<exists>x \<in> set devs. \<not> code_bit x d1"
    using assms(2) d by auto
  have "\<exists>w'. RomCodeScanner_scan_loop wire [0..<64] fresh_buf ?s1 w = Inr (OK, b, ?s2, w')"
    if w: "srch w = Some (devs, 0, 0)" for w
  proof -
    have h: "RomCodeScanner_handle_discrepancy buf' (int d1) ?s1
        = Inr (if code_bit b d1 then 1 else 0, ?t)" for buf'
      using d(6) assms(6) by (simp add: RomCodeScanner_handle_discrepancy_def)
    from scan_branch [OF assms(1) w agree agrees_0 [OF fresh_buf(1)] le0 d(1) ex h]
    obtain b1 w1 where b1: "RomCodeScanner_scan_loop wire [0..<64] fresh_buf ?s1 w
        = RomCodeScanner_scan_loop wire [Suc d1..<64] b1 ?t w1"
      "srch w1 = Some (filter (\<lambda>x. code_bit x d1 = code_bit b d1) devs, Suc d1, 0)"
      "agrees b1 b (Suc d1)"
      by blast
    let ?cs = "filter (\<lambda>x. code_bit x d1 = code_bit b d1) devs"
    have cs: "set ?cs = {b, c}" using assms(2) d by auto
    have agree2: "\<forall>c' \<in> set ?cs. \<forall>n. Suc d1 \<le> n \<and> n < d2 \<longrightarrow> code_bit c' n = code_bit b n"
      unfolding cs using assms(5) by (auto simp: parts_at_def)
    have ex2: "\<exists>x \<in> set ?cs. code_bit x d2" "\<exists>x \<in> set ?cs. \<not> code_bit x d2"
      unfolding cs using d by auto
    have h2: "RomCodeScanner_handle_discrepancy buf' (int d2) ?t
        = Inr (if code_bit b d2 then 1 else 0, ?s2)" for buf'
      using d(8) assms(7) by (simp add: RomCodeScanner_handle_discrepancy_def)
    have "Suc d1 \<le> d2" using assms(7) by simp
    from scan_branch [OF assms(1) b1(2) agree2 b1(3) this d(2) ex2 h2]
    obtain b2 w2 where b2: "RomCodeScanner_scan_loop wire [Suc d1..<64] b1 ?t w1
        = RomCodeScanner_scan_loop wire [Suc d2..<64] b2 ?s2 w2"
      "srch w2 = Some (filter (\<lambda>x. code_bit x d2 = code_bit b d2) ?cs, Suc d2, 0)"
      "agrees b2 b (Suc d2)"
      by blast
    have one: "\<forall>x \<in> set (filter (\<lambda>x. code_bit x d2 = code_bit b d2) ?cs). x = b"
      using cs d by auto
    have "b \<in> set (filter (\<lambda>x. code_bit x d2 = code_bit b d2) ?cs)" using assms(2) d by simp
    then have ne: "filter (\<lambda>x. code_bit x d2 = code_bit b d2) ?cs \<noteq> []" by (metis empty_iff empty_set)
    from scan_tail [OF assms(1) b2(2) ne one b2(3) _ d(4)] d(2) b1(1) b2(1) show ?thesis by auto
  qed
  from scan_from_loop [OF assms(1) _ assms(9) this]
  have scan2: "scans wire ?s1 (RomCode_of_bytes b) ?s2" by simp
  have "\<exists>w'. RomCodeScanner_scan_loop wire [0..<64] fresh_buf ?s2 w = Inr (OK, a, ?s2, w')"
    if w: "srch w = Some (devs, 0, 0)" for w
  proof -
    have h: "RomCodeScanner_handle_discrepancy buf' (int d1) ?s2
        = Inr (if code_bit a d1 then 1 else 0, ?s2)"
      if "length buf' = 8" "\<forall>m \<ge> d1. code_bit buf' m = code_bit fresh_buf m" for buf'
    proof -
      have "\<not> code_bit buf' d1" using that(2) d(1) by simp
      moreover have "d1 div 8 < 8" using d(1) by simp
      ultimately have "buf_nth buf' d1 = Inr 0"
        using that(1) by (simp add: buf_nth_def BitOps_nth_bit code_bit_def unat_of_nat)
      then show ?thesis using d(5) assms(7) by (simp add: RomCodeScanner_handle_discrepancy_def)
    qed
    from scan_branch [OF assms(1) w agree agrees_0 [OF fresh_buf(1)] le0 d(1) ex h]
    obtain b1 w1 where b1: "RomCodeScanner_scan_loop wire [0..<64] fresh_buf ?s2 w
        = RomCodeScanner_scan_loop wire [Suc d1..<64] b1 ?s2 w1"
      "srch w1 = Some (filter (\<lambda>x. code_bit x d1 = code_bit a d1) devs, Suc d1, 0)"
      "agrees b1 a (Suc d1)"
      by blast
    have one: "\<forall>x \<in> set (filter (\<lambda>x. code_bit x d1 = code_bit a d1) devs). x = a"
      using assms(2) d by auto
    have "a \<in> set (filter (\<lambda>x. code_bit x d1 = code_bit a d1) devs)" using assms(2) by simp
    then have ne: "filter (\<lambda>x. code_bit x d1 = code_bit a d1) devs \<noteq> []"
      by (metis empty_iff empty_set)
    from scan_tail [OF assms(1) b1(2) ne one b1(3) _ d(3)] d(1) b1(1) show ?thesis by auto
  qed
  from scan_from_loop [OF assms(1) _ assms(8) this]
  have "scans wire ?s2 (RomCode_of_bytes a) ?s2" by simp
  with scan1 scan2 show ?thesis by blast
qed

end
