(* ===== verification/Ds18b20.thy ===== *)
theory Ds18b20
  imports Complex_Main Strings OneWire Storage Deferred
begin

text \<open>
  \<open>components/ocs_sensor/ds18b20\<close>: the scratchpad of the temperature sensor (scratchpad.cpp), its
  configuration in text form (parse_configuration.cpp, resolution_to_str.cpp), the sensor with its
  persistent configuration (sensor.cpp) and the store of the sensors by bus (store.cpp). The 1-Wire bus
  is used through \<open>wire\<close>, the storage through \<open>IStorage\<close>. The \<^verbatim>\<open>float\<close> temperature is
  rational: every value is a multiple of 1/16 with at most 11 significant bits, so the sums are exact.
\<close>

section \<open>Scratchpad\<close>

record Scratchpad =
  sp_temperature_lsb :: u8
  sp_temperature_msb :: u8
  sp_alarm_trigger_high :: u8
  sp_alarm_trigger_low :: u8
  sp_configuration :: u8
  sp_reserved_5 :: u8
  sp_reserved_6 :: u8
  sp_reserved_7 :: u8
  sp_crc :: u8

definition Scratchpad_init :: Scratchpad where
  "Scratchpad_init = \<lparr>sp_temperature_lsb = 0, sp_temperature_msb = 0, sp_alarm_trigger_high = 0,
     sp_alarm_trigger_low = 0, sp_configuration = 0, sp_reserved_5 = 0, sp_reserved_6 = 0,
     sp_reserved_7 = 0, sp_crc = 0\<rparr>"

definition ConvertT :: u8 where "ConvertT = 0x44"
definition ReadScratchpad :: u8 where "ReadScratchpad = 0xBE"
definition WriteScratchpad :: u8 where "WriteScratchpad = 0x4E"

text \<open>The bit fields \<^verbatim>\<open>r0\<close> and \<^verbatim>\<open>r1\<close> are bits 5 and 6 of the configuration byte.\<close>

definition sp_r0 :: "Scratchpad \<Rightarrow> bool" where "sp_r0 s = bit (sp_configuration s) 5"
definition sp_r1 :: "Scratchpad \<Rightarrow> bool" where "sp_r1 s = bit (sp_configuration s) 6"

definition Scratchpad_bytes :: "Scratchpad \<Rightarrow> bytes" where
  "Scratchpad_bytes s =
     [sp_temperature_lsb s, sp_temperature_msb s, sp_alarm_trigger_high s, sp_alarm_trigger_low s,
      sp_configuration s, sp_reserved_5 s, sp_reserved_6 s, sp_reserved_7 s, sp_crc s]"

definition Scratchpad_of_bytes :: "bytes \<Rightarrow> Scratchpad" where
  "Scratchpad_of_bytes bs =
     \<lparr>sp_temperature_lsb = bs ! 0, sp_temperature_msb = bs ! 1, sp_alarm_trigger_high = bs ! 2,
      sp_alarm_trigger_low = bs ! 3, sp_configuration = bs ! 4, sp_reserved_5 = bs ! 5,
      sp_reserved_6 = bs ! 6, sp_reserved_7 = bs ! 7, sp_crc = bs ! 8\<rparr>"

definition Scratchpad_valid :: "Scratchpad \<Rightarrow> bool" where
  "Scratchpad_valid s \<longleftrightarrow> calculate_crc (take 8 (Scratchpad_bytes s)) = sp_crc s"

text \<open>\<open>add_if b n v\<close>: \<^verbatim>\<open>if (nth(b, n)) result += v\<close>.\<close>

definition add_if :: "u8 \<Rightarrow> nat \<Rightarrow> rat \<Rightarrow> rat \<Rightarrow> rat" where
  "add_if b n v result = (if BitOps_nth (ucast b) (of_nat n) \<noteq> 0 then result + v else result)"

definition Scratchpad_get_temperature :: "Scratchpad \<Rightarrow> rat" where
  "Scratchpad_get_temperature s =
     (let lsb = sp_temperature_lsb s; msb = sp_temperature_msb s;
          r = (if sp_r0 s \<and> sp_r1 s then
                 add_if lsb 3 (1 / 2) (add_if lsb 2 (1 / 4) (add_if lsb 1 (1 / 8) (add_if lsb 0 (1 / 16) 0)))
               else if \<not> sp_r0 s \<and> sp_r1 s then
                 add_if lsb 3 (1 / 2) (add_if lsb 2 (1 / 4) (add_if lsb 1 (1 / 8) 0))
               else if sp_r0 s \<and> \<not> sp_r1 s then
                 add_if lsb 3 (1 / 2) (add_if lsb 2 (1 / 4) 0)
               else add_if lsb 3 (1 / 2) 0);
          r = add_if lsb 7 8 (add_if lsb 6 4 (add_if lsb 5 2 (add_if lsb 4 1 r)));
          r = add_if msb 2 64 (add_if msb 1 32 (add_if msb 0 16 r))
      in if msb AND 0xF8 = 0xF8 then - r else r)"

definition Scratchpad_write :: "'w wire \<Rightarrow> RomCode \<Rightarrow> Scratchpad \<Rightarrow> 'w step" where
  "Scratchpad_write wire rc s =
     run_steps [RomCode_match wire rc, Bus_write_byte wire WriteScratchpad,
                Bus_write_bytes wire (Some (take 3 (drop 2 (Scratchpad_bytes s))))]"

definition Scratchpad_read ::
    "'w wire \<Rightarrow> RomCode \<Rightarrow> Scratchpad \<Rightarrow> 'w \<Rightarrow> status_code \<times> Scratchpad \<times> 'w" where
  "Scratchpad_read wire rc s w =
     (case run_steps [RomCode_match wire rc, Bus_write_byte wire ReadScratchpad] w of
        (code, w1) \<Rightarrow>
          if code \<noteq> OK then (code, s, w1)
          else (case Bus_read_bytes wire (Some (Scratchpad_bytes s)) w1 of
                  (code, bs, w2) \<Rightarrow> (code, Scratchpad_of_bytes (the bs), w2)))"

section \<open>Configuration\<close>

text \<open>The enumeration has the underlying type \<^verbatim>\<open>uint8_t\<close> and is persisted as such.\<close>

type_synonym Resolution = u8

definition Resolution_None :: Resolution where "Resolution_None = 0"
definition Bit_12 :: Resolution where "Bit_12 = 1"
definition Bit_11 :: Resolution where "Bit_11 = 2"
definition Bit_10 :: Resolution where "Bit_10 = 3"
definition Bit_9 :: Resolution where "Bit_9 = 4"

lemmas resolution_defs = Resolution_None_def Bit_12_def Bit_11_def Bit_10_def Bit_9_def

definition resolution_to_str :: "Resolution \<Rightarrow> string" where
  "resolution_to_str r =
     (if r = Bit_12 then ''Bit_12'' else if r = Bit_11 then ''Bit_11''
      else if r = Bit_10 then ''Bit_10'' else if r = Bit_9 then ''Bit_9'' else ''<none>'')"

definition parse_resolution :: "string \<Rightarrow> Resolution" where
  "parse_resolution str =
     (if str = ''12'' then Bit_12 else if str = ''11'' then Bit_11
      else if str = ''10'' then Bit_10 else if str = ''9'' then Bit_9 else Resolution_None)"

definition tolower :: "char \<Rightarrow> int" where
  "tolower c = (let k = of_char c :: nat in if 65 \<le> k \<and> k \<le> 90 then int k + 32 else int k)"

text \<open>Every character that is not a digit is taken for a letter.\<close>

definition hex_val :: "char \<Rightarrow> int" where
  "hex_val c = (if is_digit c then of_char c - 48 else tolower c - 97 + 10)"

definition parse_hex :: "char \<Rightarrow> char \<Rightarrow> u8" where
  "parse_hex hi lo =
     ucast (push_bit 4 (word_of_int (hex_val hi) :: u32) OR word_of_int (hex_val lo))"

text \<open>
  \<open>s\<close> is the memory from the start of the view to the terminator and \<open>n\<close> the size of the view, as for
  \<open>StringOps_split\<close>. The result has the array, which is updated as far as the parser comes.
\<close>

fun parse_serial_loop :: "string \<Rightarrow> view list \<Rightarrow> nat \<Rightarrow> bytes \<Rightarrow> bool \<times> bytes" where
  "parse_serial_loop s [] n sn = (True, sn)"
| "parse_serial_loop s (v # vs) n sn =
     (if snd v \<noteq> 2 then (False, sn)
      else parse_serial_loop s vs (Suc n)
        (sn[n := parse_hex (char_at s (fst v)) (char_at s (fst v + 1))]))"

definition parse_serial_number :: "bytes \<Rightarrow> string \<Rightarrow> nat \<Rightarrow> (bool \<times> bytes) checked" where
  "parse_serial_number sn s n =
     (if n \<noteq> 17 then Inr (False, sn)
      else (case StringOps_split CHR '':'' s n of
              Inl f \<Rightarrow> Inl f
            | Inr values \<Rightarrow>
                if length values \<noteq> 6 then Inr (False, sn) else Inr (parse_serial_loop s values 0 sn)))"

record Configuration =
  cf_rom_code :: RomCode
  cf_resolution :: Resolution

definition Configuration_init :: Configuration where
  "Configuration_init = \<lparr>cf_rom_code = RomCode_init, cf_resolution = Resolution_None\<rparr>"

definition parse_configuration ::
    "Configuration \<Rightarrow> string \<Rightarrow> nat \<Rightarrow> string \<Rightarrow> (status_code \<times> Configuration) checked" where
  "parse_configuration cf serial n resolution =
     (case parse_serial_number (rc_serial_number (cf_rom_code cf)) serial n of
        Inl f \<Rightarrow> Inl f
      | Inr (ok, sn) \<Rightarrow>
          let cf1 = cf\<lparr>cf_rom_code := (cf_rom_code cf)\<lparr>rc_serial_number := sn\<rparr>\<rparr>
          in if \<not> ok then Inr (InvalidArg, cf1)
             else
               let cf2 = cf1\<lparr>cf_resolution := parse_resolution resolution\<rparr>
               in Inr ((if cf_resolution cf2 = Resolution_None then InvalidArg else OK), cf2))"

definition Configuration_bytes :: "Configuration \<Rightarrow> bytes" where
  "Configuration_bytes cf = RomCode_bytes (cf_rom_code cf) @ [cf_resolution cf]"

definition Configuration_of_bytes :: "bytes \<Rightarrow> Configuration" where
  "Configuration_of_bytes bs =
     \<lparr>cf_rom_code = RomCode_of_bytes (take 8 bs), cf_resolution = bs ! 8\<rparr>"

text \<open>\<^verbatim>\<open>memcmp\<close> on the packed structure.\<close>

definition Configuration_equal :: "Configuration \<Rightarrow> Configuration \<Rightarrow> bool" where
  "Configuration_equal a b \<longleftrightarrow> Configuration_bytes a = Configuration_bytes b"

section \<open>Sensor\<close>

text \<open>\<open>se_bus\<close> is the pointer to the bus, null until the sensor is configured.\<close>

record 'w Sensor =
  se_id :: string
  se_bus :: "'w wire option"
  se_configuration :: Configuration
  se_data :: rat

definition Sensor_init :: "string \<Rightarrow> 'w Sensor" where
  "Sensor_init k = \<lparr>se_id = k, se_bus = None, se_configuration = Configuration_init, se_data = 0\<rparr>"

definition configuration_resolution_to_proto :: "bool \<times> bool \<Rightarrow> Resolution \<Rightarrow> bool \<times> bool" where
  "configuration_resolution_to_proto r r' =
     (if r' = Bit_12 then (True, True) else if r' = Bit_11 then (False, True)
      else if r' = Bit_10 then (True, False) else if r' = Bit_9 then (False, False) else r)"

definition Sensor_configured :: "'w Sensor \<Rightarrow> bool" where
  "Sensor_configured self \<longleftrightarrow> se_bus self \<noteq> None"

definition Sensor_run :: "('w Sensor \<times> 'w) step" where
  "Sensor_run sw =
     (case sw of (self, w) \<Rightarrow>
        (case se_bus self of
           None \<Rightarrow> (InvalidState, sw)
         | Some wire \<Rightarrow>
             let rc = cf_rom_code (se_configuration self)
             in (case run_steps [RomCode_match wire rc, Bus_write_byte wire ConvertT] w of
                   (code, w1) \<Rightarrow>
                     if code \<noteq> OK then (code, (self, w1))
                     else (case Scratchpad_read wire rc Scratchpad_init w1 of
                        (code, sp, w2) \<Rightarrow>
                          if code \<noteq> OK then (code, (self, w2))
                          else (OK, ((if Scratchpad_valid sp
                                      then self\<lparr>se_data := Scratchpad_get_temperature sp\<rparr> else self),
                                     w2))))))"

definition Sensor_read_configuration ::
    "'w IStorage \<Rightarrow> 'w Sensor \<Rightarrow> Configuration \<Rightarrow> 'w \<Rightarrow> status_code \<times> Configuration \<times> 'w" where
  "Sensor_read_configuration st self cf w =
     (if Sensor_configured self then (OK, se_configuration self, w)
      else (case st_read st (se_id self) (Configuration_bytes cf) w of
              (code, bs, w') \<Rightarrow> (code, Configuration_of_bytes bs, w')))"

text \<open>Assigning \<^verbatim>\<open>r0\<close> and \<^verbatim>\<open>r1\<close> of the configuration byte.\<close>

definition sp_set_resolution :: "bool \<times> bool \<Rightarrow> Scratchpad \<Rightarrow> Scratchpad" where
  "sp_set_resolution r s =
     s\<lparr>sp_configuration := store_bit (store_bit (sp_configuration s) 5 (fst r)) 6 (snd r)\<rparr>"

text \<open>The part of \<^verbatim>\<open>write_configuration\<close> that talks to the device.\<close>

definition Sensor_write_scratchpad :: "'w wire \<Rightarrow> Configuration \<Rightarrow> 'w step" where
  "Sensor_write_scratchpad wire cf w =
     (let r = configuration_resolution_to_proto (False, False) (cf_resolution cf);
          sp = sp_set_resolution r Scratchpad_init
      in case Scratchpad_write wire (cf_rom_code cf) sp w of
           (code, w1) \<Rightarrow>
             if code \<noteq> OK then (code, w1)
             else (case Scratchpad_read wire (cf_rom_code cf) sp w1 of
                (code, sp', w2) \<Rightarrow>
                  if code \<noteq> OK then (code, w2)
                  else if \<not> Scratchpad_valid sp' then (InvalidState, w2)
                  else if (sp_r0 sp', sp_r1 sp') \<noteq> r then (InvalidState, w2)
                  else (OK, w2)))"

definition Sensor_write_configuration ::
    "'w IStorage \<Rightarrow> 'w wire \<Rightarrow> Configuration \<Rightarrow> ('w Sensor \<times> 'w) step" where
  "Sensor_write_configuration st wire cf sw =
     (case sw of (self, w) \<Rightarrow>
        if \<not> RomCode_valid (cf_rom_code cf) then (InvalidArg, sw)
        else (case Sensor_write_scratchpad wire cf w of
          (code, w1) \<Rightarrow>
            if code \<noteq> OK then (code, (self, w1))
            else (case st_read st (se_id self) (Configuration_bytes Configuration_init) w1 of
              (code, bs, w2) \<Rightarrow>
                if code \<noteq> OK \<and> code \<noteq> NoData then (code, (self, w2))
                else (case (if \<not> Configuration_equal (Configuration_of_bytes bs) cf
                            then st_write st (se_id self) (Configuration_bytes cf) w2
                            else (OK, w2)) of
                  (code, w3) \<Rightarrow>
                    if code \<noteq> OK then (code, (self, w3))
                    else (OK, (self\<lparr>se_bus := Some wire, se_configuration := cf\<rparr>, w3))))))"

definition Sensor_erase_configuration ::
    "'w IStorage \<Rightarrow> Configuration \<Rightarrow> 'w Sensor \<times> 'w \<Rightarrow> status_code \<times> Configuration \<times> 'w Sensor \<times> 'w" where
  "Sensor_erase_configuration st cf sw =
     (case sw of (self, w) \<Rightarrow>
        (case st_erase st (se_id self) w of
           (code, w1) \<Rightarrow>
             if code \<noteq> OK then (code, cf, self, w1)
             else (OK, se_configuration self,
                   self\<lparr>se_bus := None, se_configuration := Configuration_init\<rparr>, w1)))"

section \<open>The temperature\<close>

lemma unat_u8_bits:
  "unat (b :: u8) = of_bool (bit b 0) + 2 * of_bool (bit b 1) + 4 * of_bool (bit b 2)
     + 8 * of_bool (bit b 3) + 16 * of_bool (bit b 4) + 32 * of_bool (bit b 5)
     + 64 * of_bool (bit b 6) + 128 * of_bool (bit b 7)"
proof -
  have "unat b = take_bit 8 (unat b)" by (simp add: take_bit_nat_eq_self)
  also have "\<dots> = horner_sum of_bool 2 (map (bit (unat b)) [0..<8])"
    by (simp add: horner_sum_bit_eq_take_bit)
  also have "\<dots> = horner_sum of_bool 2 (map (bit b) [0..<8])"
    by (simp add: bit_unsigned_iff cong: map_cong)
  also have "[0..<8] = [0, 1, 2, 3, 4, 5, 6, 7 :: nat]" by (simp add: upt_rec)
  finally show ?thesis by (simp del: bit_0)
qed

lemma sint_u16:
  "sint (x :: u16) = (if unat x < 32768 then int (unat x) else int (unat x) - 65536)"
proof -
  obtain k where k: "unat x = k" "k < 65536" using unat_u16_less by blast
  have u: "uint x = int k" using uint_nat [of x] unfolding k(1) .
  have "sint x = signed_take_bit 15 (int k)" by (simp add: sint_uint u)
  also have "\<dots> = take_bit (Suc 15) (int k) - 2 ^ Suc 15 * of_bool (bit (int k) 15)"
    by (rule signed_take_bit_eq_take_bit_minus)
  also have "take_bit (Suc 15) (int k) = int k" using k(2) by (simp add: take_bit_int_eq_self)
  also have "bit (int k) 15 \<longleftrightarrow> \<not> k < 32768"
  proof (cases "k < 32768")
    case True
    then have "int k div 2 ^ 15 = 0" by simp
    then show ?thesis using True unfolding bit_iff_odd by simp
  next
    case False
    have "k div 32768 = 1" using False k(2) by (intro div_nat_eqI) simp_all
    then have "int k div 2 ^ 15 = 1" using zdiv_int [of k 32768] by simp
    then show ?thesis using False unfolding bit_iff_odd by simp
  qed
  finally show ?thesis unfolding k(1) by simp
qed

text \<open>The reading the sensor sends, in sixteenths of a degree, and the bits a resolution leaves out.\<close>

definition sp_raw :: "Scratchpad \<Rightarrow> int" where
  "sp_raw s = sint (BitOps_pack_u8 (sp_temperature_msb s) (sp_temperature_lsb s))"

definition sp_step :: "Scratchpad \<Rightarrow> int" where
  "sp_step s = (if sp_r0 s then (if sp_r1 s then 1 else 4) else (if sp_r1 s then 2 else 8))"

lemma sign_mask:
  "(b :: u8) AND 0xF8 = 0xF8 \<longleftrightarrow> bit b 3 \<and> bit b 4 \<and> bit b 5 \<and> bit b 6 \<and> bit b 7"
proof -
  have m: "bit (0xF8 :: u8) n \<longleftrightarrow> 3 \<le> n \<and> n < 8" for n
  proof -
    have eq: "(0xF8 :: u8) = push_bit 3 (mask 5)" by (simp add: mask_eq_exp_minus_1)
    show ?thesis unfolding eq bit_push_bit_iff bit_mask_iff possible_bit_word by auto
  qed
  have "b AND 0xF8 = 0xF8 \<longleftrightarrow> (\<forall>n. 3 \<le> n \<and> n < 8 \<longrightarrow> bit b n)"
    unfolding bit_eq_iff bit_and_iff m possible_bit_word by auto
  also have "\<dots> \<longleftrightarrow> (\<forall>n \<in> {3, 4, 5, 6, 7}. bit b n)"
    by (auto simp: numeral_eq_Suc less_Suc_eq le_Suc_eq)
  finally show ?thesis by simp
qed

lemma add_if_bit: "n < 8 \<Longrightarrow> add_if b n v r = r + v * of_bool (bit b n)"
  by (simp add: add_if_def BitOps_nth_bit unat_of_nat)

lemma div_mult_step:
  assumes "x = st * q + r" and "0 \<le> r" and "r < (st :: int)"
  shows "x div st * st = x - r"
proof -
  have "x div st = q" using assms by (simp add: div_pos_pos_trivial)
  then show ?thesis using assms(1) by (simp add: mult.commute)
qed

lemma sp_raw_bits:
  "sp_raw s = (let u = 256 * unat (sp_temperature_msb s) + unat (sp_temperature_lsb s)
     in if u < 32768 then int u else int u - 65536)"
  by (simp add: sp_raw_def sint_u16 unat_pack_u8 Let_def)

text \<open>The value of the low bits that the code adds up, for each resolution.\<close>

lemma get_temperature_bits:
  "Scratchpad_get_temperature s =
     (let l = sp_temperature_lsb s; m = sp_temperature_msb s; st = sp_step s;
          low = (if st \<le> 1 then of_bool (bit l 0) else 0) + (if st \<le> 2 then 2 * of_bool (bit l 1) else 0)
              + (if st \<le> 4 then 4 * of_bool (bit l 2) else 0) + 8 * of_bool (bit l 3)
              + 16 * of_bool (bit l 4) + 32 * of_bool (bit l 5) + 64 * of_bool (bit l 6)
              + 128 * of_bool (bit l 7) + 256 * of_bool (bit m 0) + 512 * of_bool (bit m 1)
              + 1024 * of_bool (bit m 2);
          t = low / 16
      in if bit m 3 \<and> bit m 4 \<and> bit m 5 \<and> bit m 6 \<and> bit m 7 then - t else t)"
  by (simp add: Scratchpad_get_temperature_def Let_def add_if_bit sign_mask sp_step_def
      add_divide_distrib del: bit_0)

text \<open>
  The temperature is right from 0 degrees up, at every resolution (the low bits that the resolution
  leaves undefined are dropped), and wrong below: a negative reading is in two's complement, but the
  code negates its low bits as if it were sign and magnitude, so it returns \<open>- 128 - t\<close> for the
  temperature \<open>t\<close>.
\<close>

theorem Scratchpad_temperature:
  assumes "t = sp_raw s div sp_step s * sp_step s"
  shows "(0 \<le> sp_raw s \<and> sp_raw s < 2048 \<longrightarrow> Scratchpad_get_temperature s = of_int t / 16)
    \<and> (- 2048 \<le> sp_raw s \<and> sp_raw s < 0 \<longrightarrow>
         Scratchpad_get_temperature s = - 128 - of_int t / 16)"
proof -
  let ?l = "sp_temperature_lsb s" and ?m = "sp_temperature_msb s" and ?st = "sp_step s"
  let ?b = "\<lambda>b n. of_bool (bit (b :: u8) n) :: int"
  define low where "low = ?b ?l 0 + 2 * ?b ?l 1 + 4 * ?b ?l 2 + 8 * ?b ?l 3 + 16 * ?b ?l 4
      + 32 * ?b ?l 5 + 64 * ?b ?l 6 + 128 * ?b ?l 7
      + 256 * ?b ?m 0 + 512 * ?b ?m 1 + 1024 * ?b ?m 2"
  define sign where "sign = ?b ?m 3 + 2 * ?b ?m 4 + 4 * ?b ?m 5 + 8 * ?b ?m 6 + 16 * ?b ?m 7"
  define drop where "drop = (if ?st \<le> 1 then 0 else ?b ?l 0) + (if ?st \<le> 2 then 0 else 2 * ?b ?l 1)
      + (if ?st \<le> 4 then 0 else 4 * ?b ?l 2)"
  have st: "?st \<in> {1, 2, 4, 8}" by (simp add: sp_step_def)
  have bl: "int (unat ?l) = ?b ?l 0 + 2 * ?b ?l 1 + 4 * ?b ?l 2 + 8 * ?b ?l 3 + 16 * ?b ?l 4
      + 32 * ?b ?l 5 + 64 * ?b ?l 6 + 128 * ?b ?l 7"
    by (subst unat_u8_bits) simp
  have bm: "int (unat ?m) = ?b ?m 0 + 2 * ?b ?m 1 + 4 * ?b ?m 2 + 8 * ?b ?m 3 + 16 * ?b ?m 4
      + 32 * ?b ?m 5 + 64 * ?b ?m 6 + 128 * ?b ?m 7"
    by (subst unat_u8_bits) simp
  let ?u = "256 * unat ?m + unat ?l"
  have b01: "0 \<le> ?b b n \<and> ?b b n \<le> 1" for b n by simp
  have u: "int ?u = low + 2048 * sign"
    using bl bm by (simp add: low_def sign_def)
  have bounds: "0 \<le> low" "low < 2048" "0 \<le> sign" "sign \<le> 31"
    unfolding low_def sign_def
    using b01 [of ?l 0] b01 [of ?l 1] b01 [of ?l 2] b01 [of ?l 3] b01 [of ?l 4] b01 [of ?l 5]
      b01 [of ?l 6] b01 [of ?l 7] b01 [of ?m 0] b01 [of ?m 1] b01 [of ?m 2] b01 [of ?m 3]
      b01 [of ?m 4] b01 [of ?m 5] b01 [of ?m 6] b01 [of ?m 7]
    by linarith+
  define sg where "sg = (if ?u < 32768 then sign else sign - 32)"
  have raw: "sp_raw s = low + 2048 * sg"
    using u by (simp add: sp_raw_bits Let_def sg_def)
  have sg: "sg = sign \<or> sg = sign - 32" by (simp add: sg_def)
  have drop: "0 \<le> drop" "drop < ?st"
    using st b01 [of ?l 0] b01 [of ?l 1] b01 [of ?l 2] by (auto simp: drop_def)
  have "\<exists>q. sp_raw s = ?st * q + drop"
  proof -
    let ?hi = "8 * ?b ?l 3 + 16 * ?b ?l 4 + 32 * ?b ?l 5 + 64 * ?b ?l 6 + 128 * ?b ?l 7
      + 256 * ?b ?m 0 + 512 * ?b ?m 1 + 1024 * ?b ?m 2 + 2048 * sg"
    let ?hi8 = "?b ?l 3 + 2 * ?b ?l 4 + 4 * ?b ?l 5 + 8 * ?b ?l 6 + 16 * ?b ?l 7
      + 32 * ?b ?m 0 + 64 * ?b ?m 1 + 128 * ?b ?m 2 + 256 * sg"
    have hi: "?hi = 8 * ?hi8" by simp
    have low: "sp_raw s = ?b ?l 0 + 2 * ?b ?l 1 + 4 * ?b ?l 2 + 8 * ?hi8"
      unfolding raw low_def by simp
    consider "?st = 1" | "?st = 2" | "?st = 4" | "?st = 8" using st by auto
    then show ?thesis
    proof cases
      case 1
      then show ?thesis by (simp add: drop_def)
    next
      case 2
      then have "sp_raw s = ?st * (?b ?l 1 + 2 * ?b ?l 2 + 4 * ?hi8) + drop"
        unfolding low by (simp add: drop_def)
      then show ?thesis by blast
    next
      case 3
      then have "sp_raw s = ?st * (?b ?l 2 + 2 * ?hi8) + drop"
        unfolding low by (simp add: drop_def)
      then show ?thesis by blast
    next
      case 4
      then have "sp_raw s = ?st * ?hi8 + drop"
        unfolding low by (simp add: drop_def)
      then show ?thesis by blast
    qed
  qed
  then have t: "t = sp_raw s - drop" using div_mult_step drop assms by blast
  have neg: "bit ?m 3 \<and> bit ?m 4 \<and> bit ?m 5 \<and> bit ?m 6 \<and> bit ?m 7 \<longleftrightarrow> sign = 31"
    unfolding sign_def by (auto simp: of_bool_def)
  have temp: "Scratchpad_get_temperature s
      = (if sign = 31 then - (of_int (low - drop) / 16) else of_int (low - drop) / 16)"
  proof -
    have "of_int (low - drop) = (if ?st \<le> 1 then of_bool (bit ?l 0) else 0)
        + (if ?st \<le> 2 then 2 * of_bool (bit ?l 1) else 0)
        + (if ?st \<le> 4 then 4 * of_bool (bit ?l 2) else 0) + 8 * of_bool (bit ?l 3)
        + 16 * of_bool (bit ?l 4) + 32 * of_bool (bit ?l 5) + 64 * of_bool (bit ?l 6)
        + 128 * of_bool (bit ?l 7) + 256 * of_bool (bit ?m 0) + 512 * of_bool (bit ?m 1)
        + (1024 :: rat) * of_bool (bit ?m 2)"
      unfolding low_def drop_def by (simp del: bit_0)
    then show ?thesis unfolding get_temperature_bits Let_def neg by simp
  qed
  show ?thesis
  proof (intro conjI impI)
    assume r: "0 \<le> sp_raw s \<and> sp_raw s < 2048"
    then have "sg = 0" using raw bounds(1,2) by linarith
    then have "sign = 0" using sg bounds(3,4) by linarith
    with \<open>sg = 0\<close> show "Scratchpad_get_temperature s = of_int t / 16"
      unfolding temp t raw by simp
  next
    assume r: "- 2048 \<le> sp_raw s \<and> sp_raw s < 0"
    then have "sg = - 1" using raw bounds(1,2) by linarith
    then have "sign = 31" using sg bounds(3,4) by linarith
    with \<open>sg = - 1\<close> show "Scratchpad_get_temperature s = - 128 - of_int t / 16"
      unfolding temp t raw by (simp add: field_simps)
  qed
qed

text \<open>The example of the data sheet: \<open>- 10.125\<close> degrees, which the code reads as \<open>- 117.875\<close>.\<close>

theorem Scratchpad_temperature_witness:
  "Scratchpad_get_temperature (Scratchpad_init\<lparr>sp_temperature_lsb := 0x5E,
     sp_temperature_msb := 0xFF, sp_configuration := 0x7F\<rparr>) = - 128 - (- 162) / 16"
proof -
  let ?s = "Scratchpad_init\<lparr>sp_temperature_lsb := 0x5E, sp_temperature_msb := 0xFF,
     sp_configuration := 0x7F\<rparr>"
  have "sp_raw ?s = - 162" "sp_step ?s = 1" by code_simp+
  with Scratchpad_temperature [OF refl, of ?s] show ?thesis by simp
qed

section \<open>The configuration is persistent\<close>

text \<open>An invariant of the system that the bus keeps.\<close>

definition wire_keeps :: "'w wire \<Rightarrow> ('w \<Rightarrow> bool) \<Rightarrow> bool" where
  "wire_keeps wire I \<longleftrightarrow> (\<forall>w. I w \<longrightarrow> I (snd (wr_reset wire w)))
     \<and> (\<forall>v w. I w \<longrightarrow> I (snd (wr_write_bit wire v w)))
     \<and> (\<forall>v w. I w \<longrightarrow> I (snd (snd (wr_read_bit wire v w))))"

lemma and_then_keeps:
  "I (snd (m w)) \<Longrightarrow> (\<And>w. I w \<Longrightarrow> I (snd (k w))) \<Longrightarrow> I (snd (and_then m k w))"
  by (auto simp: and_then_def split: prod.splits)

lemma Bus_write_byte_keeps:
  assumes "wire_keeps wire I" and "I w"
  shows "I (snd (Bus_write_byte wire b w))"
proof -
  have "I (snd (Bus_write_bits wire n b w))" if "I w" for n b w
    using that
  proof (induction n arbitrary: b w)
    case 0
    then show ?case by simp
  next
    case (Suc n)
    have "I (snd (wr_write_bit wire (b mod 2) w))"
      using assms(1) Suc.prems unfolding wire_keeps_def by blast
    then show ?case by (simp add: and_then_keeps Suc.IH)
  qed
  then show ?thesis using assms(2) by (simp add: Bus_write_byte_def)
qed

lemma Bus_write_bytes_keeps:
  assumes "wire_keeps wire I" and "I w"
  shows "I (snd (Bus_write_bytes wire buf w))"
proof -
  have "I (snd (run_steps (map (Bus_write_byte wire) bs) w))" for bs
    by (rule run_steps_invariant [where P = I])
      (auto intro: Bus_write_byte_keeps [OF assms(1)] assms(2))
  then show ?thesis using assms(2) by (auto simp: Bus_write_bytes_def split: option.splits)
qed

lemma RomCode_match_keeps:
  assumes "wire_keeps wire I" and "I w"
  shows "I (snd (RomCode_match wire rc w))"
  unfolding RomCode_match_def
proof (rule run_steps_invariant)
  fix m w
  assume "m \<in> set [wr_reset wire, Bus_write_byte wire MatchRom,
      Bus_write_bytes wire (Some (RomCode_bytes rc))]" "I w"
  then show "I (snd (m w))"
    using assms(1) Bus_write_byte_keeps [OF assms(1), of w] Bus_write_bytes_keeps [OF assms(1), of w]
    by (auto simp: wire_keeps_def)
qed (rule assms(2))

lemma Bus_read_bytes_keeps:
  assumes "wire_keeps wire I" and "I w"
  shows "I (snd (snd (Bus_read_bytes wire buf w)))"
proof -
  have bits: "I (snd (snd (Bus_read_bits wire ns b w)))" if "I w" for ns b w
    using that
  proof (induction ns arbitrary: b w)
    case Nil
    then show ?case by simp
  next
    case (Cons n ns)
    have "I (snd (snd (wr_read_bit wire 0 w)))"
      using assms(1) Cons.prems unfolding wire_keeps_def by blast
    then show ?case using Cons.IH by (auto split: prod.splits)
  qed
  have "I (snd (snd (Bus_read_bytes_loop wire bs w)))" if "I w" for bs w
    using that
  proof (induction bs arbitrary: w)
    case Nil
    then show ?case by simp
  next
    case (Cons b bs)
    have "I (snd (snd (Bus_read_byte wire b w)))"
      using bits Cons.prems by (simp add: Bus_read_byte_def)
    then show ?case using Cons.IH by (auto split: prod.splits) (metis snd_conv)
  qed
  then show ?thesis
    using assms(2) by (auto simp: Bus_read_bytes_def split: option.splits prod.splits) (metis snd_conv)
qed

lemma Scratchpad_write_keeps:
  assumes "wire_keeps wire I" and "I w"
  shows "I (snd (Scratchpad_write wire rc s w))"
  unfolding Scratchpad_write_def
proof (rule run_steps_invariant)
  fix m w
  assume "m \<in> set [RomCode_match wire rc, Bus_write_byte wire WriteScratchpad,
      Bus_write_bytes wire (Some (take 3 (drop 2 (Scratchpad_bytes s))))]" "I w"
  then show "I (snd (m w))"
    using RomCode_match_keeps [OF assms(1), of w] Bus_write_byte_keeps [OF assms(1), of w]
      Bus_write_bytes_keeps [OF assms(1), of w]
    by auto
qed (rule assms(2))

lemma Scratchpad_read_keeps:
  assumes "wire_keeps wire I" and "I w"
  shows "I (snd (snd (Scratchpad_read wire rc s w)))"
proof -
  obtain code w1 where p: "run_steps [RomCode_match wire rc, Bus_write_byte wire ReadScratchpad] w
      = (code, w1)" by fastforce
  have "I (snd (run_steps [RomCode_match wire rc, Bus_write_byte wire ReadScratchpad] w))"
  proof (rule run_steps_invariant)
    fix m w
    assume "m \<in> set [RomCode_match wire rc, Bus_write_byte wire ReadScratchpad]" "I w"
    then show "I (snd (m w))" 
      using RomCode_match_keeps [OF assms(1), of w] Bus_write_byte_keeps [OF assms(1), of w] by auto
  qed (rule assms(2))
  then have "I w1" using p by simp
  then show ?thesis
    using p Bus_read_bytes_keeps [OF assms(1) \<open>I w1\<close>, of "Some (Scratchpad_bytes s)"]
    by (auto simp: Scratchpad_read_def simp del: run_steps.simps split: prod.splits)
qed

lemma Sensor_write_scratchpad_keeps:
  assumes "wire_keeps wire I" and "I w"
  shows "I (snd (Sensor_write_scratchpad wire cf w))"
proof -
  let ?r = "configuration_resolution_to_proto (False, False) (cf_resolution cf)"
  let ?sp = "sp_set_resolution ?r Scratchpad_init"
  obtain code w1 where p: "Scratchpad_write wire (cf_rom_code cf) ?sp w = (code, w1)" by fastforce
  then have "I w1" using Scratchpad_write_keeps [OF assms, of "cf_rom_code cf" ?sp] by simp
  then show ?thesis
    using p Scratchpad_read_keeps [OF assms(1) \<open>I w1\<close>, of "cf_rom_code cf" ?sp]
    by (auto simp: Sensor_write_scratchpad_def Let_def split: prod.splits)
qed

lemma RomCode_bytes_roundtrip [simp]:
  "length (rc_serial_number rc) = 6 \<Longrightarrow> RomCode_of_bytes (RomCode_bytes rc) = rc"
  by (cases rc) (auto simp: RomCode_of_bytes_def RomCode_bytes_def nth_append)

lemma Configuration_bytes_roundtrip [simp]:
  assumes "length (rc_serial_number (cf_rom_code cf)) = 6"
  shows "Configuration_of_bytes (Configuration_bytes cf) = cf"
    and "length (Configuration_bytes cf) = 9"
proof -
  have l: "length (RomCode_bytes (cf_rom_code cf)) = 8" using assms by (simp add: RomCode_bytes_def)
  then show "length (Configuration_bytes cf) = 9" by (simp add: Configuration_bytes_def)
  show "Configuration_of_bytes (Configuration_bytes cf) = cf"
    using l assms by (simp add: Configuration_of_bytes_def Configuration_bytes_def nth_append)
qed

lemma Configuration_bytes_of_bytes:
  assumes "length bs = 9"
  shows "Configuration_bytes (Configuration_of_bytes bs) = bs"
proof -
  obtain x0 x1 x2 x3 x4 x5 x6 x7 x8 where "bs = [x0, x1, x2, x3, x4, x5, x6, x7, x8]"
    using assms by (auto simp: length_Suc_conv numeral_eq_Suc)
  then show ?thesis
    by (simp add: Configuration_bytes_def Configuration_of_bytes_def RomCode_bytes_def
        RomCode_of_bytes_def take_Cons' drop_Cons')
qed

text \<open>The two calls of the storage: the stored configuration is read, and replaced when it differs.\<close>

lemma good_healthy: "good u \<Longrightarrow> length bs = 9 \<Longrightarrow> nvs_healthy good u (length bs)"
  by (simp add: nvs_healthy_def)

lemma healthy_good:
  assumes "nvs_healthy good v = nvs_healthy good u" and "good u"
  shows "good v"
  using fun_cong [OF assms(1), of 9] assms(2) by (simp add: nvs_healthy_def)

lemma Configuration_init_bytes [simp]:
  "length (Configuration_bytes Configuration_init) = 9"
  "Configuration_of_bytes (Configuration_bytes Configuration_init) = Configuration_init"
  by (simp_all add: Configuration_init_def RomCode_init_def)

lemma stored_configuration_read:
  assumes "nvs_laws api good blobs bound" and "good w"
    and "case blobs w (nvs_ns ns) k of None \<Rightarrow> True | Some v \<Rightarrow> length v = 9"
  obtains code bs w' where
    "st_read (NvsStorage_vtable api ns) k (Configuration_bytes Configuration_init) w = (code, bs, w')" and "good w'"
    and "blobs w' (nvs_ns ns) k = None \<and> code = NoData \<and> bs = Configuration_bytes Configuration_init
       \<or> code = OK \<and> blobs w' (nvs_ns ns) k = Some bs \<and> length bs = 9"
proof -
  let ?init = "Configuration_bytes Configuration_init"
  note kv = NvsStorage_key_value_store [OF assms(1), of ns]
  note h = good_healthy [of good, OF assms(2) Configuration_init_bytes(1)]
  show ?thesis
  proof (cases "blobs w (nvs_ns ns) k")
    case None
    then obtain w' where "st_read (NvsStorage_vtable api ns) k ?init w = (NoData, ?init, w')"
      "blobs w' (nvs_ns ns) = blobs w (nvs_ns ns)" "nvs_healthy good w' = nvs_healthy good w"
      using key_value_store.read_miss [OF kv h, of k] by force
    then show ?thesis using that healthy_good [of good _ w, OF _ assms(2)] None by metis
  next
    case (Some v)
    then have v: "length v = 9" using assms(3) by simp
    then obtain w' where "st_read (NvsStorage_vtable api ns) k ?init w = (OK, v, w')"
      "blobs w' (nvs_ns ns) = blobs w (nvs_ns ns)" "nvs_healthy good w' = nvs_healthy good w"
      using Some key_value_store.read_hit [OF kv h, of k v] by force
    then show ?thesis using that healthy_good [of good _ w, OF _ assms(2)] Some v by metis
  qed
qed

lemma stored_configuration_written:
  assumes "nvs_laws api good blobs bound" and "good w"
    and "length (rc_serial_number (cf_rom_code cf)) = 6" and "cf \<noteq> Configuration_init"
    and "bs = Configuration_bytes Configuration_init \<or> blobs w (nvs_ns ns) k = Some bs \<and> length bs = 9"
  obtains w' where
    "(if \<not> Configuration_equal (Configuration_of_bytes bs) cf
      then st_write (NvsStorage_vtable api ns) k (Configuration_bytes cf) w else (OK, w)) = (OK, w')"
    and "good w'" and "blobs w' (nvs_ns ns) k = Some (Configuration_bytes cf)"
proof (cases "Configuration_equal (Configuration_of_bytes bs) cf")
  case False
  have "length (Configuration_bytes cf) = 9" using assms(3) by simp
  note h = good_healthy [of good, OF assms(2) this]
  from key_value_store.stores [OF NvsStorage_key_value_store [OF assms(1)] h, of ns k]
  obtain w' where "st_write (NvsStorage_vtable api ns) k (Configuration_bytes cf) w = (OK, w')"
    "blobs w' (nvs_ns ns) = (blobs w (nvs_ns ns))(k \<mapsto> Configuration_bytes cf)"
    "nvs_healthy good w' = nvs_healthy good w" by blast
  then show ?thesis using False that healthy_good [of good _ w, OF _ assms(2)] by simp
next
  case True
  then have same: "Configuration_bytes (Configuration_of_bytes bs) = Configuration_bytes cf"
    by (simp add: Configuration_equal_def)
  have "bs \<noteq> Configuration_bytes Configuration_init"
  proof
    assume "bs = Configuration_bytes Configuration_init"
    then have "Configuration_bytes Configuration_init = Configuration_bytes cf" using same by simp
    then have "Configuration_init = cf"
      using Configuration_init_bytes(2) Configuration_bytes_roundtrip(1) [OF assms(3)] by metis
    then show False using assms(4) by simp
  qed
  then have "blobs w (nvs_ns ns) k = Some (Configuration_bytes cf)"
    using assms(5) same Configuration_bytes_of_bytes by auto
  then show ?thesis using True that assms(2) by simp
qed


text \<open>On a line that works, whose device answers with a scratchpad, the sensor is configured.\<close>

lemma RomCode_match_out:
  assumes "bit_line wire out inp" and "\<forall>w. \<exists>w'. wr_reset wire w = (OK, w') \<and> inp w' = inp w"
  shows "\<exists>w'. RomCode_match wire rc w = (OK, w') \<and> inp w' = inp w"
proof -
  obtain w1 where w1: "wr_reset wire w = (OK, w1)" "inp w1 = inp w" using assms(2) by blast
  obtain w2 where w2: "Bus_write_byte wire MatchRom w1 = (OK, w2)" "inp w2 = inp w1"
    using Bus_write_byte_out [OF assms(1)] by blast
  obtain w3 where w3: "run_steps (map (Bus_write_byte wire) (RomCode_bytes rc)) w2 = (OK, w3)"
    "inp w3 = inp w2"
    using Bus_write_bytes_out [OF assms(1)] by blast
  have "RomCode_bytes rc \<noteq> []" by (simp add: RomCode_bytes_def)
  with w1 w2 w3 show ?thesis by (simp add: RomCode_match_def Bus_write_bytes_def)
qed

lemma command_out:
  assumes "bit_line wire out inp" and "\<forall>w. \<exists>w'. wr_reset wire w = (OK, w') \<and> inp w' = inp w"
  shows "\<exists>w'. run_steps (RomCode_match wire rc # Bus_write_byte wire c # ms) w = run_steps ms w'
    \<and> inp w' = inp w"
proof -
  obtain w1 where w1: "RomCode_match wire rc w = (OK, w1)" "inp w1 = inp w"
    using RomCode_match_out [OF assms] by blast
  obtain w2 where "Bus_write_byte wire c w1 = (OK, w2)" "inp w2 = inp w1"
    using Bus_write_byte_out [OF assms(1)] by blast
  with w1 show ?thesis by auto
qed

lemma Sensor_write_scratchpad_ok:
  assumes line: "bit_line wire out inp"
    and reset: "\<forall>w. \<exists>w'. wr_reset wire w = (OK, w') \<and> inp w' = inp w"
    and bs: "inp w = bytes_bits bs @ rest" "length bs = 9"
    and answer: "Scratchpad_valid (Scratchpad_of_bytes bs)"
      "(sp_r0 (Scratchpad_of_bytes bs), sp_r1 (Scratchpad_of_bytes bs))
         = configuration_resolution_to_proto (False, False) (cf_resolution cf)"
  shows "fst (Sensor_write_scratchpad wire cf w) = OK"
proof -
  define sp where "sp = sp_set_resolution
    (configuration_resolution_to_proto (False, False) (cf_resolution cf)) Scratchpad_init"
  have len: "length (Scratchpad_bytes sp) = 9" by (simp add: Scratchpad_bytes_def)
  then have ne: "take 3 (drop 2 (Scratchpad_bytes sp)) \<noteq> []" "Scratchpad_bytes sp \<noteq> []" by auto
  obtain w1 where w1: "Scratchpad_write wire (cf_rom_code cf) sp w
      = run_steps [Bus_write_bytes wire (Some (take 3 (drop 2 (Scratchpad_bytes sp))))] w1"
    "inp w1 = inp w"
    using command_out [OF line reset] unfolding Scratchpad_write_def by blast
  obtain w2 where w2: "run_steps (map (Bus_write_byte wire) (take 3 (drop 2 (Scratchpad_bytes sp)))) w1
      = (OK, w2)" "inp w2 = inp w1"
    using Bus_write_bytes_out [OF line] by blast
  have wr: "Scratchpad_write wire (cf_rom_code cf) sp w = (OK, w2)"
    using w1(1) w2(1) ne(1) by (simp add: Bus_write_bytes_def)
  obtain w3 where w3: "run_steps [RomCode_match wire (cf_rom_code cf),
      Bus_write_byte wire ReadScratchpad] w2 = (OK, w3)" "inp w3 = inp w2"
    using command_out [OF line reset, of "cf_rom_code cf" ReadScratchpad "[]" w2] by auto
  have "inp w3 = bytes_bits bs @ rest" using w3(2) w2(2) w1(2) bs(1) by simp
  from Bus_read_bytes_in [OF line this, of "Scratchpad_bytes sp"] len bs(2) obtain w4 where
    w4: "Bus_read_bytes_loop wire (Scratchpad_bytes sp) w3 = (OK, bs, w4)" by auto
  have rd: "Scratchpad_read wire (cf_rom_code cf) sp w2 = (OK, Scratchpad_of_bytes bs, w4)"
    using w3(1) w4 ne(2) by (simp add: Scratchpad_read_def Bus_read_bytes_def del: run_steps.simps)
  show ?thesis
    using wr rd answer by (simp add: Sensor_write_scratchpad_def sp_def [symmetric] Let_def)
qed

text \<open>A bus whose device sends given bits, beside the storage in memory.\<close>

definition playback :: "(mem_nvs \<times> bool list \<times> bool list) wire" where
  "playback = \<lparr>wr_reset = (\<lambda>w. (OK, w)), wr_write_bit = (\<lambda>v (m, q, r). (OK, (m, q @ [v \<noteq> 0], r))),
     wr_read_bit = (\<lambda>v (m, q, r). case r of [] \<Rightarrow> (Error, v, (m, q, r))
        | b # bs \<Rightarrow> (OK, (if b then 1 else 0), (m, q, bs)))\<rparr>"

lemma playback_line: "bit_line playback (\<lambda>w. fst (snd w)) (\<lambda>w. snd (snd w))"
  by (auto simp: bit_line_def playback_def)

definition test_configuration :: Configuration where
  "test_configuration = \<lparr>cf_rom_code = \<lparr>rc_family_code = 0x28, rc_serial_number = [0, 0, 0, 0, 0, 0],
     rc_crc = 0x1E\<rparr>, cf_resolution = Bit_12\<rparr>"

definition test_scratchpad :: bytes where
  "test_scratchpad = [0x50, 0x05, 0, 0, 0x7F, 0xFF, 0x0C, 0x10, 0xE4]"

lemma test_values:
  "RomCode_valid (cf_rom_code test_configuration)"
  "Scratchpad_valid (Scratchpad_of_bytes test_scratchpad)"
  "(sp_r0 (Scratchpad_of_bytes test_scratchpad), sp_r1 (Scratchpad_of_bytes test_scratchpad))
     = configuration_resolution_to_proto (False, False) (cf_resolution test_configuration)"
  by code_simp+


end
