(* ===== verification/Http.thy ===== *)
theory Http
  imports Json Deferred
begin

text \<open>
  The HTTP side: the server and the client reader of \<open>components/ocs_http\<close> and the handlers of
  \<open>components/ocs_pipeline/httpserver\<close> (data_handler.cpp, time_handler.cpp, system_handler.cpp,
  system_state_handler.cpp, sht41_handler.cpp, web_gui_pipeline.cpp, http_pipeline.cpp). The HTTP
  library of the ESP-IDF is a parameter; its wildcard matching is too.
\<close>

section \<open>The HTTP library\<close>

datatype httpd_err_code = HTTPD_400_BAD_REQUEST | HTTPD_500_INTERNAL_SERVER_ERROR

text \<open>A call that fails is \<open>False\<close>. A request is known by its URI; what is sent goes to the world.\<close>

record 'w httpd_api =
  hd_start :: "u32 \<Rightarrow> u32 \<Rightarrow> 'w \<Rightarrow> nat option \<times> 'w"
  hd_register_uri_handler :: "nat \<Rightarrow> string \<Rightarrow> 'w \<Rightarrow> bool \<times> 'w"
  hd_stop :: "nat \<Rightarrow> 'w \<Rightarrow> bool \<times> 'w"
  hd_resp_set_type :: "string \<Rightarrow> 'w \<Rightarrow> bool \<times> 'w"
  hd_resp_set_hdr :: "string \<Rightarrow> string \<Rightarrow> 'w \<Rightarrow> bool \<times> 'w"
  hd_resp_set_status :: "string \<Rightarrow> 'w \<Rightarrow> bool \<times> 'w"
  hd_resp_send :: "string \<Rightarrow> 'w \<Rightarrow> bool \<times> 'w"
  hd_resp_send_chunk :: "bytes \<Rightarrow> 'w \<Rightarrow> esp_err \<times> 'w"
  hd_resp_send_err :: "httpd_err_code \<Rightarrow> string \<Rightarrow> 'w \<Rightarrow> bool \<times> 'w"

section \<open>Server\<close>

text \<open>
  A handler may stop the firmware (\<open>Inl\<close>) or not return (\<open>None\<close>).
\<close>

type_synonym 'w HandlerFunc = "string \<Rightarrow> 'w \<Rightarrow> (status_code \<times> 'w) checked option"

record 'w Server =
  srv_port :: u32
  srv_max_uri_handlers :: u32
  srv_handle :: "nat option"
  srv_endpoints_get :: "(string \<times> 'w HandlerFunc) list"

definition status_code_to_http_code :: "status_code \<Rightarrow> httpd_err_code" where
  "status_code_to_http_code code =
     (case code of InvalidArg \<Rightarrow> HTTPD_400_BAD_REQUEST | _ \<Rightarrow> HTTPD_500_INTERNAL_SERVER_ERROR)"

definition Server_init :: "u32 \<Rightarrow> u32 \<Rightarrow> 'w Server" where
  "Server_init port max_uri_handlers =
     \<lparr>srv_port = port, srv_max_uri_handlers = max_uri_handlers, srv_handle = None, srv_endpoints_get = []\<rparr>"

definition Server_add_GET :: "string \<Rightarrow> 'w HandlerFunc \<Rightarrow> 'w Server \<Rightarrow> 'w Server" where
  "Server_add_GET path func s = s\<lparr>srv_endpoints_get := srv_endpoints_get s @ [(path, func)]\<rparr>"

text \<open>\<^verbatim>\<open>ESP_ERROR_CHECK\<close> stops the firmware.\<close>

fun Server_register_uris :: "'w httpd_api \<Rightarrow> nat \<Rightarrow> (string \<times> 'w HandlerFunc) list \<Rightarrow> 'w \<Rightarrow> (status_code \<times> 'w) checked" where
  "Server_register_uris api handle [] w = Inr (OK, w)"
| "Server_register_uris api handle ((path, _) # endpoints) w =
     (case hd_register_uri_handler api handle path w of
        (ok, w') \<Rightarrow> if \<not> ok then Inl AssertFailed else Server_register_uris api handle endpoints w')"

definition Server_start :: "'w httpd_api \<Rightarrow> 'w Server \<Rightarrow> 'w \<Rightarrow> (status_code \<times> 'w Server \<times> 'w) checked" where
  "Server_start api s w =
     (case hd_start api (srv_port s) (srv_max_uri_handlers s) w of
        (None, w1) \<Rightarrow> Inr (Error, s, w1)
      | (Some handle, w1) \<Rightarrow>
          (case Server_register_uris api handle (srv_endpoints_get s) w1 of
             Inl f \<Rightarrow> Inl f
           | Inr (code, w2) \<Rightarrow> Inr (code, s\<lparr>srv_handle := Some handle\<rparr>, w2)))"

definition Server_stop :: "'w httpd_api \<Rightarrow> 'w Server \<Rightarrow> 'w \<Rightarrow> (status_code \<times> 'w Server \<times> 'w) checked" where
  "Server_stop api s w =
     (case srv_handle s of
        None \<Rightarrow> Inr (OK, s, w)
      | Some handle \<Rightarrow>
          (case hd_stop api handle w of
             (ok, w') \<Rightarrow> if \<not> ok then Inl AssertFailed else Inr (OK, s\<lparr>srv_handle := None\<rparr>, w')))"

text \<open>\<open>uri_match\<close> is \<^verbatim>\<open>httpd_uri_match_wildcard\<close> on the path of an endpoint and that of the request.\<close>

definition Server_handle_request_get ::
    "(string \<Rightarrow> string \<Rightarrow> bool) \<Rightarrow> 'w httpd_api \<Rightarrow> 'w Server \<Rightarrow> string \<Rightarrow> 'w \<Rightarrow> 'w checked option" where
  "Server_handle_request_get uri_match api s uri w =
     (let path = UriOps_parse_path (Some uri)
      in case find (\<lambda>endpoint. uri_match (fst endpoint) path) (srv_endpoints_get s) of
           None \<Rightarrow>
             Some (Inr (snd (hd_resp_send_err api (status_code_to_http_code InvalidArg) (code_to_str InvalidArg) w)))
         | Some endpoint \<Rightarrow>
             (case snd endpoint uri w of
                None \<Rightarrow> None
              | Some (Inl f) \<Rightarrow> Some (Inl f)
              | Some (Inr (code, w')) \<Rightarrow>
                  Some (Inr (if code \<noteq> OK
                    then snd (hd_resp_send_err api (status_code_to_http_code code) (code_to_str code) w')
                    else w'))))"

section \<open>Handlers\<close>

text \<open>A call of the library in a handler: an error returns \<open>Error\<close>.\<close>

definition http_step :: "('w \<Rightarrow> bool \<times> 'w) \<Rightarrow> 'w step" where
  "http_step call w = (case call w of (ok, w') \<Rightarrow> (if \<not> ok then Error else OK, w'))"

definition returns :: "'w step \<Rightarrow> 'w \<Rightarrow> (status_code \<times> 'w) checked option" where
  "returns m w = Some (Inr (m w))"

text \<open>
  \<^verbatim>\<open>DataHandler\<close>: the heap and the world are one state; the last formatter of the fan-out is the
  printer, whose buffer is made new for every request.
\<close>

definition DataHandler_handle ::
    "'w httpd_api \<Rightarrow> 'w heap \<Rightarrow> printer \<Rightarrow> 'w IFormatter \<Rightarrow> nat \<Rightarrow> 'w step" where
  "DataHandler_handle api alloc print formatter buffer_size w =
     (case make_item alloc (JObject []) w of
        (None, w1) \<Rightarrow> (NoMem, w1)
      | (Some json, w1) \<Rightarrow>
          (case formatter (json, w1) of
             (code, (json', w2)) \<Rightarrow>
               if code \<noteq> OK then (code, w2)
               else case print json' buffer_size of
                 (ok, buf) \<Rightarrow>
                   if \<not> ok then (NoMem, w2)
                   else run_steps [http_step (hd_resp_set_type api ''application/json''),
                          http_step (hd_resp_send api buf)] w2))"

definition SystemStateHandler_handle ::
    "'w httpd_api \<Rightarrow> 'w heap \<Rightarrow> printer \<Rightarrow> bool \<Rightarrow> bool \<Rightarrow> u32 \<Rightarrow> TaskStatus list \<Rightarrow> nat \<Rightarrow> 'w step" where
  "SystemStateHandler_handle api alloc print ic rs total_time sts response_size =
     DataHandler_handle api alloc print (SystemStateFormatter_format ic rs alloc total_time sts) response_size"

text \<open>
  \<^verbatim>\<open>TimeHandler\<close>: \<open>to_string\<close> is \<^verbatim>\<open>std::to_string\<close>. The value is copied into an array with a
  terminator.
\<close>

definition to_string :: "int \<Rightarrow> string" where
  "to_string n = (if n < 0 then CHR ''-'' # decimal (nat (- n)) else decimal (nat n))"

definition TimeHandler_handle ::
    "'w httpd_api \<Rightarrow> ('w \<Rightarrow> time) \<Rightarrow> (time \<Rightarrow> 'w \<Rightarrow> bool \<times> 'w) \<Rightarrow> time \<Rightarrow> string \<Rightarrow> 'w step" where
  "TimeHandler_handle api time_now settimeofday start_point uri w =
     (case UriOps_parse_query (Some uri) ''value'' of
        None \<Rightarrow>
          (case TimeOps_get_time (time_now w) of
             None \<Rightarrow> (Error, w)
           | Some timestamp \<Rightarrow>
               run_steps [http_step (hd_resp_set_type api ''text/html''),
                 http_step (hd_resp_send api (to_string timestamp))] w)
      | Some v \<Rightarrow>
          run_steps [TimeOps_set_time settimeofday (view_str uri v) start_point,
            http_step (hd_resp_set_type api ''text/html''), http_step (hd_resp_send api ''OK'')] w)"

definition SystemHandler_handle :: "'w httpd_api \<Rightarrow> 'w step \<Rightarrow> 'w step" where
  "SystemHandler_handle api reboot_task =
     run_steps [http_step (hd_resp_set_type api ''text/html''),
       http_step (hd_resp_send api ''Rebooting...''), reboot_task]"

text \<open>
  \<^verbatim>\<open>SHT41Handler::handle_operation_\<close>. \<open>wait_future\<close> waits five seconds for a future while the
  other tasks run, \<open>code_of\<close> reads its code.
\<close>

definition SHT41Handler_handle_operation ::
    "'w httpd_api \<Rightarrow> ('w \<Rightarrow> nat option \<times> 'w) \<Rightarrow> (nat \<Rightarrow> 'w step) \<Rightarrow> (nat \<Rightarrow> 'w \<Rightarrow> status_code) \<Rightarrow> 'w step" where
  "SHT41Handler_handle_operation api add wait_future code_of w =
     (case add w of
        (None, w1) \<Rightarrow> (InvalidState, w1)
      | (Some i, w1) \<Rightarrow>
          (case wait_future i w1 of
             (code, w2) \<Rightarrow>
               if code \<noteq> OK then (Timeout, w2)
               else if code_of i w2 \<noteq> OK then (code_of i w2, w2)
               else run_steps [http_step (hd_resp_set_type api ''text/html''),
                      http_step (hd_resp_send api ''OK'')] w2))"

section \<open>Web GUI\<close>

definition ends_with :: "string \<Rightarrow> string \<Rightarrow> bool" where
  "ends_with s ext \<longleftrightarrow> length ext \<le> length s \<and> drop (length s - length ext) s = ext"

definition check_file_extension :: "string \<Rightarrow> string \<Rightarrow> bool" where
  "check_file_extension filepath ext = ends_with filepath ext"

definition parse_content_type :: "string \<Rightarrow> string" where
  "parse_content_type filepath =
     (if check_file_extension filepath ''.html'' then ''text/html''
      else if check_file_extension filepath ''.js'' then ''application/javascript''
      else if check_file_extension filepath ''.css'' then ''text/css''
      else if check_file_extension filepath ''.png'' then ''image/png''
      else if check_file_extension filepath ''.ico'' then ''image/x-icon''
      else if check_file_extension filepath ''.svg'' then ''text/xml''
      else ''text/plain'')"

definition mount_point :: string where "mount_point = ''/web_gui''"
definition web_buffer_size :: nat where "web_buffer_size = 1024"

definition WebGuiPipeline_handle_root :: "'w httpd_api \<Rightarrow> 'w step" where
  "WebGuiPipeline_handle_root api =
     run_steps [http_step (hd_resp_set_status api ''301 Moved Permanently''),
       http_step (hd_resp_set_hdr api ''Location'' ''/dashboard''), http_step (hd_resp_send api '''')]"

text \<open>
  The file system is mounted when \<open>valid\<close>. At the end of the scope the transceiver and then the reader
  are destroyed.
\<close>

definition WebGuiPipeline_handle_file ::
    "'w httpd_api \<Rightarrow> files \<Rightarrow> bool \<Rightarrow> string \<Rightarrow> 'w \<Rightarrow> (status_code \<times> 'w) checked option" where
  "WebGuiPipeline_handle_file api fs valid filename w =
     (if \<not> valid then Some (Inr (InvalidState, w))
      else
        let file_path = mount_point @ filename
        in case run_steps [http_step (hd_resp_set_type api (parse_content_type file_path)),
               http_step (hd_resp_set_hdr api ''Content-Encoding'' ''gzip'')] w of
             (code, w1) \<Rightarrow>
               if code \<noteq> OK then Some (Inr (code, w1))
               else case FileStreamReader_init (file_path @ ''.gz'') of
                 Inl f \<Rightarrow> Some (Inl f)
               | Inr reader \<Rightarrow>
                   let rd = FileStreamReader_vtable fs; wr = ChunkStreamWriter_vtable (hd_resp_send_chunk api)
                   in case StreamTransceiver_transceive rd wr web_buffer_size reader w1 of
                        None \<Rightarrow> None
                      | Some (Inl f) \<Rightarrow> Some (Inl f)
                      | Some (Inr (code, r, w2)) \<Rightarrow>
                          (case StreamTransceiver_destroy rd wr r w2 of
                             (r', w3) \<Rightarrow>
                               (case FileStreamReader_destroy r' of
                                  Inl f \<Rightarrow> Some (Inl f)
                                | Inr _ \<Rightarrow> Some (Inr (code, w3)))))"

definition WebGuiPipeline_init :: "'w httpd_api \<Rightarrow> files \<Rightarrow> bool \<Rightarrow> 'w Server \<Rightarrow> 'w Server" where
  "WebGuiPipeline_init api fs valid s =
     (let s = Server_add_GET ''/'' (\<lambda>_. returns (WebGuiPipeline_handle_root api)) s;
          s = Server_add_GET ''/dashboard'' (\<lambda>_. WebGuiPipeline_handle_file api fs valid ''/index.html'') s
      in Server_add_GET ''/assets/*'' (\<lambda>uri. WebGuiPipeline_handle_file api fs valid uri) s)"

section \<open>HTTP pipeline\<close>

definition HttpPipeline_init_mdns :: "'w IMdnsDriver \<Rightarrow> u32 \<Rightarrow> 'w \<Rightarrow> 'w checked" where
  "HttpPipeline_init_mdns d port w =
     (case md_add_service d Http Tcp port w of
        (_, w1) \<Rightarrow>
          (case md_add_txt_record d Http Tcp ''api_base_path'' ''/api/'' w1 of
             (code, w2) \<Rightarrow>
               if code \<noteq> OK then Inl AssertFailed
               else case md_add_txt_record d Http Tcp ''api_versions'' ''v1'' w2 of
                 (code, w3) \<Rightarrow> if code \<noteq> OK then Inl AssertFailed else Inr w3))"

definition HttpPipeline_handle_connect :: "'w httpd_api \<Rightarrow> 'w Server \<times> 'w \<Rightarrow> ('w Server \<times> 'w) checked" where
  "HttpPipeline_handle_connect api sw =
     map_sum id snd (Server_start api (fst sw) (snd sw))"

definition HttpPipeline_handle_disconnect :: "'w httpd_api \<Rightarrow> 'w Server \<times> 'w \<Rightarrow> ('w Server \<times> 'w) checked" where
  "HttpPipeline_handle_disconnect api sw =
     map_sum id snd (Server_stop api (fst sw) (snd sw))"

definition HttpPipeline_handle_suspend :: "'w IMdnsDriver \<Rightarrow> 'w step" where
  "HttpPipeline_handle_suspend d = md_stop d"

definition HttpPipeline_handle_resume :: "'w IMdnsDriver \<Rightarrow> 'w step" where
  "HttpPipeline_handle_resume d = md_start d"

section \<open>Client reader\<close>

datatype http_event = HTTP_EVENT_ERROR | HTTP_EVENT_ON_CONNECTED | HTTP_EVENT_HEADER_SENT
  | HTTP_EVENT_ON_HEADER | HTTP_EVENT_ON_DATA string | HTTP_EVENT_ON_FINISH | HTTP_EVENT_DISCONNECTED
  | HTTP_EVENT_REDIRECT

record ClientReader =
  cr_cond :: Cond
  cr_data_received :: bool
  cr_buf :: string

definition ClientReader_init :: ClientReader where
  "ClientReader_init = \<lparr>cr_cond = Cond_init, cr_data_received = False, cr_buf = []\<rparr>"

text \<open>The loop of \<^verbatim>\<open>wait\<close>, as that of the access point.\<close>

partial_function (option) ClientReader_wait ::
    "('v \<Rightarrow> bool) \<Rightarrow> ('v \<Rightarrow> status_code \<times> 'v) \<Rightarrow> 'v \<Rightarrow> (status_code \<times> 'v) option" where
  "ClientReader_wait data_received cond_wait v =
     (if \<not> data_received v then
        (case cond_wait v of (code, v') \<Rightarrow>
           if code \<noteq> OK then Some (code, v') else ClientReader_wait data_received cond_wait v')
      else Some (OK, v))"

text \<open>The length, and the buffer with the bytes copied over its start.\<close>

definition ClientReader_read :: "string \<Rightarrow> ClientReader \<Rightarrow> nat \<times> string" where
  "ClientReader_read buf r =
     (let len = min (length buf) (length (cr_buf r)) in (len, take len (cr_buf r) @ drop len buf))"

fun ClientReader_on_data :: "string \<Rightarrow> ClientReader \<Rightarrow> ClientReader" where
  "ClientReader_on_data [] r = r"
| "ClientReader_on_data (c # cs) r = ClientReader_on_data cs (r\<lparr>cr_buf := cr_buf r @ [c]\<rparr>)"

definition ClientReader_on_finish :: "ClientReader \<times> rtos \<Rightarrow> ClientReader \<times> rtos" where
  "ClientReader_on_finish rr =
     (case Cond_broadcast (cr_cond (fst rr), snd rr) of
        (_, (c, r)) \<Rightarrow> ((fst rr)\<lparr>cr_data_received := True, cr_cond := c\<rparr>, r))"

definition ClientReader_handle_event :: "http_event \<Rightarrow> ClientReader \<times> rtos \<Rightarrow> ClientReader \<times> rtos" where
  "ClientReader_handle_event e rr =
     (case e of
        HTTP_EVENT_ON_DATA d \<Rightarrow> (ClientReader_on_data d (fst rr), snd rr)
      | HTTP_EVENT_ON_FINISH \<Rightarrow> ClientReader_on_finish rr
      | _ \<Rightarrow> rr)"

section \<open>Requests\<close>

text \<open>
  A request is served by the first endpoint whose pattern matches its path, with the whole URI; a code
  other than \<open>OK\<close> is answered by one error response with its text, 400 for \<open>InvalidArg\<close> and 500
  otherwise, and so is a path without an endpoint.
\<close>

theorem Server_dispatches_first:
  assumes "srv_endpoints_get s = pre @ (pattern, func) # post"
    and "\<forall>e\<in>set pre. \<not> uri_match (fst e) (UriOps_parse_path (Some uri))"
    and "func uri w = Some (Inr (code, w'))"
  shows "Server_handle_request_get uri_match api s uri w =
    (if uri_match pattern (UriOps_parse_path (Some uri)) then
       Some (Inr (if code = OK then w'
         else snd (hd_resp_send_err api
           (if code = InvalidArg then HTTPD_400_BAD_REQUEST else HTTPD_500_INTERNAL_SERVER_ERROR)
           (code_to_str code) w')))
     else Server_handle_request_get uri_match api (s\<lparr>srv_endpoints_get := post\<rparr>) uri w)
   \<and> Server_handle_request_get uri_match api (s\<lparr>srv_endpoints_get := pre\<rparr>) uri w
       = Some (Inr (snd (hd_resp_send_err api HTTPD_400_BAD_REQUEST ''InvalidArg'' w)))"
proof -
  let ?m = "\<lambda>e. uri_match (fst e) (UriOps_parse_path (Some uri))"
  have none: "find ?m pre = None" using assms(2) unfolding find_None_iff by blast
  then have "find ?m (srv_endpoints_get s)
      = (if uri_match pattern (UriOps_parse_path (Some uri)) then Some (pattern, func) else find ?m post)"
    unfolding assms(1) by (induction pre) (auto split: if_splits)
  moreover have "status_code_to_http_code code
      = (if code = InvalidArg then HTTPD_400_BAD_REQUEST else HTTPD_500_INTERNAL_SERVER_ERROR)" for code
    by (cases code) (simp_all add: status_code_to_http_code_def)
  ultimately show ?thesis using none assms(3)
    by (simp add: Server_handle_request_get_def Let_def)
qed

section \<open>The web GUI on a working connection\<close>

text \<open>The library with a log of what is sent, in which every call succeeds.\<close>

datatype http_log = LogType string | LogHdr string string | LogStatus string | LogSend string
  | LogChunk bytes | LogErr httpd_err_code string | LogServer

definition log_api :: "http_log list httpd_api" where
  "log_api =
     \<lparr>hd_start = (\<lambda>_ _ w. (Some 0, w @ [LogServer])), hd_register_uri_handler = (\<lambda>_ _ w. (True, w)),
      hd_stop = (\<lambda>_ w. (True, w)), hd_resp_set_type = (\<lambda>t w. (True, w @ [LogType t])),
      hd_resp_set_hdr = (\<lambda>k v w. (True, w @ [LogHdr k v])), hd_resp_set_status = (\<lambda>t w. (True, w @ [LogStatus t])),
      hd_resp_send = (\<lambda>t w. (True, w @ [LogSend t])), hd_resp_send_chunk = (\<lambda>d w. (ESP_OK, w @ [LogChunk d])),
      hd_resp_send_err = (\<lambda>c t w. (True, w @ [LogErr c t]))\<rparr>"

definition web_server :: "files \<Rightarrow> http_log list Server" where
  "web_server fs = WebGuiPipeline_init log_api fs True (Server_init 80 8)"

text \<open>Of the matching: the asset pattern matches the paths below it, the two others only themselves.\<close>

definition asset_request :: "(string \<Rightarrow> string \<Rightarrow> bool) \<Rightarrow> string \<Rightarrow> bool" where
  "asset_request uri_match path \<longleftrightarrow> \<not> uri_match ''/'' path \<and> \<not> uri_match ''/dashboard'' path
     \<and> uri_match ''/assets/*'' path"

definition asset_head :: "string \<Rightarrow> http_log list" where
  "asset_head uri = [LogType (parse_content_type (mount_point @ uri)), LogHdr ''Content-Encoding'' ''gzip'']"

definition asset_reader :: "string \<Rightarrow> FileStreamReader" where
  "asset_reader uri = \<lparr>fr_path = mount_point @ uri @ ''.gz'', fr_file = None\<rparr>"

lemma web_server_asset:
  assumes "asset_request uri_match (UriOps_parse_path (Some uri))"
    and "StreamTransceiver_transceive (FileStreamReader_vtable fs)
        (ChunkStreamWriter_vtable (hd_resp_send_chunk log_api)) web_buffer_size (asset_reader uri) (asset_head uri)
      = Some (Inr (code, r, w))"
  shows "Server_handle_request_get uri_match log_api (web_server fs) uri [] =
    Some (Inr (w @ [LogChunk []] @ (if code = OK then [] else
      [LogErr (status_code_to_http_code code) (code_to_str code)])))"
proof -
  have init: "FileStreamReader_init (mount_point @ uri @ ''.gz'') = Inr (asset_reader uri)"
    by (simp add: FileStreamReader_init_def asset_reader_def)
  have head: "run_steps [http_step (hd_resp_set_type log_api (parse_content_type (mount_point @ uri))),
      http_step (hd_resp_set_hdr log_api ''Content-Encoding'' ''gzip'')] [] = (OK, asset_head uri)"
    by (simp add: http_step_def log_api_def and_then_def asset_head_def)
  have destroy: "StreamTransceiver_destroy (FileStreamReader_vtable fs)
      (ChunkStreamWriter_vtable (hd_resp_send_chunk log_api)) r w = (r\<lparr>fr_file := None\<rparr>, w @ [LogChunk []])"
    by (simp add: StreamTransceiver_destroy_def FileStreamReader_vtable_def FileStreamReader_end_def
        ChunkStreamWriter_vtable_def ChunkStreamWriter_end_def ChunkStreamWriter_send_def log_api_def)
  have "WebGuiPipeline_handle_file log_api fs True uri [] = Some (Inr (code, w @ [LogChunk []]))"
    using assms(2) by (simp add: WebGuiPipeline_handle_file_def Let_def head init destroy
        FileStreamReader_destroy_def del: run_steps.simps)
  then show ?thesis using assms(1)
    by (simp add: Server_handle_request_get_def web_server_def WebGuiPipeline_init_def Server_init_def
        Server_add_GET_def asset_request_def Let_def) (simp add: log_api_def)
qed

text \<open>The chunks of a log.\<close>

definition log_chunks :: "http_log list \<Rightarrow> bytes list" where
  "log_chunks w = concat (map (\<lambda>e. case e of LogChunk d \<Rightarrow> [d] | _ \<Rightarrow> []) w)"

lemma log_api_sends: "sends (hd_resp_send_chunk log_api) log_chunks"
  by (simp add: sends_def log_api_def log_chunks_def)

lemma log_api_fold: "fold (\<lambda>d w. snd (hd_resp_send_chunk log_api d w)) ds w = w @ map LogChunk ds"
  by (induction ds arbitrary: w) (simp_all add: log_api_def)

text \<open>
  C17. An asset that exists is sent completely: the type by its extension, the encoding, chunks that make
  up the compressed file, and the empty chunk that ends the response; there is no error response.
\<close>

theorem WebGui_serves_asset:
  assumes "asset_request uri_match (UriOps_parse_path (Some uri))"
    and "fs (mount_point @ uri @ ''.gz'') = Some (content, None)"
  shows "\<exists>cs. Server_handle_request_get uri_match log_api (web_server fs) uri [] =
      Some (Inr (asset_head uri @ map LogChunk cs @ [LogChunk []])) \<and> concat cs = content"
proof -
  let ?R = "FileStreamReader_vtable fs" and ?W = "ChunkStreamWriter_vtable (hd_resp_send_chunk log_api)"
  let ?f = "\<lparr>f_data = content, f_pos = 0, f_eof = False, f_err = False, f_bad = None\<rparr>"
  let ?r = "(asset_reader uri)\<lparr>fr_file := Some ?f\<rparr>" and ?cs = "chunks web_buffer_size content"
  obtain r' where loop: "transceive_loop ?R ?W web_buffer_size ?r (asset_head uri)
      = Some (Inr (OK, r', asset_head uri @ map LogChunk ?cs))"
    using transceive_file_loop [OF log_api_sends, of web_buffer_size content ?f ?r fs "asset_head uri"]
    by (auto simp: web_buffer_size_def log_api_fold)
  have "StreamTransceiver_transceive ?R ?W web_buffer_size (asset_reader uri) (asset_head uri)
      = Some (Inr (OK, r', asset_head uri @ map LogChunk ?cs))"
    using loop assms(2) by (simp add: StreamTransceiver_transceive_def FileStreamReader_vtable_def
        FileStreamReader_begin_def ChunkStreamWriter_vtable_def ChunkStreamWriter_begin_def asset_reader_def Let_def)
  from web_server_asset [OF assms(1) this] show ?thesis
    by (intro exI [of _ ?cs]) (simp add: concat_chunks)
qed

theorem Server_dispatches_first_witness:
  "Server_handle_request_get (=) log_api
     (Server_add_GET ''/b'' (\<lambda>_. returns (\<lambda>w. (InvalidArg, w))) (Server_add_GET ''/a'' (\<lambda>_. returns (\<lambda>w. (OK, w)))
       (Server_init 80 8))) ''/b'' [] = Some (Inr [LogErr HTTPD_400_BAD_REQUEST ''InvalidArg''])"
proof -
  let ?s = "Server_add_GET ''/b'' (\<lambda>_. returns (\<lambda>w. (InvalidArg, w)))
      (Server_add_GET ''/a'' (\<lambda>_. returns (\<lambda>w. (OK, w))) (Server_init 80 8))"
  have p: "UriOps_parse_path (Some ''/b'') = ''/b''" by code_simp
  have "srv_endpoints_get ?s
      = [(''/a'', \<lambda>_. returns (\<lambda>w. (OK, w)))] @ (''/b'', \<lambda>_. returns (\<lambda>w. (InvalidArg, w))) # []"
    by (simp add: Server_add_GET_def Server_init_def)
  from Server_dispatches_first [OF this, of "(=)" "''/b''" "[]" InvalidArg "[]" log_api]
  show ?thesis by (simp add: p returns_def log_api_def)
qed

text \<open>A matching function for examples, on the patterns of the web GUI.\<close>

definition test_match :: "string \<Rightarrow> string \<Rightarrow> bool" where
  "test_match pattern path \<longleftrightarrow>
     (if pattern = ''/assets/*'' then take 8 path = ''/assets/'' else pattern = path)"

theorem WebGui_serves_asset_witness:
  "\<exists>cs. Server_handle_request_get test_match log_api (web_server [''/web_gui/assets/a.js.gz'' \<mapsto> ([1, 2], None)])
     ''/assets/a.js'' [] = Some (Inr (asset_head ''/assets/a.js'' @ map LogChunk cs @ [LogChunk []]))
     \<and> concat cs = [1, 2]"
proof -
  have "UriOps_parse_path (Some ''/assets/a.js'') = ''/assets/a.js''" by code_simp
  then have "asset_request test_match (UriOps_parse_path (Some ''/assets/a.js''))"
    by (simp add: asset_request_def test_match_def)
  from WebGui_serves_asset [OF this, of "[''/web_gui/assets/a.js.gz'' \<mapsto> ([1, 2], None)]" "[1, 2]"]
  show ?thesis by (simp add: mount_point_def)
qed

text \<open>
  A file that cannot be opened is answered by a complete empty response: the destructor of the
  transceiver sends the empty chunk that ends it, with the status 200 of a success, and the error response
  comes after that. The name is the whole URI, so this is what an asset gets that is asked for with a
  query, whether the file exists or not.
\<close>

theorem WebGui_missing_file_answers_success:
  assumes "asset_request uri_match (UriOps_parse_path (Some uri))" and "fs (mount_point @ uri @ ''.gz'') = None"
  shows "Server_handle_request_get uri_match log_api (web_server fs) uri [] =
    Some (Inr (asset_head uri @ [LogChunk [], LogErr HTTPD_500_INTERNAL_SERVER_ERROR ''Error'']))"
proof -
  have "StreamTransceiver_transceive (FileStreamReader_vtable fs)
      (ChunkStreamWriter_vtable (hd_resp_send_chunk log_api)) web_buffer_size (asset_reader uri) (asset_head uri)
    = Some (Inr (Error, asset_reader uri, asset_head uri))"
    using assms(2) by (simp add: StreamTransceiver_transceive_def FileStreamReader_vtable_def
        FileStreamReader_begin_def asset_reader_def Let_def)
  from web_server_asset [OF assms(1) this] show ?thesis by (simp add: status_code_to_http_code_def)
qed

theorem WebGui_missing_file_answers_success_witness:
  "Server_handle_request_get test_match log_api (web_server [''/web_gui/assets/a.js.gz'' \<mapsto> ([1, 2], None)])
     ''/assets/a.js?v=1'' [] = Some (Inr (asset_head ''/assets/a.js?v=1''
       @ [LogChunk [], LogErr HTTPD_500_INTERNAL_SERVER_ERROR ''Error'']))"
proof -
  have "UriOps_parse_path (Some ''/assets/a.js?v=1'') = ''/assets/a.js''" by code_simp
  then have "asset_request test_match (UriOps_parse_path (Some ''/assets/a.js?v=1''))"
    by (simp add: asset_request_def test_match_def)
  then show ?thesis
    by (rule WebGui_missing_file_answers_success) (simp add: mount_point_def)
qed

section \<open>Handlers on their requests\<close>

text \<open>
  A value that a handler looks up lies inside the URI, so the copy of the time handler is as long as it
  says.
\<close>

lemma handler_value_inside:
  "UriOps_parse_query (Some uri) k = Some v \<Longrightarrow> CHR ''&'' \<notin> set k \<Longrightarrow> length uri < 2 ^ 32
    \<Longrightarrow> view_ok uri v"
  using UriOps_parse_query_inside [of uri] unfolding values_inside_def by blast

section \<open>Client reader\<close>

lemma ClientReader_on_data_eq: "ClientReader_on_data cs r = r\<lparr>cr_buf := cr_buf r @ cs\<rparr>"
  by (induction cs arbitrary: r) simp_all

lemma ClientReader_data_events:
  "fold ClientReader_handle_event (map HTTP_EVENT_ON_DATA ds) (r, rt)
     = (r\<lparr>cr_buf := cr_buf r @ concat ds\<rparr>, rt)"
  by (induction ds arbitrary: r) (simp_all add: ClientReader_handle_event_def ClientReader_on_data_eq)

text \<open>
  A response that comes in pieces is collected in order; the last event wakes every waiting task, the
  wait is over, and a read gives as much of the response as the buffer takes, again from the start each
  time.
\<close>

theorem ClientReader_collects:
  assumes "distinct (cond_tasks (cr_cond r))"
  shows "\<exists>r' rt'. fold ClientReader_handle_event
        (HTTP_EVENT_ON_CONNECTED # map HTTP_EVENT_ON_DATA ds @ [HTTP_EVENT_ON_FINISH]) (r, rt) = (r', rt')
    \<and> (\<forall>t\<in>set (cond_tasks (cr_cond r)). rt_notify rt' t = rt_notify rt t + 1)
    \<and> ClientReader_wait cr_data_received cond_wait r' = Some (OK, r')
    \<and> ClientReader_read buf r' =
        (min (length buf) (length (cr_buf r @ concat ds)),
         take (length buf) (cr_buf r @ concat ds) @ drop (length (cr_buf r @ concat ds)) buf)"
proof -
  let ?d = "r\<lparr>cr_buf := cr_buf r @ concat ds\<rparr>"
  let ?r = "?d\<lparr>cr_data_received := True, cr_cond := (cr_cond r)\<lparr>cond_tasks := []\<rparr>\<rparr>"
  let ?rt = "rt\<lparr>rt_notify := (\<lambda>t. rt_notify rt t + (if t \<in> set (cond_tasks (cr_cond r)) then 1 else 0))\<rparr>"
  have "fold ClientReader_handle_event
      (HTTP_EVENT_ON_CONNECTED # map HTTP_EVENT_ON_DATA ds @ [HTTP_EVENT_ON_FINISH]) (r, rt) = (?r, ?rt)"
    using Cond_broadcast_eq [OF assms, of rt]
    by (simp add: ClientReader_data_events ClientReader_handle_event_def ClientReader_on_finish_def)
  moreover have "ClientReader_wait cr_data_received cond_wait ?r = Some (OK, ?r)"
    by (subst ClientReader_wait.simps) simp
  moreover have "ClientReader_read buf ?r =
      (min (length buf) (length (cr_buf r @ concat ds)),
       take (length buf) (cr_buf r @ concat ds) @ drop (length (cr_buf r @ concat ds)) buf)"
    by (simp add: ClientReader_read_def Let_def min_def)
  ultimately show ?thesis by (intro exI [of _ ?r] exI [of _ ?rt]) simp
qed

theorem ClientReader_collects_witness:
  "\<exists>r' rt'. fold ClientReader_handle_event
       (HTTP_EVENT_ON_CONNECTED # map HTTP_EVENT_ON_DATA [''ab'', ''c''] @ [HTTP_EVENT_ON_FINISH])
       (ClientReader_init, \<lparr>rt_notify = (\<lambda>_. 0), rt_owner = None\<rparr>) = (r', rt')
     \<and> ClientReader_read ''..'' r' = (2, ''ab'')"
proof -
  have "distinct (cond_tasks (cr_cond ClientReader_init))" by (simp add: ClientReader_init_def Cond_init_def)
  from ClientReader_collects [OF this, of "[''ab'', ''c'']" "\<lparr>rt_notify = (\<lambda>_. 0), rt_owner = None\<rparr>"
      "\<lambda>r. (OK, r)" "''..''"]
  show ?thesis by (auto simp: ClientReader_init_def)
qed

end
