(* ===== verification/Ds18b20Http.thy ===== *)
theory Ds18b20Http
  imports Ds18b20 RomScan Http
begin

text \<open>
  The store of the DS18B20 sensors (\<open>components/ocs_sensor/ds18b20/store.cpp\<close>), which runs functions
  on the bus of a GPIO from a task of its own, and the HTTP handler that schedules them
  (\<open>components/ocs_pipeline/httpserver/ds18b20_handler.cpp\<close>). A scheduled function refers to the
  local variables of the request that scheduled it, so these are frames in the world.
\<close>

section \<open>Store\<close>

text \<open>
  The functions of the handler: what they do, and the frame their references point into.
\<close>

datatype ds_kind = ScanSensors | ReadConfiguration | EraseConfiguration | WriteConfiguration

type_synonym ds_func = "ds_kind \<times> nat"

record 'w DsNode =
  dn_func_scheduler :: "ds_func AsyncFuncScheduler"
  dn_futures :: futures
  dn_bus :: "'w wire"
  dn_sensors :: "'w Sensor list"

record 'w DsStore =
  ds_max_event_count :: nat
  ds_nodes :: "(int \<times> 'w DsNode) list"

text \<open>
  A frame has the document and the values of the request: the serial number as the memory from its start
  and its length, as \<open>parse_configuration\<close> takes it.
\<close>

record ds_frame =
  fm_json :: cJSON
  fm_sensor_id :: string
  fm_serial_number :: "string \<times> nat"
  fm_resolution :: string

text \<open>What ends the firmware, or the progress of the task of the store.\<close>

datatype ds_stop = Stopped fault | Hung

record 'w ds_world =
  dw_frames :: "nat \<Rightarrow> ds_frame option"
  dw_next :: nat
  dw_stop :: "ds_stop option"
  dw_rest :: 'w

definition DsStore_init :: "nat \<Rightarrow> 'w DsStore checked" where
  "DsStore_init max_event_count =
     (if max_event_count = 0 then Inl AssertFailed
      else Inr \<lparr>ds_max_event_count = max_event_count, ds_nodes = []\<rparr>)"

definition DsNode_bus_params :: BusParams where
  "DsNode_bus_params =
     \<lparr>bp_reset_pulse_interval = microsecond * 480, bp_presence_pulse_interval = microsecond * 60,
      bp_write_slot_interval = microsecond * 60, bp_write_bit_interval = microsecond * 10,
      bp_write_recovery_interval = microsecond * 1, bp_read_slot_interval = microsecond * 60,
      bp_read_bit_init_interval = microsecond * 5, bp_read_bit_rc_interval = microsecond * 5,
      bp_read_recovery_interval = microsecond * 1\<rparr>"

text \<open>\<open>wire_of\<close> makes the bus of a GPIO with these intervals.\<close>

definition DsNode_init :: "(int \<Rightarrow> Bus \<Rightarrow> 'w wire) \<Rightarrow> int \<Rightarrow> nat \<Rightarrow> 'w DsNode checked" where
  "DsNode_init wire_of gpio max_event_count =
     (case Bus_init DsNode_bus_params of
        Inl f \<Rightarrow> Inl f
      | Inr bus \<Rightarrow>
          map_sum id (\<lambda>sch. \<lparr>dn_func_scheduler = sch, dn_futures = [], dn_bus = wire_of gpio bus, dn_sensors = []\<rparr>)
            (AsyncFuncScheduler_init max_event_count))"

definition DsStore_get_node :: "int \<Rightarrow> 'w DsStore \<Rightarrow> 'w DsNode option" where
  "DsStore_get_node gpio s = map_option snd (find (\<lambda>item. fst item = gpio) (ds_nodes s))"

definition DsStore_add_node :: "(int \<Rightarrow> Bus \<Rightarrow> 'w wire) \<Rightarrow> int \<Rightarrow> 'w DsStore \<Rightarrow> ('w DsNode \<times> 'w DsStore) checked" where
  "DsStore_add_node wire_of gpio s =
     map_sum id (\<lambda>node. (node, s\<lparr>ds_nodes := ds_nodes s @ [(gpio, node)]\<rparr>))
       (DsNode_init wire_of gpio (ds_max_event_count s))"

definition DsNode_add :: "'w IStorage \<Rightarrow> 'w Sensor \<Rightarrow> ('w DsNode \<times> 'w) step" where
  "DsNode_add st sensor nw =
     (case nw of (node, w) \<Rightarrow>
        if \<exists>s\<in>set (dn_sensors node). se_id s = se_id sensor then (InvalidArg, nw)
        else
          let (code, cf, w1) = Sensor_read_configuration st sensor Configuration_init w;
              (sensor, w2) = (if code \<noteq> OK then (sensor, w1)
                else snd (Sensor_write_configuration st (dn_bus node) cf (sensor, w1)))
          in (OK, (node\<lparr>dn_sensors := dn_sensors node @ [sensor]\<rparr>, w2)))"

text \<open>Nodes are shared pointers: an update of a node is seen through the list.\<close>

definition update_node :: "int \<Rightarrow> 'w DsNode \<Rightarrow> 'w DsStore \<Rightarrow> 'w DsStore" where
  "update_node gpio node s = s\<lparr>ds_nodes := map_at node gpio (\<lambda>_. node) (ds_nodes s)\<rparr>"

definition DsStore_add ::
    "(int \<Rightarrow> Bus \<Rightarrow> 'w wire) \<Rightarrow> 'w IStorage \<Rightarrow> 'w Sensor \<Rightarrow> int \<Rightarrow> 'w DsStore \<times> 'w
       \<Rightarrow> (status_code \<times> 'w DsStore \<times> 'w) checked" where
  "DsStore_add wire_of st sensor gpio sw =
     (case sw of (s, w) \<Rightarrow>
        case (case DsStore_get_node gpio s of
                Some node \<Rightarrow> Inr (node, s)
              | None \<Rightarrow> DsStore_add_node wire_of gpio s) of
          Inl f \<Rightarrow> Inl f
        | Inr (node, s) \<Rightarrow>
            (case DsNode_add st sensor (node, w) of
               (code, (node', w')) \<Rightarrow> Inr (code, update_node gpio node' s, w')))"

definition DsNode_schedule :: "bool \<Rightarrow> ds_func \<Rightarrow> 'w DsNode \<Rightarrow> nat option \<times> 'w DsNode" where
  "DsNode_schedule alloc func node =
     (case AsyncFuncScheduler_add alloc func (dn_func_scheduler node, dn_futures node, ()) of
        (i, (sch, h, _)) \<Rightarrow> (i, node\<lparr>dn_func_scheduler := sch, dn_futures := h\<rparr>))"

definition DsStore_schedule :: "bool \<Rightarrow> int \<Rightarrow> ds_func \<Rightarrow> 'w DsStore \<Rightarrow> nat option \<times> 'w DsStore" where
  "DsStore_schedule alloc gpio func s =
     (case DsStore_get_node gpio s of
        None \<Rightarrow> (None, s)
      | Some node \<Rightarrow>
          (case DsNode_schedule alloc func node of (i, node') \<Rightarrow> (i, update_node gpio node' s)))"

text \<open>\<open>exec\<close> runs a function on the bus and the sensors of the node.\<close>

type_synonym 'w ds_exec = "ds_func \<Rightarrow> 'w wire \<Rightarrow> ('w Sensor list \<times> 'w ds_world) step"

definition DsNode_exec ::
    "'w ds_exec \<Rightarrow> 'w wire \<Rightarrow> ds_func \<Rightarrow> (ds_func, 'w Sensor list \<times> 'w ds_world) afs_state step" where
  "DsNode_exec exec wire func st =
     (case st of (sch, h, sw) \<Rightarrow> case exec func wire sw of (code, sw') \<Rightarrow> (code, (sch, h, sw')))"

definition DsNode_run :: "'w ds_exec \<Rightarrow> ('w DsNode \<times> 'w ds_world) step" where
  "DsNode_run exec nw =
     (case nw of (node, dw) \<Rightarrow>
        case AsyncFuncScheduler_run (DsNode_exec exec (dn_bus node))
               (dn_func_scheduler node, dn_futures node, (dn_sensors node, dw)) of
          (code, (sch, h, (sensors, dw'))) \<Rightarrow>
            (code, (node\<lparr>dn_func_scheduler := sch, dn_futures := h, dn_sensors := sensors\<rparr>, dw')))"

fun DsStore_run_nodes :: "'w ds_exec \<Rightarrow> (int \<times> 'w DsNode) list \<Rightarrow> 'w ds_world \<Rightarrow> (int \<times> 'w DsNode) list \<times> 'w ds_world" where
  "DsStore_run_nodes exec [] dw = ([], dw)"
| "DsStore_run_nodes exec ((gpio, node) # nodes) dw =
     (case DsNode_run exec (node, dw) of
        (code, (node', dw1)) \<Rightarrow>
          (case DsStore_run_nodes exec nodes dw1 of (nodes', dw2) \<Rightarrow> ((gpio, node') # nodes', dw2)))"

definition DsStore_run :: "'w ds_exec \<Rightarrow> ('w DsStore \<times> 'w ds_world) step" where
  "DsStore_run exec sw =
     (case DsStore_run_nodes exec (ds_nodes (fst sw)) (snd sw) of
        (nodes, dw) \<Rightarrow> (OK, ((fst sw)\<lparr>ds_nodes := nodes\<rparr>, dw)))"

section \<open>What the handler does on the bus\<close>

definition get_sensor :: "string \<Rightarrow> 'w Sensor list \<Rightarrow> nat option" where
  "get_sensor sensor_id sensors = find (\<lambda>i. se_id (sensors ! i) = sensor_id) [0..<length sensors]"

definition format_configuration :: "'m heap \<Rightarrow> Configuration \<Rightarrow> 'm IFormatter" where
  "format_configuration alloc cf =
     run_steps
       [no_mem (add_string_cs alloc ''resolution'' (resolution_to_str (cf_resolution cf))),
        no_mem (add_string_cs alloc ''serial_number'' (serial_number_to_str (rc_serial_number (cf_rom_code cf))))]"

text \<open>
  The two loops of the handler: a fresh ROM code for every scan, until a scan does not return \<open>OK\<close>, or
  the device is found. They need not end.
\<close>

partial_function (option) scan_rom_codes ::
    "'w heap \<Rightarrow> 'w wire \<Rightarrow> cJSON \<Rightarrow> RomCodeScanner \<Rightarrow> 'w \<Rightarrow> (status_code \<times> cJSON \<times> 'w) checked option" where
  "scan_rom_codes alloc wire array s w =
     (case RomCodeScanner_scan wire RomCode_init s w of
        Inl f \<Rightarrow> Some (Inl f)
      | Inr (code, rc, s', w1) \<Rightarrow>
          if code \<noteq> OK then Some (Inr (if code \<noteq> NoData then code else OK, array, w1))
          else case append_string alloc (serial_number_to_str (rc_serial_number rc)) (array, w1) of
            (ok, (array', w2)) \<Rightarrow>
              if \<not> ok then Some (Inr (NoMem, array', w2))
              else scan_rom_codes alloc wire array' s' w2)"

partial_function (option) find_rom_code ::
    "'w wire \<Rightarrow> Configuration \<Rightarrow> RomCodeScanner \<Rightarrow> 'w \<Rightarrow> (status_code \<times> Configuration \<times> 'w) checked option" where
  "find_rom_code wire cf s w =
     (case RomCodeScanner_scan wire RomCode_init s w of
        Inl f \<Rightarrow> Some (Inl f)
      | Inr (code, rc, s', w1) \<Rightarrow>
          if code \<noteq> OK then Some (Inr (code, cf, w1))
          else if rc_serial_number rc = rc_serial_number (cf_rom_code cf)
          then Some (Inr (OK, cf\<lparr>cf_rom_code := rc\<rparr>, w1))
          else find_rom_code wire cf s' w1)"

text \<open>
  A search runs with the system suspended. \<open>suspend\<close> and \<open>resume\<close> are the constructors and the destructors of its
  two guards, of the suspender and of the FreeRTOS scheduler.
\<close>

definition DS18B20Handler_scan_rom_code ::
    "'w heap \<Rightarrow> 'w step \<Rightarrow> 'w step \<Rightarrow> 'w wire \<Rightarrow> cJSON \<times> 'w \<Rightarrow> (status_code \<times> cJSON \<times> 'w) checked option" where
  "DS18B20Handler_scan_rom_code alloc suspend resume wire jw =
     (case jw of (json, w) \<Rightarrow>
        case make_item alloc (JArray []) w of
          (None, w1) \<Rightarrow> Some (Inr (NoMem, json, w1))
        | (Some array, w1) \<Rightarrow>
            (case scan_rom_codes alloc wire array RomCodeScanner_init (snd (suspend w1)) of
               None \<Rightarrow> None
             | Some (Inl f) \<Rightarrow> Some (Inl f)
             | Some (Inr (code, array', w2)) \<Rightarrow>
                 Some (Inr (code, snd (cJSON_AddItemToObjectCS json ''rom_codes'' array'), snd (resume w2)))))"

definition DS18B20Handler_format_sensor :: "'w heap \<Rightarrow> 'v Sensor \<Rightarrow> (cJSON \<times> 'w) step" where
  "DS18B20Handler_format_sensor alloc sensor aw =
     (case aw of (array, w) \<Rightarrow>
        case make_item alloc (JObject []) w of
          (None, w1) \<Rightarrow> (NoMem, (array, w1))
        | (Some json, w1) \<Rightarrow>
            (case run_steps [no_mem (add_string_cs alloc ''id'' (se_id sensor)),
                   no_mem (if Sensor_configured sensor then add_true_cs alloc ''configured''
                           else add_false_cs alloc ''configured'')] (json, w1) of
               (code, (json', w2)) \<Rightarrow>
                 if code \<noteq> OK then (code, (array, w2))
                 else case cJSON_AddItemToArray array json' of
                   (ok, array') \<Rightarrow> if \<not> ok then (NoMem, (array, w2)) else (OK, (array', w2))))"

definition DS18B20Handler_format_sensors :: "'w heap \<Rightarrow> 'v Sensor list \<Rightarrow> (cJSON \<times> 'w) step" where
  "DS18B20Handler_format_sensors alloc sensors jw =
     (case jw of (json, w) \<Rightarrow>
        case make_item alloc (JArray []) w of
          (None, w1) \<Rightarrow> (NoMem, (json, w1))
        | (Some array, w1) \<Rightarrow>
            (case run_steps (map (DS18B20Handler_format_sensor alloc) sensors) (array, w1) of
               (code, (array', w2)) \<Rightarrow>
                 (code, (snd (cJSON_AddItemToObjectCS json ''sensors'' array'), w2))))"

definition DS18B20Handler_scan ::
    "'w heap \<Rightarrow> 'w step \<Rightarrow> 'w step \<Rightarrow> 'w wire \<Rightarrow> 'v Sensor list \<Rightarrow> cJSON \<times> 'w
       \<Rightarrow> (status_code \<times> cJSON \<times> 'w) checked option" where
  "DS18B20Handler_scan alloc suspend resume wire sensors jw =
     (case DS18B20Handler_scan_rom_code alloc suspend resume wire jw of
        None \<Rightarrow> None
      | Some (Inl f) \<Rightarrow> Some (Inl f)
      | Some (Inr (code, json', w1)) \<Rightarrow>
          if code \<noteq> OK then Some (Inr (code, json', w1))
          else Some (Inr (DS18B20Handler_format_sensors alloc sensors (json', w1))))"

definition DS18B20Handler_read_configuration :: "'w heap \<Rightarrow> 'w IStorage \<Rightarrow> 'w Sensor \<Rightarrow> (cJSON \<times> 'w) step" where
  "DS18B20Handler_read_configuration alloc st sensor jw =
     (case jw of (json, w) \<Rightarrow>
        case Sensor_read_configuration st sensor Configuration_init w of
          (code, cf, w1) \<Rightarrow>
            if code \<noteq> OK \<and> code \<noteq> NoData then (code, (json, w1))
            else format_configuration alloc cf (json, w1))"

definition DS18B20Handler_erase_configuration ::
    "'w heap \<Rightarrow> 'w IStorage \<Rightarrow> 'w Sensor \<Rightarrow> cJSON \<times> 'w \<Rightarrow> status_code \<times> 'w Sensor \<times> cJSON \<times> 'w" where
  "DS18B20Handler_erase_configuration alloc st sensor jw =
     (case jw of (json, w) \<Rightarrow>
        case Sensor_erase_configuration st Configuration_init (sensor, w) of
          (code, cf, sensor', w1) \<Rightarrow>
            if code \<noteq> OK \<and> code \<noteq> NoData then (code, sensor', json, w1)
            else case format_configuration alloc cf (json, w1) of (code, jw') \<Rightarrow> (code, sensor', jw'))"

definition DS18B20Handler_find_rom_code ::
    "'w step \<Rightarrow> 'w step \<Rightarrow> 'w wire \<Rightarrow> Configuration \<Rightarrow> 'w \<Rightarrow> (status_code \<times> Configuration \<times> 'w) checked option" where
  "DS18B20Handler_find_rom_code suspend resume wire cf w =
     (case find_rom_code wire cf RomCodeScanner_init (snd (suspend w)) of
        None \<Rightarrow> None
      | Some (Inl f) \<Rightarrow> Some (Inl f)
      | Some (Inr (code, cf', w')) \<Rightarrow> Some (Inr (code, cf', snd (resume w'))))"

definition DS18B20Handler_write_configuration ::
    "'w heap \<Rightarrow> 'w step \<Rightarrow> 'w step \<Rightarrow> 'w IStorage \<Rightarrow> 'w wire \<Rightarrow> 'w Sensor \<Rightarrow> string \<times> nat \<Rightarrow> string
       \<Rightarrow> cJSON \<times> 'w \<Rightarrow> (status_code \<times> 'w Sensor \<times> cJSON \<times> 'w) checked option" where
  "DS18B20Handler_write_configuration alloc suspend resume st wire sensor serial resolution jw =
     (case jw of (json, w) \<Rightarrow>
        case parse_configuration Configuration_init (fst serial) (snd serial) resolution of
          Inl f \<Rightarrow> Some (Inl f)
        | Inr (code, cf) \<Rightarrow>
            if code \<noteq> OK then Some (Inr (code, sensor, json, w))
            else case DS18B20Handler_find_rom_code suspend resume wire cf w of
              None \<Rightarrow> None
            | Some (Inl f) \<Rightarrow> Some (Inl f)
            | Some (Inr (code, cf', w1)) \<Rightarrow>
                if code \<noteq> OK then Some (Inr (code, sensor, json, w1))
                else case Sensor_write_configuration st wire cf' (sensor, w1) of
                  (code, (sensor', w2)) \<Rightarrow>
                    if code \<noteq> OK then Some (Inr (code, sensor', json, w2))
                    else case DS18B20Handler_read_configuration alloc st sensor' (json, w2) of
                      (code, jw') \<Rightarrow> Some (Inr (code, sensor', jw')))"

section \<open>The scheduled functions\<close>

text \<open>
  The result of a function that returned, on the frame it refers to; or that it stopped the firmware, or
  the task.
\<close>

definition ds_done ::
    "nat \<Rightarrow> ds_frame \<Rightarrow> 'w Sensor list \<times> 'w ds_world \<Rightarrow> (status_code \<times> 'w Sensor list \<times> cJSON \<times> 'w) checked option
       \<Rightarrow> status_code \<times> ('w Sensor list \<times> 'w ds_world)" where
  "ds_done n fr sw result =
     (case sw of (sensors, dw) \<Rightarrow>
        case result of
          None \<Rightarrow> (Error, (sensors, dw\<lparr>dw_stop := Some Hung\<rparr>))
        | Some (Inl f) \<Rightarrow> (Error, (sensors, dw\<lparr>dw_stop := Some (Stopped f)\<rparr>))
        | Some (Inr (code, sensors', json, w)) \<Rightarrow>
            (code, (sensors', dw\<lparr>dw_frames := (dw_frames dw)(n \<mapsto> fr\<lparr>fm_json := json\<rparr>), dw_rest := w\<rparr>)))"

definition DS18B20Handler_call ::
    "'w heap \<Rightarrow> 'w step \<Rightarrow> 'w step \<Rightarrow> 'w IStorage \<Rightarrow> ds_kind \<Rightarrow> 'w wire \<Rightarrow> ds_frame \<Rightarrow> 'w Sensor list \<Rightarrow> 'w
       \<Rightarrow> (status_code \<times> 'w Sensor list \<times> cJSON \<times> 'w) checked option" where
  "DS18B20Handler_call alloc suspend resume st kind wire fr sensors w =
     (case kind of
        ScanSensors \<Rightarrow>
          map_option (map_sum id (\<lambda>(code, json, w'). (code, sensors, json, w')))
            (DS18B20Handler_scan alloc suspend resume wire sensors (fm_json fr, w))
      | _ \<Rightarrow>
          (case get_sensor (fm_sensor_id fr) sensors of
             None \<Rightarrow> Some (Inr (InvalidArg, sensors, fm_json fr, w))
           | Some i \<Rightarrow>
               (case kind of
                  ReadConfiguration \<Rightarrow>
                    (case DS18B20Handler_read_configuration alloc st (sensors ! i) (fm_json fr, w) of
                       (code, (json, w')) \<Rightarrow> Some (Inr (code, sensors, json, w')))
                | EraseConfiguration \<Rightarrow>
                    (case DS18B20Handler_erase_configuration alloc st (sensors ! i) (fm_json fr, w) of
                       (code, sensor', (json, w')) \<Rightarrow> Some (Inr (code, sensors[i := sensor'], json, w')))
                | _ \<Rightarrow>
                    map_option (map_sum id (\<lambda>(code, sensor', json, w'). (code, sensors[i := sensor'], json, w')))
                      (DS18B20Handler_write_configuration alloc suspend resume st wire (sensors ! i)
                        (fm_serial_number fr) (fm_resolution fr) (fm_json fr, w)))))"

text \<open>A function whose request has returned follows dangling references.\<close>

definition ds_exec :: "'w heap \<Rightarrow> 'w step \<Rightarrow> 'w step \<Rightarrow> 'w IStorage \<Rightarrow> 'w ds_exec" where
  "ds_exec alloc suspend resume st func wire sw =
     (case (func, sw) of
        ((kind, n), (sensors, dw)) \<Rightarrow>
          if dw_stop dw \<noteq> None then (Error, sw)
          else case dw_frames dw n of
            None \<Rightarrow> (Error, (sensors, dw\<lparr>dw_stop := Some (Stopped Dangling)\<rparr>))
          | Some fr \<Rightarrow>
              ds_done n fr sw (DS18B20Handler_call alloc suspend resume st kind wire fr sensors (dw_rest dw)))"

section \<open>Requests\<close>

text \<open>\<^verbatim>\<open>std::from_chars\<close> for \<^verbatim>\<open>int\<close>: a sign, digits, and the rest is left alone.\<close>

definition from_chars :: "string \<Rightarrow> int option" where
  "from_chars s =
     (let neg = (s \<noteq> [] \<and> hd s = CHR ''-''); ds = takeWhile is_digit (if neg then tl s else s);
          v = (if neg then - int (digits_val ds) else int (digits_val ds))
      in if ds = [] then None else if - (2 ^ 31) \<le> v \<and> v < 2 ^ 31 then Some v else None)"

definition ds_value :: "string \<Rightarrow> string \<Rightarrow> string option" where
  "ds_value uri key = map_option (view_str uri) (UriOps_parse_query (Some uri) key)"

definition ds_frame_init :: ds_frame where
  "ds_frame_init = \<lparr>fm_json = JObject [], fm_sensor_id = [], fm_serial_number = ([], 0), fm_resolution = []\<rparr>"

text \<open>What the three handlers take from the URI: the GPIO and the frame, or \<open>None\<close> for \<open>InvalidArg\<close>.\<close>

definition DS18B20Handler_parse_gpio :: "string \<Rightarrow> int option" where
  "DS18B20Handler_parse_gpio uri =
     (case ds_value uri ''gpio'' of None \<Rightarrow> None | Some v \<Rightarrow> from_chars v)"

definition DS18B20Handler_parse_configuration :: "string \<Rightarrow> (int \<times> ds_frame) option" where
  "DS18B20Handler_parse_configuration uri =
     (case DS18B20Handler_parse_gpio uri of
        None \<Rightarrow> None
      | Some gpio \<Rightarrow>
          (case ds_value uri ''sensor_id'' of
             None \<Rightarrow> None
           | Some sensor_id \<Rightarrow> Some (gpio, ds_frame_init\<lparr>fm_sensor_id := sensor_id\<rparr>)))"

definition DS18B20Handler_parse_write :: "string \<Rightarrow> (int \<times> ds_frame) option" where
  "DS18B20Handler_parse_write uri =
     (case DS18B20Handler_parse_configuration uri of
        None \<Rightarrow> None
      | Some (gpio, fr) \<Rightarrow>
          (case UriOps_parse_query (Some uri) ''serial_number'' of
             None \<Rightarrow> None
           | Some v \<Rightarrow>
               (case ds_value uri ''resolution'' of
                  None \<Rightarrow> None
                | Some resolution \<Rightarrow>
                    Some (gpio, fr\<lparr>fm_serial_number := (drop (fst v) uri, snd v), fm_resolution := resolution\<rparr>))))"

definition DS18B20Handler_send_response :: "'w httpd_api \<Rightarrow> printer \<Rightarrow> nat \<Rightarrow> cJSON \<Rightarrow> 'w step" where
  "DS18B20Handler_send_response api print buffer_size json w =
     (case print json buffer_size of
        (ok, buf) \<Rightarrow>
          if \<not> ok then (NoMem, w)
          else run_steps [http_step (hd_resp_set_type api ''application/json''),
                 http_step (hd_resp_send api buf)] w)"

text \<open>
  The common part of the handlers: the frame, the function, the wait, the response; the frame ends with
  the handler. \<open>future_alloc\<close> says whether the future can be allocated, and during \<open>wait_future\<close> the
  task of the store can run.
\<close>

type_synonym 'w ds_state = "'w DsStore \<times> 'w ds_world"

definition ds_return :: "nat \<Rightarrow> status_code \<Rightarrow> 'w ds_state \<Rightarrow> status_code \<times> 'w ds_state" where
  "ds_return n code s = (code, (fst s, (snd s)\<lparr>dw_frames := (dw_frames (snd s))(n := None)\<rparr>))"

definition DS18B20Handler_serve ::
    "'w httpd_api \<Rightarrow> 'w heap \<Rightarrow> printer \<Rightarrow> nat \<Rightarrow> bool \<Rightarrow> (int \<Rightarrow> nat \<Rightarrow> 'w ds_state \<Rightarrow> status_code \<times> 'w ds_state)
       \<Rightarrow> ds_kind \<Rightarrow> (int \<times> ds_frame) option \<Rightarrow> 'w ds_state step" where
  "DS18B20Handler_serve api alloc print buffer_size future_alloc wait_future kind request s =
     (case request of
        None \<Rightarrow> (InvalidArg, s)
      | Some (gpio, fr) \<Rightarrow>
          (case make_item alloc (JObject []) (dw_rest (snd s)) of
             (None, w1) \<Rightarrow> (NoMem, (fst s, (snd s)\<lparr>dw_rest := w1\<rparr>))
           | (Some json, w1) \<Rightarrow>
               let n = dw_next (snd s);
                   dw1 = (snd s)\<lparr>dw_frames := (dw_frames (snd s))(n \<mapsto> fr\<lparr>fm_json := json\<rparr>),
                                 dw_next := n + 1, dw_rest := w1\<rparr>
               in case DsStore_schedule future_alloc gpio (kind, n) (fst s) of
                    (None, st1) \<Rightarrow> ds_return n InvalidState (st1, dw1)
                  | (Some i, st1) \<Rightarrow>
                      (case wait_future gpio i (st1, dw1) of
                         (code, s2) \<Rightarrow>
                           if code \<noteq> OK then ds_return n Timeout s2
                           else
                             let code = (case DsStore_get_node gpio (fst s2) of
                                           None \<Rightarrow> Last | Some node \<Rightarrow> Future_code i (dn_futures node))
                             in if code \<noteq> OK then ds_return n code s2
                                else case dw_frames (snd s2) n of
                                  None \<Rightarrow> ds_return n Error s2
                                | Some fr' \<Rightarrow>
                                    (case DS18B20Handler_send_response api print buffer_size (fm_json fr')
                                            (dw_rest (snd s2)) of
                                       (code, w3) \<Rightarrow> ds_return n code (fst s2, (snd s2)\<lparr>dw_rest := w3\<rparr>)))))"

definition response_buffer_size :: nat where "response_buffer_size = 256"

definition DS18B20Handler_request :: "ds_kind \<Rightarrow> string \<Rightarrow> (int \<times> ds_frame) option" where
  "DS18B20Handler_request kind uri =
     (case kind of
        ScanSensors \<Rightarrow> map_option (\<lambda>gpio. (gpio, ds_frame_init)) (DS18B20Handler_parse_gpio uri)
      | WriteConfiguration \<Rightarrow> DS18B20Handler_parse_write uri
      | _ \<Rightarrow> DS18B20Handler_parse_configuration uri)"

definition DS18B20Handler_handle ::
    "'w httpd_api \<Rightarrow> 'w heap \<Rightarrow> printer \<Rightarrow> bool \<Rightarrow> (int \<Rightarrow> nat \<Rightarrow> 'w ds_state \<Rightarrow> status_code \<times> 'w ds_state)
       \<Rightarrow> ds_kind \<Rightarrow> string \<Rightarrow> 'w ds_state step" where
  "DS18B20Handler_handle api alloc print future_alloc wait_future kind uri =
     DS18B20Handler_serve api alloc print response_buffer_size future_alloc wait_future kind
       (DS18B20Handler_request kind uri)"

section \<open>The store\<close>

text \<open>The intervals of a node are accepted by the bus.\<close>

lemma DsNode_init_ok: "0 < m \<Longrightarrow> \<exists>node. DsNode_init wire_of gpio m = Inr node \<and> dn_sensors node = []"
  by (simp add: DsNode_init_def DsNode_bus_params_def Bus_init_def AsyncFuncScheduler_init_def
      microsecond_def Let_def)

lemma DsNode_add_distinct:
  "distinct (map se_id (dn_sensors node)) \<Longrightarrow>
    distinct (map se_id (dn_sensors (fst (snd (DsNode_add st sensor (node, w))))))"
proof -
  assume d: "distinct (map se_id (dn_sensors node))"
  have keep: "se_id (fst (snd (Sensor_write_configuration st wire cf (sensor, w)))) = se_id sensor" for wire cf w
    by (auto simp: Sensor_write_configuration_def split: prod.splits)
  show ?thesis using d keep
    by (auto simp: DsNode_add_def Let_def registry_simps split: prod.splits)
      (metis fst_conv snd_conv)+
qed

section \<open>Finding a device\<close>

lemma RomCodeScanner_scan_valid:
  "RomCodeScanner_scan wire rc s w = Inr (OK, rc', s', w') \<Longrightarrow> RomCode_valid rc'"
  by (auto simp: RomCodeScanner_scan_def Let_def split: if_splits prod.splits sum.splits)

text \<open>A step of the first loop, while the heap lasts.\<close>

abbreviation serial_item :: "bytes \<Rightarrow> cJSON" where
  "serial_item c \<equiv> JString (serial_number_to_str (rc_serial_number (RomCode_of_bytes c)))"

lemma append_string_plenty:
  assumes "plenty alloc"
  obtains w' where "append_string alloc str (json, w) = (True, (snd (cJSON_AddItemToArray json (JString str)), w'))"
proof -
  obtain w' where "alloc w = (True, w')" using assms by (metis plenty_def prod.collapse)
  then show ?thesis
    using that by (cases json) (simp_all add: append_string_def append_item_def make_item_def
        cJSON_AddItemToArray_def)
qed

lemma plenty_always [simp]: "plenty (\<lambda>w. (True, w))"
  by (simp add: plenty_def)

lemma scan_rom_codes_step:
  assumes "plenty alloc" and "scans wire s (RomCode_of_bytes c) s'"
  shows "\<exists>w'. scan_rom_codes alloc wire (JArray items) s w
    = scan_rom_codes alloc wire (JArray (items @ [serial_item c])) s' w'"
proof -
  obtain w1 where w1: "RomCodeScanner_scan wire RomCode_init s w = Inr (OK, RomCode_of_bytes c, s', w1)"
    using assms(2) by blast
  obtain w2 where "append_string alloc (serial_number_to_str (rc_serial_number (RomCode_of_bytes c))) (JArray items, w1)
      = (True, (JArray (items @ [serial_item c]), w2))"
    by (rule append_string_plenty [OF assms(1), where json = "JArray items"])
      (simp add: cJSON_AddItemToArray_def)
  with w1 have "scan_rom_codes alloc wire (JArray items) s w
      = scan_rom_codes alloc wire (JArray (items @ [serial_item c])) s' w2"
    by (subst scan_rom_codes.simps) simp
  then show ?thesis ..
qed

lemma scan_rom_codes_finished:
  "sc_finished s \<Longrightarrow> scan_rom_codes alloc wire array s w = Some (Inr (OK, array, w))"
  by (subst scan_rom_codes.simps) (simp add: RomCodeScanner_scan_def)

text \<open>A scan that leaves the scanner as it is repeats for ever.\<close>

lemma scan_rom_codes_repeats:
  assumes "plenty alloc" and "scans wire s rc s"
  shows "scan_rom_codes alloc wire array s w = None"
proof (rule ccontr)
  let ?P = "\<lambda>(alloc :: 'a heap) (wire :: 'a wire) (array :: cJSON) (s :: RomCodeScanner) (w :: 'a)
    (r :: (status_code \<times> cJSON \<times> 'a) checked). plenty alloc \<longrightarrow> \<not> scans wire s rc s"
  assume "scan_rom_codes alloc wire array s w \<noteq> None"
  then obtain r where r: "scan_rom_codes alloc wire array s w = Some r" by blast
  have "?P alloc wire array s w r"
  proof (rule scan_rom_codes.raw_induct [where P = ?P, OF _ r])
    fix rec :: "'a heap \<Rightarrow> 'a wire \<Rightarrow> cJSON \<Rightarrow> RomCodeScanner \<Rightarrow> 'a \<Rightarrow> (status_code \<times> cJSON \<times> 'a) checked option"
      and alloc :: "'a heap" and wire :: "'a wire" and array s w r
    assume IH: "\<And>alloc wire array s w r. rec alloc wire array s w = Some r \<Longrightarrow> ?P alloc wire array s w r"
      and eq: "(case RomCodeScanner_scan wire RomCode_init s w of
          Inl f \<Rightarrow> Some (Inl f)
        | Inr (code, rc, s', w1) \<Rightarrow>
            if code \<noteq> OK then Some (Inr (if code \<noteq> NoData then code else OK, array, w1))
            else case append_string alloc (serial_number_to_str (rc_serial_number rc)) (array, w1) of
              (ok, (array', w2)) \<Rightarrow>
                if \<not> ok then Some (Inr (NoMem, array', w2)) else rec alloc wire array' s' w2) = Some r"
    show "?P alloc wire array s w r"
    proof (intro impI notI)
      assume p: "plenty alloc" and *: "scans wire s rc s"
      then obtain w1 where w1: "RomCodeScanner_scan wire RomCode_init s w = Inr (OK, rc, s, w1)" by blast
      obtain array' w2 where "append_string alloc (serial_number_to_str (rc_serial_number rc)) (array, w1)
          = (True, (array', w2))"
        by (rule append_string_plenty [OF p])
      with eq w1 have "rec alloc wire array' s w2 = Some r" by simp
      from IH [OF this] p * show False by blast
    qed
  qed
  with assms show False by blast
qed

lemma find_rom_code_step:
  assumes "scans wire s rc s'" and "rc_serial_number rc \<noteq> rc_serial_number (cf_rom_code cf)"
  shows "\<exists>w'. find_rom_code wire cf s w = find_rom_code wire cf s' w'"
proof -
  obtain w1 where "RomCodeScanner_scan wire RomCode_init s w = Inr (OK, rc, s', w1)" using assms(1) by blast
  with assms(2) have "find_rom_code wire cf s w = find_rom_code wire cf s' w1"
    by (subst find_rom_code.simps) simp
  then show ?thesis ..
qed

lemma find_rom_code_repeats:
  assumes "scans wire s rc s" and "rc_serial_number rc \<noteq> rc_serial_number (cf_rom_code cf)"
  shows "find_rom_code wire cf s w = None"
proof (rule ccontr)
  let ?P = "\<lambda>(wire :: 'a wire) (cf :: Configuration) (s :: RomCodeScanner) (w :: 'a)
    (r :: (status_code \<times> Configuration \<times> 'a) checked).
    scans wire s rc s \<longrightarrow> rc_serial_number rc = rc_serial_number (cf_rom_code cf)"
  assume "find_rom_code wire cf s w \<noteq> None"
  then obtain r where r: "find_rom_code wire cf s w = Some r" by blast
  have "?P wire cf s w r"
  proof (rule find_rom_code.raw_induct [where P = ?P, OF _ r])
    fix rec :: "'a wire \<Rightarrow> Configuration \<Rightarrow> RomCodeScanner \<Rightarrow> 'a \<Rightarrow> (status_code \<times> Configuration \<times> 'a) checked option"
      and wire :: "'a wire" and cf s w r
    assume IH: "\<And>wire cf s w r. rec wire cf s w = Some r \<Longrightarrow> ?P wire cf s w r"
      and eq: "(case RomCodeScanner_scan wire RomCode_init s w of
          Inl f \<Rightarrow> Some (Inl f)
        | Inr (code, rc, s', w1) \<Rightarrow>
            if code \<noteq> OK then Some (Inr (code, cf, w1))
            else if rc_serial_number rc = rc_serial_number (cf_rom_code cf)
            then Some (Inr (OK, cf\<lparr>cf_rom_code := rc\<rparr>, w1))
            else rec wire cf s' w1) = Some r"
    show "?P wire cf s w r"
    proof (intro impI, rule ccontr)
      assume *: "scans wire s rc s" and ne: "rc_serial_number rc \<noteq> rc_serial_number (cf_rom_code cf)"
      then obtain w1 where "RomCodeScanner_scan wire RomCode_init s w = Inr (OK, rc, s, w1)" by blast
      with eq ne have "rec wire cf s w1 = Some r" by simp
      from IH [OF this] * ne show False by blast
    qed
  qed
  with assms show False by blast
qed

section \<open>Searching the bus\<close>

text \<open>
  C1. Two devices are always found: for any two valid ROM codes, whatever their first different bit, the
  handler's loop ends and appends the serial numbers of both to the array, the one with a zero at that bit
  first, as long as the heap lasts.
\<close>

theorem scan_finds_two_devices:
  assumes "search_laws wire srch devs" and "set devs = {a, b}" and "parts_at a b d"
    and "RomCode_valid (RomCode_of_bytes a)" and "RomCode_valid (RomCode_of_bytes b)" and "plenty alloc"
  shows "\<exists>w'. scan_rom_codes alloc wire (JArray items) RomCodeScanner_init w
    = Some (Inr (OK, JArray (items @ [serial_item a, serial_item b]), w'))"
proof -
  obtain s1 s2 where s: "scans wire RomCodeScanner_init (RomCode_of_bytes a) s1"
    "scans wire s1 (RomCode_of_bytes b) s2" "sc_finished s2"
    using two_scans [OF assms(1-5)] by blast
  obtain w1 where 1: "scan_rom_codes alloc wire (JArray items) RomCodeScanner_init w
      = scan_rom_codes alloc wire (JArray (items @ [serial_item a])) s1 w1"
    using scan_rom_codes_step [OF assms(6) s(1)] by blast
  obtain w2 where "scan_rom_codes alloc wire (JArray (items @ [serial_item a])) s1 w1
      = scan_rom_codes alloc wire (JArray ((items @ [serial_item a]) @ [serial_item b])) s2 w2"
    using scan_rom_codes_step [OF assms(6) s(2)] by blast
  with 1 show ?thesis using scan_rom_codes_finished [OF s(3), of alloc wire] by simp
qed

theorem scan_finds_two_devices_witness:
  "\<exists>w'. scan_rom_codes (\<lambda>w. (True, w)) (search_sim [rom_b, rom_a]) (JArray []) RomCodeScanner_init (0, None)
    = Some (Inr (OK, JArray [serial_item rom_a, serial_item rom_b], w'))"
  using scan_finds_two_devices [OF search_sim_laws _ parts_ab roms_valid plenty_always, of "[rom_b, rom_a]" "[]"]
  by (simp add: insert_commute)

text \<open>
  C37. With three devices the handler hangs: when the device that differs first has a zero where the other
  two have a one (not at bit 0, where all family codes agree), the third device is never found. The scan
  does not end while the heap lasts, and neither does the search for a serial number other than those of
  the first two, present or not, whatever the heap: it leaves the system suspended.
\<close>

theorem scan_three_devices_hangs:
  assumes "search_laws wire srch devs" and "set devs = {a, b, c}"
    and "parts_at a b d1" and "parts_at a c d1" and "parts_at b c d2" and "0 < d1" and "d1 < d2"
    and "RomCode_valid (RomCode_of_bytes a)" and "RomCode_valid (RomCode_of_bytes b)"
  shows "(plenty alloc \<longrightarrow> scan_rom_codes alloc wire (JArray items) RomCodeScanner_init w = None)
    \<and> (rc_serial_number (RomCode_of_bytes a) \<noteq> rc_serial_number (cf_rom_code cf)
        \<and> rc_serial_number (RomCode_of_bytes b) \<noteq> rc_serial_number (cf_rom_code cf)
        \<longrightarrow> find_rom_code wire cf RomCodeScanner_init w = None)"
proof -
  obtain s1 s2 where s: "scans wire RomCodeScanner_init (RomCode_of_bytes a) s1"
    "scans wire s1 (RomCode_of_bytes b) s2" "scans wire s2 (RomCode_of_bytes a) s2"
    using three_scans [OF assms] by blast
  have "scan_rom_codes alloc wire (JArray items) RomCodeScanner_init w = None" if p: "plenty alloc"
    using scan_rom_codes_step [OF p s(1), of items w] scan_rom_codes_step [OF p s(2), of "items @ [serial_item a]"]
      scan_rom_codes_repeats [OF p s(3)] by auto
  moreover have "find_rom_code wire cf RomCodeScanner_init w = None"
    if n: "rc_serial_number (RomCode_of_bytes a) \<noteq> rc_serial_number (cf_rom_code cf)"
      "rc_serial_number (RomCode_of_bytes b) \<noteq> rc_serial_number (cf_rom_code cf)"
    using find_rom_code_step [OF s(1) n(1), of w] find_rom_code_step [OF s(2) n(2)]
      find_rom_code_repeats [OF s(3) n(1)] by auto
  ultimately show ?thesis by blast
qed

theorem scan_three_devices_hangs_witness:
  "scan_rom_codes (\<lambda>w. (True, w)) (search_sim [rom_c, rom_a, rom_b]) (JArray []) RomCodeScanner_init (0, None) = None
   \<and> find_rom_code (search_sim [rom_c, rom_a, rom_b]) (Configuration_init\<lparr>cf_rom_code := RomCode_of_bytes rom_c\<rparr>)
        RomCodeScanner_init (0, None) = None"
proof -
  have "rc_serial_number (RomCode_of_bytes rom_a) \<noteq> rc_serial_number (RomCode_of_bytes rom_c)"
    "rc_serial_number (RomCode_of_bytes rom_b) \<noteq> rc_serial_number (RomCode_of_bytes rom_c)" by code_simp+
  with scan_three_devices_hangs [OF search_sim_laws _ parts_ab parts_ac parts_bc _ _ roms_valid, of
      "[rom_c, rom_a, rom_b]" "\<lambda>w. (True, w)" "[]" "(0, None)"
      "Configuration_init\<lparr>cf_rom_code := RomCode_of_bytes rom_c\<rparr>"]
  show ?thesis by (simp add: insert_commute)
qed



section \<open>A request that times out\<close>

lemma DsStore_get_node_single [simp]:
  "DsStore_get_node gpio \<lparr>ds_max_event_count = m, ds_nodes = [(gpio, node)]\<rparr> = Some node"
  by (simp add: DsStore_get_node_def)

text \<open>
  C38. A request whose wait is over before the task of the store comes to its function is answered with
  \<open>Timeout\<close>, but the function stays in the queue: when it runs, it follows the references into the frame
  of the request that has returned.
\<close>

theorem DS18B20Handler_timeout_dangles:
  assumes "DS18B20Handler_request kind uri = Some (gpio, fr)" and "plenty alloc"
    and "afs_write_queue (dn_func_scheduler node) = []" and "afs_read_queue (dn_func_scheduler node) = []"
    and "afs_max_event_count (dn_func_scheduler node) \<noteq> 0" and "dw_stop dw = None"
  shows "\<exists>s'. DS18B20Handler_handle api alloc print True (\<lambda>_ _ s. (Error, s)) kind uri
        (\<lparr>ds_max_event_count = m, ds_nodes = [(gpio, node)]\<rparr>, dw) = (Timeout, s')
    \<and> dw_stop (snd s') = None
    \<and> dw_stop (snd (snd (DsStore_run (ds_exec alloc suspend resume st) s'))) = Some (Stopped Dangling)"
proof -
  let ?n = "dw_next dw" and ?sch = "dn_func_scheduler node" and ?h = "dn_futures node"
  obtain w1 where w1: "alloc (dw_rest dw) = (True, w1)" using assms(2) by (metis plenty_def prod.collapse)
  let ?node = "node\<lparr>dn_func_scheduler := ?sch\<lparr>afs_write_queue := [((kind, ?n), length ?h)]\<rparr>,
      dn_futures := ?h @ [Last]\<rparr>"
  let ?s1 = "\<lparr>ds_max_event_count = m, ds_nodes = [(gpio, ?node)]\<rparr>"
  let ?dw = "dw\<lparr>dw_frames := (dw_frames dw)(?n := None), dw_next := ?n + 1, dw_rest := w1\<rparr>"
  have sched: "DsStore_schedule True gpio (kind, ?n) \<lparr>ds_max_event_count = m, ds_nodes = [(gpio, node)]\<rparr>
      = (Some (length ?h), ?s1)"
    using assms(3,5) by (simp add: DsStore_schedule_def DsNode_schedule_def AsyncFuncScheduler_add_def
        Future_new_def update_node_def)
  have handle: "DS18B20Handler_handle api alloc print True (\<lambda>_ _ s. (Error, s)) kind uri
      (\<lparr>ds_max_event_count = m, ds_nodes = [(gpio, node)]\<rparr>, dw) = (Timeout, (?s1, ?dw))"
    using assms(1) w1 sched
    by (simp add: DS18B20Handler_handle_def DS18B20Handler_serve_def make_item_def Let_def ds_return_def)
  have "dw_stop (snd (snd (DsStore_run (ds_exec alloc suspend resume st) (?s1, ?dw)))) = Some (Stopped Dangling)"
    using assms(4,6)
    by (simp add: DsStore_run_def DsNode_run_def AsyncFuncScheduler_run_def Let_def AsyncFuncScheduler_call_def
        DsNode_exec_def ds_exec_def)
  then show ?thesis using handle assms(6) by (intro exI [of _ "(?s1, ?dw)"]) simp
qed

theorem DS18B20Handler_timeout_dangles_witness:
  "\<forall>api print suspend resume st. \<exists>node s'. DsNode_init (\<lambda>_ _. search_sim []) 5 4 = Inr node
    \<and> DS18B20Handler_handle api (\<lambda>w. (True, w)) print True (\<lambda>_ _ s. (Error, s)) ScanSensors ''/scan?gpio=5''
        (\<lparr>ds_max_event_count = 4, ds_nodes = [(5, node)]\<rparr>,
         \<lparr>dw_frames = Map.empty, dw_next = 0, dw_stop = None, dw_rest = (0, None)\<rparr>) = (Timeout, s')
    \<and> dw_stop (snd (snd (DsStore_run (ds_exec (\<lambda>w. (True, w)) suspend resume st) s'))) = Some (Stopped Dangling)"
proof -
  have req: "DS18B20Handler_request ScanSensors ''/scan?gpio=5'' = Some (5, ds_frame_init)" by code_simp
  obtain node where node: "DsNode_init (\<lambda>_ _. search_sim []) 5 4 = Inr node"
    "afs_write_queue (dn_func_scheduler node) = []" "afs_read_queue (dn_func_scheduler node) = []"
    "afs_max_event_count (dn_func_scheduler node) \<noteq> 0"
    by (simp add: DsNode_init_def DsNode_bus_params_def Bus_init_def AsyncFuncScheduler_init_def
        microsecond_def Let_def)
  let ?dw = "\<lparr>dw_frames = Map.empty, dw_next = 0, dw_stop = None, dw_rest = (0, None)\<rparr>"
  have stop: "dw_stop ?dw = None" by simp
  show ?thesis
  proof (intro allI exI [where x = node])
    fix api print suspend resume st
    from DS18B20Handler_timeout_dangles [OF req plenty_always node(2-4) stop, of api print 4 suspend resume st]
    show "\<exists>s'. DsNode_init (\<lambda>_ _. search_sim []) 5 4 = Inr node
        \<and> DS18B20Handler_handle api (\<lambda>w. (True, w)) print True (\<lambda>_ _ s. (Error, s)) ScanSensors ''/scan?gpio=5''
            (\<lparr>ds_max_event_count = 4, ds_nodes = [(5, node)]\<rparr>, ?dw) = (Timeout, s')
        \<and> dw_stop (snd (snd (DsStore_run (ds_exec (\<lambda>w. (True, w)) suspend resume st) s'))) = Some (Stopped Dangling)"
      using node(1) by blast
  qed
qed

end
