(* ===== verification/Pipelines.thy ===== *)
theory Pipelines
  imports Diagnostic System Control Analog Scheduler Deferred Sht41
begin

text \<open>
  How the parts of a device are put together: the I2C bus and the converter channels
  (\<open>components/ocs_io\<close>), the pipeline of an FSM block (\<open>ocs_control/fsm_block_pipeline.cpp\<close>), the
  pipelines of the sensors (\<open>ocs_sensor\<close>), and those of the system
  (\<open>ocs_pipeline/basic\<close>). A pipeline creates its objects and registers them with what they share:
  the storage builder, the reboot handlers and the task scheduler.
\<close>

section \<open>Objects\<close>

text \<open>
  Tasks and reboot handlers refer to objects that live in the state \<open>'w\<close> of the device. A slot is the
  place of one object.
\<close>

record ('b, 'w) slot =
  sl_get :: "'w \<Rightarrow> 'b"
  sl_put :: "'b \<Rightarrow> 'w \<Rightarrow> 'w"

definition at_slot :: "('b, 'w) slot \<Rightarrow> ('b \<times> 'w) step \<Rightarrow> 'w step" where
  "at_slot slot f w = (case f (sl_get slot w, w) of (code, (b, w')) \<Rightarrow> (code, sl_put slot b w'))"

text \<open>What the pipelines share.\<close>

record 'w pipelines =
  pl_storage_ids :: "string set"
  pl_adcs :: "(nat \<times> 'w IAdc) list"
  pl_reboot_handlers :: "'w IRebootHandler list"
  pl_counters :: "'w ICounter list"
  pl_task_scheduler :: "'w PeriodicTaskScheduler"

text \<open>\<^verbatim>\<open>configASSERT(task_scheduler.add(...) == StatusCode::OK)\<close>\<close>

definition schedule_task :: "'w ITask \<Rightarrow> string \<Rightarrow> time \<Rightarrow> 'w pipelines \<Rightarrow> 'w pipelines checked" where
  "schedule_task task k interval p =
     (case PeriodicTaskScheduler_add task k interval (pl_task_scheduler p) of
        Inl f \<Rightarrow> Inl f
      | Inr (code, s) \<Rightarrow> if code \<noteq> OK then Inl AssertFailed else Inr (p\<lparr>pl_task_scheduler := s\<rparr>))"

definition add_reboot_handler :: "'w IRebootHandler \<Rightarrow> 'w pipelines \<Rightarrow> 'w pipelines" where
  "add_reboot_handler h p = p\<lparr>pl_reboot_handlers := FanoutRebootHandler_add h (pl_reboot_handlers p)\<rparr>"

section \<open>Analog-to-digital converter\<close>

text \<open>The converter of the ESP-IDF: a channel is configured, read, and a reading converted.\<close>

record 'w adc_api =
  adc_config_channel :: "nat \<Rightarrow> 'w \<Rightarrow> bool \<times> 'w"
  adc_oneshot_read :: "nat \<Rightarrow> 'w \<Rightarrow> u32 option \<times> 'w"
  adc_raw_to_voltage :: "u32 \<Rightarrow> 'w \<Rightarrow> u32 option \<times> 'w"

definition OneshotAdc_result :: "u32 option \<Rightarrow> status_code \<times> u32" where
  "OneshotAdc_result r = (case r of None \<Rightarrow> (Error, - 1) | Some v \<Rightarrow> (OK, v))"

definition OneshotAdc_read :: "'w adc_api \<Rightarrow> nat \<Rightarrow> 'w \<Rightarrow> (status_code \<times> u32) \<times> 'w" where
  "OneshotAdc_read api channel w =
     (case adc_oneshot_read api channel w of (r, w') \<Rightarrow> (OneshotAdc_result r, w'))"

definition OneshotAdc_convert :: "'w adc_api \<Rightarrow> u32 \<Rightarrow> 'w \<Rightarrow> (status_code \<times> u32) \<times> 'w" where
  "OneshotAdc_convert api raw w =
     (case adc_raw_to_voltage api raw w of (r, w') \<Rightarrow> (OneshotAdc_result r, w'))"

definition OneshotAdc :: "'w adc_api \<Rightarrow> nat \<Rightarrow> 'w IAdc" where
  "OneshotAdc api channel = \<lparr>adc_read = OneshotAdc_read api channel, adc_convert = OneshotAdc_convert api\<rparr>"

definition DefaultStore_add ::
    "'w adc_api \<Rightarrow> nat \<Rightarrow> (nat \<times> 'w IAdc) list \<times> 'w \<Rightarrow> 'w IAdc option \<times> (nat \<times> 'w IAdc) list \<times> 'w" where
  "DefaultStore_add api channel aw =
     (case aw of (adcs, w) \<Rightarrow>
        if \<exists>adc\<in>set adcs. fst adc = channel then (None, adcs, w)
        else case adc_config_channel api channel w of
          (ok, w1) \<Rightarrow>
            if \<not> ok then (None, adcs, w1)
            else let adc = OneshotAdc api channel in (Some adc, adcs @ [(channel, adc)], w1))"

section \<open>I2C bus\<close>

datatype AddressLength = AddressBit_7 | AddressBit_10
datatype TransferSpeed = DefaultSpeed | FastSpeed

text \<open>The configuration of a device on the bus, and the driver of the ESP-IDF.\<close>

record i2c_device_config =
  dc_bit_10 :: bool
  dc_device_address :: u16
  dc_scl_speed_hz :: u32

type_synonym 'w i2c_bus = "i2c_device_config \<Rightarrow> 'w \<Rightarrow> 'w i2c_driver option \<times> 'w"

text \<open>\<open>bit10\<close> is \<^verbatim>\<open>SOC_I2C_SUPPORT_10BIT_ADDR\<close>.\<close>

definition I2cMasterStore_add ::
    "bool \<Rightarrow> 'w i2c_bus \<Rightarrow> AddressLength \<Rightarrow> u16 \<Rightarrow> TransferSpeed \<Rightarrow> 'w
       \<Rightarrow> ('w I2cTransceiver option \<times> 'w) checked" where
  "I2cMasterStore_add bit10 bus len addr speed w =
     (if \<not> bit10 \<and> len \<noteq> AddressBit_7 then Inl AssertFailed
      else
        case bus \<lparr>dc_bit_10 = (len = AddressBit_10), dc_device_address = addr,
                  dc_scl_speed_hz = (if speed = FastSpeed then 400000 else 100000)\<rparr> w of
          (None, w1) \<Rightarrow> Inr (None, w1)
        | (Some drv, w1) \<Rightarrow> Inr (Some (I2cMasterTransceiver drv), w1))"

definition I2cMasterStorePipeline_reset :: "'w I2cTransceiver \<Rightarrow> 'w step" where
  "I2cMasterStorePipeline_reset tr w = i2c_send tr [0x06] (second * 5) w"

text \<open>The pipeline sends a general call reset; its failure is only logged.\<close>

definition I2cMasterStorePipeline_init :: "bool \<Rightarrow> 'w i2c_bus \<Rightarrow> 'w \<Rightarrow> ('w I2cTransceiver \<times> 'w) checked" where
  "I2cMasterStorePipeline_init bit10 bus w =
     (case I2cMasterStore_add bit10 bus AddressBit_7 0x00 FastSpeed w of
        Inl f \<Rightarrow> Inl f
      | Inr (None, w1) \<Rightarrow> Inl AssertFailed
      | Inr (Some tr, w1) \<Rightarrow> Inr (tr, snd (I2cMasterStorePipeline_reset tr w1)))"

section \<open>FSM block\<close>

record FsmBlockPipelineParams =
  fp_state_save_interval :: time
  fp_state_interval_resolution :: time

text \<open>\<open>storage_of\<close> makes the storage of a namespace; \<open>block\<close> is the place of the block.\<close>

definition FsmBlockPipeline_init ::
    "('w \<Rightarrow> time) \<Rightarrow> (NvsStorage \<Rightarrow> 'w IStorage) \<Rightarrow> (FsmBlock, 'w) slot \<Rightarrow> string \<Rightarrow> FsmBlockPipelineParams
       \<Rightarrow> 'w pipelines \<times> 'w \<Rightarrow> ('w IStorage \<times> 'w pipelines \<times> 'w) checked" where
  "FsmBlockPipeline_init clock storage_of block k params pw =
     (case pw of (p, w) \<Rightarrow>
        if fp_state_save_interval params = 0 \<or> fp_state_interval_resolution params = 0 then Inl AssertFailed
        else case StorageBuilder_make (k @ ''_nvs'') (pl_storage_ids p) of
          (None, ids) \<Rightarrow> Inl AssertFailed
        | (Some nvs, ids) \<Rightarrow>
            let st = storage_of nvs
            in case FsmBlock_init st (fp_state_interval_resolution params) w of
                 Inl f \<Rightarrow> Inl f
               | Inr (b, w1) \<Rightarrow>
                   let reboot = (\<lambda>w. snd (at_slot block (\<lambda>bw. (OK, FsmBlock_handle_reboot clock st bw)) w));
                       p1 = add_reboot_handler reboot (p\<lparr>pl_storage_ids := ids\<rparr>)
                   in map_sum id (\<lambda>p2. (st, p2, sl_put block b w1))
                        (schedule_task (at_slot block (FsmBlock_run st)) (k @ ''_block'')
                          (fp_state_save_interval params) p1))"

section \<open>Sensors on the converter\<close>

record AnalogPipelineParams =
  ap_adc_channel :: nat
  ap_read_interval :: time
  ap_sensor :: adc_range
  ap_fsm_block :: FsmBlockPipelineParams

text \<open>\<^verbatim>\<open>adc_ = adc_store.add(channel); configASSERT(adc_);\<close>\<close>

definition add_adc :: "'w adc_api \<Rightarrow> nat \<Rightarrow> 'w pipelines \<times> 'w \<Rightarrow> ('w IAdc \<times> 'w pipelines \<times> 'w) checked" where
  "add_adc api channel pw =
     (case pw of (p, w) \<Rightarrow>
        case DefaultStore_add api channel (pl_adcs p, w) of
          (None, _, _) \<Rightarrow> Inl AssertFailed
        | (Some adc, adcs, w1) \<Rightarrow> Inr (adc, p\<lparr>pl_adcs := adcs\<rparr>, w1))"

definition LdrSensorPipeline_init ::
    "'w adc_api \<Rightarrow> (LdrData, 'w) slot \<Rightarrow> string \<Rightarrow> nat \<Rightarrow> time \<Rightarrow> adc_range
       \<Rightarrow> 'w pipelines \<times> 'w \<Rightarrow> ('w pipelines \<times> 'w) checked" where
  "LdrSensorPipeline_init api data k channel read_interval params pw =
     (case add_adc api channel pw of
        Inl f \<Rightarrow> Inl f
      | Inr (adc, p, w) \<Rightarrow>
          (case Ldr_init params of
             Inl f \<Rightarrow> Inl f
           | Inr params' \<Rightarrow>
               map_sum id (\<lambda>p'. (p', w))
                 (schedule_task (at_slot data (Ldr_run adc params')) (k @ ''_task'') read_interval p)))"

text \<open>The task of the soil sensor, on the sensor and its block; \<open>panic\<close> ends the firmware.\<close>

definition AnalogSensor_task ::
    "(fault \<Rightarrow> 'w \<Rightarrow> 'w) \<Rightarrow> ('w \<Rightarrow> time) \<Rightarrow> 'w IAdc \<Rightarrow> 'w IStorage \<Rightarrow> (AnalogSensor, 'w) slot
       \<Rightarrow> (FsmBlock, 'w) slot \<Rightarrow> 'w ITask" where
  "AnalogSensor_task panic clock adc st sensor block w =
     (case AnalogSensor_run adc clock st (sl_get sensor w, sl_get block w, w) of
        Inl f \<Rightarrow> (Error, panic f w)
      | Inr (code, self, b, w') \<Rightarrow> (code, sl_put sensor self (sl_put block b w')))"

text \<open>
  The two pipelines differ in the task they schedule, which \<open>wrap\<close> makes of the task of the sensor: the
  sensor itself, or with the relay around it. Both name their block \<^verbatim>\<open>"soil_fsm"\<close>.
\<close>

definition soil_pipeline_init ::
    "('w ITask \<Rightarrow> 'w ITask) \<Rightarrow> (fault \<Rightarrow> 'w \<Rightarrow> 'w) \<Rightarrow> ('w \<Rightarrow> time) \<Rightarrow> (NvsStorage \<Rightarrow> 'w IStorage) \<Rightarrow> 'w adc_api
       \<Rightarrow> (AnalogSensor, 'w) slot \<Rightarrow> (FsmBlock, 'w) slot \<Rightarrow> string \<Rightarrow> AnalogPipelineParams
       \<Rightarrow> 'w pipelines \<times> 'w \<Rightarrow> ('w pipelines \<times> 'w) checked" where
  "soil_pipeline_init wrap panic clock storage_of api sensor block k params pw =
     (case add_adc api (ap_adc_channel params) pw of
        Inl f \<Rightarrow> Inl f
      | Inr (adc, pw1) \<Rightarrow>
          (case FsmBlockPipeline_init clock storage_of block ''soil_fsm'' (ap_fsm_block params) pw1 of
             Inl f \<Rightarrow> Inl f
           | Inr (st, p2, w2) \<Rightarrow>
               (case AnalogSensor_init (ap_sensor params) of
                  Inl f \<Rightarrow> Inl f
                | Inr self \<Rightarrow>
                    map_sum id (\<lambda>p3. (p3, sl_put sensor self w2))
                      (schedule_task (wrap (AnalogSensor_task panic clock adc st sensor block))
                        (k @ ''_task'') (ap_read_interval params) p2))))"

definition AnalogSensorPipeline_init ::
    "(fault \<Rightarrow> 'w \<Rightarrow> 'w) \<Rightarrow> ('w \<Rightarrow> time) \<Rightarrow> (NvsStorage \<Rightarrow> 'w IStorage) \<Rightarrow> 'w adc_api
       \<Rightarrow> (AnalogSensor, 'w) slot \<Rightarrow> (FsmBlock, 'w) slot \<Rightarrow> string \<Rightarrow> AnalogPipelineParams
       \<Rightarrow> 'w pipelines \<times> 'w \<Rightarrow> ('w pipelines \<times> 'w) checked" where
  "AnalogSensorPipeline_init = soil_pipeline_init id"

definition AnalogRelaySensorPipeline_init ::
    "(nat \<Rightarrow> 'w \<Rightarrow> 'w) \<Rightarrow> 'w gpio_driver \<Rightarrow> nat \<Rightarrow> (fault \<Rightarrow> 'w \<Rightarrow> 'w) \<Rightarrow> ('w \<Rightarrow> time) \<Rightarrow> (NvsStorage \<Rightarrow> 'w IStorage)
       \<Rightarrow> 'w adc_api \<Rightarrow> (AnalogSensor, 'w) slot \<Rightarrow> (FsmBlock, 'w) slot \<Rightarrow> string \<Rightarrow> AnalogPipelineParams
       \<Rightarrow> 'w pipelines \<times> 'w \<Rightarrow> ('w pipelines \<times> 'w) checked" where
  "AnalogRelaySensorPipeline_init delay drv power_on_delay_interval =
     soil_pipeline_init (AnalogRelaySensor_run (AnalogRelaySensor_gpio delay drv power_on_delay_interval))"

section \<open>The sensor on the I2C bus\<close>

definition Sht41Pipeline_init ::
    "'w freertos \<Rightarrow> bool \<Rightarrow> 'w i2c_bus \<Rightarrow> (NvsStorage \<Rightarrow> 'w IStorage) \<Rightarrow> (Sht, 'w) slot
       \<Rightarrow> time \<Rightarrow> ShtCommand \<Rightarrow> ShtCommand \<Rightarrow> 'w pipelines \<times> 'w \<Rightarrow> ('w pipelines \<times> 'w) checked" where
  "Sht41Pipeline_init rtos bit10 bus storage_of sensor read_interval measure_cmd heating_cmd pw =
     (case pw of (p, w) \<Rightarrow>
       (case StorageBuilder_make ''sensor_sht41'' (pl_storage_ids p) of
          (None, ids) \<Rightarrow> Inl AssertFailed
        | (Some nvs, ids) \<Rightarrow>
            (case I2cMasterStore_add bit10 bus AddressBit_7 0x44 FastSpeed w of
               Inl f \<Rightarrow> Inl f
             | Inr (None, w1) \<Rightarrow> Inl AssertFailed
             | Inr (Some tr, w1) \<Rightarrow>
                 (case Sht_init rtos tr (storage_of nvs)
                     (\<lparr>sht_send_wait_interval = pdMS_TO_TICKS rtos 20, sht_bus_wait_interval = second * 5,
                       sht_measure_command = measure_cmd, sht_heating_command = heating_cmd\<rparr>) w1 of
                    Inl f \<Rightarrow> Inl f
                  | Inr (self, w2) \<Rightarrow>
                      map_sum id (\<lambda>p'. (p', sl_put sensor self w2))
                        (schedule_task (at_slot sensor (Sht_run rtos tr)) ''sht41_task'' read_interval
                          (p\<lparr>pl_storage_ids := ids\<rparr>))))))"

section \<open>The counters of the system\<close>

text \<open>A counter whose value is read at the time of the call, and the interface of a persistent one.\<close>

definition clock_counter :: "('w \<Rightarrow> time) \<Rightarrow> TimeCounter \<Rightarrow> 'w ICounter" where
  "clock_counter clock c = \<lparr>ct_id = bc_id c, ct_get = (\<lambda>w. TimeCounter_get c (clock w))\<rparr>"

definition counter_of ::
    "('w BasicPersistentCounter \<Rightarrow> 'w \<Rightarrow> u64) \<Rightarrow> 'w BasicPersistentCounter \<Rightarrow> 'w ICounter" where
  "counter_of get pc = \<lparr>ct_id = BasicPersistentCounter_id pc, ct_get = get pc\<rparr>"

definition add_counter :: "'w ICounter \<Rightarrow> 'w pipelines \<Rightarrow> 'w pipelines" where
  "add_counter c p = p\<lparr>pl_counters := BasicCounterHolder_add c (pl_counters p)\<rparr>"

definition SystemCounterPipeline_init ::
    "('w \<Rightarrow> time) \<Rightarrow> 'w IStorage \<Rightarrow> 'w pipelines \<times> 'w \<Rightarrow> ('w pipelines \<times> 'w) checked" where
  "SystemCounterPipeline_init clock st pw =
     (case pw of (p, w) \<Rightarrow>
       (case TimeCounter_init ''c_sys_uptime'' second of
          Inl f \<Rightarrow> Inl f
        | Inr uptime \<Rightarrow>
            (case MemPersistentCounter_init st (clock_counter clock uptime) w of
               (up, w1) \<Rightarrow>
                 let p1 = add_counter (counter_of MemPersistentCounter_get up)
                       (add_reboot_handler (BasicPersistentCounter_handle_reboot MemPersistentCounter_get st up) p)
                 in (case TimeCounter_init ''c_sys_lifetime'' second of
                       Inl f \<Rightarrow> Inl f
                     | Inr lifetime \<Rightarrow>
                         (case AccPersistentCounter_init st (clock_counter clock lifetime) w1 of
                            (life, w2) \<Rightarrow>
                              map_sum id
                                (\<lambda>p2. (add_counter (counter_of AccPersistentCounter_get life)
                                   (add_reboot_handler
                                     (BasicPersistentCounter_handle_reboot AccPersistentCounter_get st life) p2), w2))
                                (schedule_task (BasicPersistentCounter_run AccPersistentCounter_get st life)
                                  ''lifetime_counter_task'' hour p1))))))"

section \<open>The system\<close>

text \<open>
  The functions of the system's asynchronous scheduler are the reboot task and those the other parts add;
  the scheduler and its futures are an object of the device.
\<close>

definition AsyncFuncScheduler_task ::
    "('f AsyncFuncScheduler \<times> futures, 'w) slot \<Rightarrow> ('f \<Rightarrow> 'w step) \<Rightarrow> 'w ITask" where
  "AsyncFuncScheduler_task slot exec w =
     (case AsyncFuncScheduler_run
             (\<lambda>f (s, h, w). case exec f w of (code, w') \<Rightarrow> (code, (s, h, w')))
             (fst (sl_get slot w), snd (sl_get slot w), w) of
        (code, (s, h, w')) \<Rightarrow> (code, sl_put slot (s, h) w'))"

definition pipelines_init :: "'w PeriodicTaskScheduler \<Rightarrow> 'w pipelines" where
  "pipelines_init s =
     \<lparr>pl_storage_ids = {}, pl_adcs = [], pl_reboot_handlers = [], pl_counters = [], pl_task_scheduler = s\<rparr>"

definition SystemPipeline_init ::
    "u32 \<Rightarrow> ('f AsyncFuncScheduler \<times> futures, 'w) slot \<Rightarrow> ('f \<Rightarrow> 'w step) \<Rightarrow> 'w
       \<Rightarrow> ('w pipelines \<times> 'w) checked" where
  "SystemPipeline_init delay slot exec w =
     (if delay = 0 then Inl AssertFailed
      else
        (case PeriodicTaskScheduler_init 16 of
           Inl f \<Rightarrow> Inl f
         | Inr sch \<Rightarrow>
             (case AsyncFuncScheduler_init 16 of
                Inl f \<Rightarrow> Inl f
              | Inr funcs \<Rightarrow>
                  map_sum id (\<lambda>p. (p, sl_put slot (funcs, []) w))
                    (schedule_task (AsyncFuncScheduler_task slot exec) ''system_async_func_scheduler'' second
                      (pipelines_init sch)))))"

text \<open>The reboot task: half a second of delay, the handlers registered so far, the restart.\<close>

definition SystemPipeline_reboot_task ::
    "'w freertos \<Rightarrow> ('w \<Rightarrow> 'w) \<Rightarrow> 'w IRebootHandler list \<Rightarrow> 'w ITask" where
  "SystemPipeline_reboot_task rtos esp_restart handlers =
     RebootTask_run (DelayRebooter_reboot (\<lambda>d. vTaskDelay rtos (unat d)) (of_nat (pdMS_TO_TICKS rtos 500))
       (DefaultRebooter_reboot esp_restart (FanoutRebootHandler_handle_reboot handlers)))"

text \<open>The loop of the main task; it returns only when an assertion fails.\<close>

partial_function (option) SystemPipeline_loop ::
    "('w PeriodicTaskScheduler \<times> 'w) step \<Rightarrow> 'w PeriodicTaskScheduler \<times> 'w \<Rightarrow> fault option" where
  "SystemPipeline_loop run sw =
     (case run sw of (code, sw') \<Rightarrow> if code \<noteq> OK then Some AssertFailed else SystemPipeline_loop run sw')"

definition SystemPipeline_start ::
    "('w \<Rightarrow> time) \<Rightarrow> u32 \<Rightarrow> (u32 \<Rightarrow> 'w \<Rightarrow> 'w) \<Rightarrow> 'w PeriodicTaskScheduler \<times> 'w \<Rightarrow> fault option" where
  "SystemPipeline_start clock delay task_delay sw =
     (case PeriodicTaskScheduler_start (fst sw) of
        (code, s) \<Rightarrow>
          if code \<noteq> OK then Some AssertFailed
          else SystemPipeline_loop
            (PeriodicTaskScheduler_run clock (ConstantDelayEstimator_init delay) task_delay) (s, snd sw))"

section \<open>Registration\<close>

lemma map_sum_id_eq_Inr: "map_sum id g x = Inr y \<longleftrightarrow> (\<exists>z. x = Inr z \<and> y = g z)"
  by (cases x) auto

lemma schedule_task_Inl: "schedule_task task k interval p = Inl f \<Longrightarrow> f = AssertFailed"
  by (auto simp: schedule_task_def PeriodicTaskScheduler_add_def PTNode_init_def RateLimiter_init_def
      split: if_splits sum.splits prod.splits)

lemma schedule_task_Inr:
  assumes "schedule_task task k interval p = Inr p'"
  shows "\<exists>node. ptn_task node = task \<and> ptn_id node = k
    \<and> pts_nodes (pl_task_scheduler p') = pts_nodes (pl_task_scheduler p) @ [node]
    \<and> pl_storage_ids p' = pl_storage_ids p \<and> pl_reboot_handlers p' = pl_reboot_handlers p
    \<and> pl_adcs p' = pl_adcs p \<and> pl_counters p' = pl_counters p"
  using assms
  by (auto simp: schedule_task_def PeriodicTaskScheduler_add_def PTNode_init_def
      split: if_splits sum.splits prod.splits)

text \<open>A channel is configured once, and the converter of a channel reads that channel.\<close>

lemma DefaultStore_add_channels:
  assumes "distinct (map fst adcs)" and "DefaultStore_add api channel (adcs, w) = (r, adcs', w')"
  shows "distinct (map fst adcs') \<and> (case r of
      None \<Rightarrow> adcs' = adcs
    | Some adc \<Rightarrow> adc = OneshotAdc api channel \<and> channel \<notin> fst ` set adcs \<and> adcs' = adcs @ [(channel, adc)])"
  using assms by (auto simp: DefaultStore_add_def Let_def split: if_splits prod.splits)

text \<open>The reset of the bus is sent with a timeout of five seconds, in milliseconds.\<close>

lemma I2cMasterStorePipeline_reset_sends:
  "I2cMasterStorePipeline_reset (I2cMasterTransceiver drv) w
     = (case i2c_master_transmit drv [0x06] 5000 w of (err, w') \<Rightarrow> (i2c_err_to_code err, w'))"
  by (simp add: I2cMasterStorePipeline_reset_def I2cMasterTransceiver_def I2cMasterTransceiver_send_def
      second_def millisecond_def microsecond_def signed_divide_int_def)

section \<open>Two soil sensors\<close>

lemma schedule_task_ids:
  "map_sum id g (schedule_task task k interval p) = Inr y \<Longrightarrow>
    \<exists>p'. y = g p' \<and> pl_storage_ids p' = pl_storage_ids p"
  by (auto simp: schedule_task_def split: sum.splits prod.splits if_splits)

lemma FsmBlock_init_returns:
  "resolution \<noteq> 0 \<Longrightarrow> \<exists>b w'. FsmBlock_init st resolution w = Inr (b, w')"
  by (cases "FsmBlock_init st resolution w") (auto simp: FsmBlock_init_def)

lemma FsmBlockPipeline_init_ids:
  assumes "FsmBlockPipeline_init clock storage_of block k params (p, w) = Inr (st, p', w')"
  shows "k @ ''_nvs'' \<in> pl_storage_ids p'"
proof -
  have valid: "\<not> (fp_state_save_interval params = 0 \<or> fp_state_interval_resolution params = 0)"
    using assms by (auto simp: FsmBlockPipeline_init_def)
  have new: "k @ ''_nvs'' \<notin> pl_storage_ids p"
    using assms valid by (auto simp: FsmBlockPipeline_init_def StorageBuilder_make_def)
  let ?st = "storage_of (NvsStorage_init (k @ ''_nvs''))"
  obtain b w1 where "FsmBlock_init ?st (fp_state_interval_resolution params) w = Inr (b, w1)"
    using valid FsmBlock_init_returns [of "fp_state_interval_resolution params" ?st w] by blast
  with assms valid new have "map_sum id (\<lambda>p2. (?st, p2, sl_put block b w1))
      (schedule_task (at_slot block (FsmBlock_run ?st)) (k @ ''_block'') (fp_state_save_interval params)
        (add_reboot_handler (\<lambda>w. snd (at_slot block (\<lambda>bw. (OK, FsmBlock_handle_reboot clock ?st bw)) w))
          (p\<lparr>pl_storage_ids := insert (k @ ''_nvs'') (pl_storage_ids p)\<rparr>))) = Inr (st, p', w')"
    by (simp add: FsmBlockPipeline_init_def StorageBuilder_make_def Let_def)
  from schedule_task_ids [OF this] show ?thesis by (auto simp: add_reboot_handler_def)
qed

lemma FsmBlockPipeline_init_taken:
  "k @ ''_nvs'' \<in> pl_storage_ids p \<Longrightarrow>
    FsmBlockPipeline_init clock storage_of block k params (p, w) = Inl AssertFailed"
  by (simp add: FsmBlockPipeline_init_def StorageBuilder_make_def)

lemma soil_pipeline_taken:
  assumes "''soil_fsm_nvs'' \<in> pl_storage_ids p"
  shows "soil_pipeline_init wrap panic clock storage_of api sensor block k params (p, w) = Inl AssertFailed"
proof (cases "add_adc api (ap_adc_channel params) (p, w)")
  case (Inl f)
  then show ?thesis by (auto simp: soil_pipeline_init_def add_adc_def split: prod.splits option.splits)
next
  case (Inr apw)
  then obtain adc p1 w1 where apw: "apw = (adc, p1, w1)" "pl_storage_ids p1 = pl_storage_ids p"
    by (auto simp: add_adc_def split: prod.splits option.splits)
  with assms have "''soil_fsm'' @ ''_nvs'' \<in> pl_storage_ids p1" by simp
  from FsmBlockPipeline_init_taken [OF this] Inr apw(1) show ?thesis by (simp add: soil_pipeline_init_def)
qed

text \<open>
  C39. A device has at most one soil sensor: once a pipeline of a soil sensor has been created, with or without
  a relay, creating another one ends in a failed assertion, whatever its identifier, its channel and its
  parameters, because both kinds give their FSM block the same fixed identifier.
\<close>

theorem soil_pipelines_collide:
  assumes "soil_pipeline_init wrap panic clock storage_of api sensor block k params (p, w) = Inr (p1, w1)"
    and "pl_storage_ids p1 \<subseteq> pl_storage_ids p2"
  shows "AnalogSensorPipeline_init panic clock storage_of api sensor2 block2 k2 params2 (p2, w2)
      = Inl AssertFailed
    \<and> AnalogRelaySensorPipeline_init delay drv power_on_delay panic clock storage_of api sensor2 block2 k2 params2
        (p2, w2) = Inl AssertFailed"
proof -
  from assms(1) obtain adc pw1 st p3 w3 where
    "FsmBlockPipeline_init clock storage_of block ''soil_fsm'' (ap_fsm_block params) pw1 = Inr (st, p3, w3)"
    "pl_storage_ids p1 = pl_storage_ids p3"
    by (auto simp: soil_pipeline_init_def split: sum.splits dest!: schedule_task_ids)
  then have "''soil_fsm_nvs'' \<in> pl_storage_ids p1"
    using FsmBlockPipeline_init_ids [of clock storage_of block "''soil_fsm''" "ap_fsm_block params" "fst pw1"
        "snd pw1" st p3 w3] by simp
  with assms(2) have "''soil_fsm_nvs'' \<in> pl_storage_ids p2" by auto
  from soil_pipeline_taken [OF this] show ?thesis
    by (simp add: AnalogSensorPipeline_init_def AnalogRelaySensorPipeline_init_def)
qed

text \<open>A converter, and places for a sensor and a block, for the witness.\<close>

definition test_adc_api :: "'w adc_api" where
  "test_adc_api = \<lparr>adc_config_channel = (\<lambda>_ w. (True, w)), adc_oneshot_read = (\<lambda>_ w. (Some 2600, w)),
     adc_raw_to_voltage = (\<lambda>raw w. (Some raw, w))\<rparr>"

definition test_slot :: "'b \<Rightarrow> ('b, 'w) slot" where
  "test_slot b = \<lparr>sl_get = (\<lambda>_. b), sl_put = (\<lambda>_ w. w)\<rparr>"

definition soil_params :: "nat \<Rightarrow> AnalogPipelineParams" where
  "soil_params channel = \<lparr>ap_adc_channel = channel, ap_read_interval = second, ap_sensor = test_range,
     ap_fsm_block = \<lparr>fp_state_save_interval = hour, fp_state_interval_resolution = second\<rparr>\<rparr>"

definition sixteen_tasks :: "'w PeriodicTaskScheduler" where
  "sixteen_tasks = \<lparr>pts_max_count = 16, pts_task_min_interval = INT64_MAX, pts_total_ts_min = INT64_MAX,
     pts_total_ts_max = INT64_MIN, pts_nodes = []\<rparr>"

lemma sixteen_tasks: "PeriodicTaskScheduler_init 16 = Inr sixteen_tasks"
  by (simp add: PeriodicTaskScheduler_init_def sixteen_tasks_def)

text \<open>A task with a new identifier and a valid interval is scheduled while there is room.\<close>

lemma schedule_task_ok:
  assumes "millisecond \<le> interval" and "length (pts_nodes (pl_task_scheduler p)) \<noteq> pts_max_count (pl_task_scheduler p)"
    and "\<not> list_ex (\<lambda>n. ptn_id n = k) (pts_nodes (pl_task_scheduler p))"
  shows "\<exists>p'. schedule_task task k interval p = Inr p'"
  using assms
  by (simp add: schedule_task_def PeriodicTaskScheduler_add_def PTNode_init_def RateLimiter_init_def
      millisecond_def microsecond_def)

theorem soil_pipelines_collide_witness:
  "\<exists>p1 w1. AnalogSensorPipeline_init (\<lambda>_ w. w) (\<lambda>_. 0) (\<lambda>_. TestStorage_vtable) test_adc_api (test_slot test_sensor)
      (test_slot (FsmBlock_zero second)) ''front'' (soil_params 0) (pipelines_init sixteen_tasks, test_world)
      = Inr (p1, w1)
    \<and> AnalogSensorPipeline_init (\<lambda>_ w. w) (\<lambda>_. 0) (\<lambda>_. TestStorage_vtable) test_adc_api (test_slot test_sensor)
      (test_slot (FsmBlock_zero second)) ''back'' (soil_params 1) (p1, w1) = Inl AssertFailed"
proof -
  let ?b = "test_slot (FsmBlock_zero second) :: (FsmBlock, TestStorage) slot"
  obtain b w1 where init: "FsmBlock_init TestStorage_vtable second test_world = Inr (b, w1)"
    using FsmBlock_init_returns [of second TestStorage_vtable test_world]
    by (auto simp: second_def millisecond_def microsecond_def)
  obtain adc adcs where adc: "add_adc test_adc_api 0 (pipelines_init sixteen_tasks, test_world)
      = Inr (adc, (pipelines_init sixteen_tasks)\<lparr>pl_adcs := adcs\<rparr>, test_world)"
    by (simp add: add_adc_def DefaultStore_add_def test_adc_api_def pipelines_init_def Let_def)
  let ?p = "add_reboot_handler (\<lambda>w. snd (at_slot ?b (\<lambda>bw. (OK, FsmBlock_handle_reboot (\<lambda>_. 0) TestStorage_vtable bw)) w))
      ((pipelines_init sixteen_tasks)\<lparr>pl_adcs := adcs, pl_storage_ids := {''soil_fsm_nvs''}\<rparr>)"
  obtain p2 where p2: "schedule_task (at_slot ?b (FsmBlock_run TestStorage_vtable)) ''soil_fsm_block'' hour ?p = Inr p2"
    using schedule_task_ok [of hour ?p "''soil_fsm_block''"]
    by (auto simp: pipelines_init_def sixteen_tasks_def add_reboot_handler_def hour_def minute_def second_def
        millisecond_def microsecond_def)
  obtain node where node: "pts_nodes (pl_task_scheduler p2) = [node]" "ptn_id node = ''soil_fsm_block''"
    using schedule_task_Inr [OF p2]
    by (auto simp: pipelines_init_def sixteen_tasks_def add_reboot_handler_def)
  have max: "pts_max_count (pl_task_scheduler p2) = 16"
    using p2 by (auto simp: schedule_task_def PeriodicTaskScheduler_add_def PTNode_init_def RateLimiter_init_def
        pipelines_init_def sixteen_tasks_def add_reboot_handler_def split: if_splits)
  obtain self where self: "AnalogSensor_init test_range = Inr self"
    by (simp add: AnalogSensor_init_def test_range_def)
  obtain p3 where p3: "schedule_task (AnalogSensor_task (\<lambda>_ w. w) (\<lambda>_. 0) adc TestStorage_vtable
      (test_slot test_sensor) ?b) ''front_task'' second p2 = Inr p3"
    using schedule_task_ok [of second p2 "''front_task''"] node max
    by (auto simp: second_def millisecond_def microsecond_def)
  have first: "soil_pipeline_init id (\<lambda>_ w. w) (\<lambda>_. 0) (\<lambda>_. TestStorage_vtable) test_adc_api (test_slot test_sensor)
      ?b ''front'' (soil_params 0) (pipelines_init sixteen_tasks, test_world) = Inr (p3, w1)"
    using init adc p2 self p3
    by (simp add: soil_pipeline_init_def FsmBlockPipeline_init_def soil_params_def StorageBuilder_make_def
        pipelines_init_def Let_def test_slot_def hour_def minute_def second_def millisecond_def microsecond_def)
  from soil_pipelines_collide [OF first subset_refl] first show ?thesis
    by (auto simp: AnalogSensorPipeline_init_def)
qed

section \<open>Uptime and lifetime\<close>

abbreviation system_counter :: "('w \<Rightarrow> time) \<Rightarrow> string \<Rightarrow> 'w ICounter" where
  "system_counter clock k \<equiv> clock_counter clock \<lparr>bc_id = k, tc_resolution = second, tc_offset = 0\<rparr>"

abbreviation in_seconds :: "time \<Rightarrow> u64" where
  "in_seconds t \<equiv> word_of_int (t sdiv second)"

lemma system_counters:
  "TimeCounter_init ''c_sys_uptime'' second = Inr \<lparr>bc_id = ''c_sys_uptime'', tc_resolution = second, tc_offset = 0\<rparr>"
  "TimeCounter_init ''c_sys_lifetime'' second = Inr \<lparr>bc_id = ''c_sys_lifetime'', tc_resolution = second, tc_offset = 0\<rparr>"
  by (simp_all add: TimeCounter_init_def BasicCounter_init_def BasicCounter_bufsize_def second_def
      millisecond_def microsecond_def)

lemma system_counter_simps [simp]:
  "ct_id (system_counter clock k) = k"
  "ct_get (system_counter clock k) w = in_seconds (clock w)"
  by (simp_all add: clock_counter_def TimeCounter_get_def)

abbreviation system_pc :: "('w \<Rightarrow> time) \<Rightarrow> string \<Rightarrow> bytes option \<Rightarrow> 'w BasicPersistentCounter" where
  "system_pc clock k c \<equiv> \<lparr>pc_counter = system_counter clock k, pc_value = stored_value c\<rparr>"

text \<open>Saving a counter of the system, for both kinds of counters.\<close>

lemma system_counter_saved:
  assumes "nvs_laws api good blobs bound" and "good w"
    and "get = AccPersistentCounter_get \<or> get = MemPersistentCounter_get"
  shows "\<exists>w'. BasicPersistentCounter_run get (NvsStorage_vtable api self)
      \<lparr>pc_counter = system_counter clock k, pc_value = v\<rparr> w = (OK, w')
    \<and> blobs w' (nvs_ns self) = (blobs w (nvs_ns self))(k \<mapsto> u64_bytes (v + in_seconds (clock w))) \<and> good w'"
proof -
  let ?pc = "\<lparr>pc_counter = system_counter clock k, pc_value = v\<rparr>"
  have h: "nvs_healthy good w 8" using assms(2) by (simp add: nvs_healthy_def)
  from key_value_store.counter_run [OF NvsStorage_key_value_store [OF assms(1), of self] h, of get ?pc]
  obtain w' where w': "BasicPersistentCounter_run get (NvsStorage_vtable api self) ?pc w = (OK, w')"
    "blobs w' (nvs_ns self) = (blobs w (nvs_ns self))(k \<mapsto> u64_bytes (get ?pc w))"
    "nvs_healthy good w' = nvs_healthy good w"
    by auto
  have "good w'" using w'(3) h by (simp add: nvs_healthy_def fun_eq_iff) blast
  moreover have "get ?pc w = v + in_seconds (clock w)"
    using assms(3) by (auto simp: AccPersistentCounter_get_def MemPersistentCounter_get_def)
  ultimately show ?thesis using w'(1,2) by auto
qed

lemma SystemCounterPipeline_init_eq:
  assumes "nvs_laws api good blobs bound" and "good w"
    and "counter_sized (blobs w (nvs_ns self) ''c_sys_uptime'')"
    and "counter_sized (blobs w (nvs_ns self) ''c_sys_lifetime'')"
  shows "let st = NvsStorage_vtable api self;
      up = system_pc clock ''c_sys_uptime'' (blobs w (nvs_ns self) ''c_sys_uptime'');
      life = system_pc clock ''c_sys_lifetime'' (blobs w (nvs_ns self) ''c_sys_lifetime'')
    in \<exists>w1. blobs w1 (nvs_ns self) = (blobs w (nvs_ns self))(''c_sys_uptime'' := None) \<and> good w1
    \<and> SystemCounterPipeline_init clock st (p, w) = map_sum id
        (\<lambda>p2. (add_counter (counter_of AccPersistentCounter_get life) (add_reboot_handler
           (BasicPersistentCounter_handle_reboot AccPersistentCounter_get st life) p2), w1))
        (schedule_task (BasicPersistentCounter_run AccPersistentCounter_get st life) ''lifetime_counter_task'' hour
          (add_counter (counter_of MemPersistentCounter_get up)
            (add_reboot_handler (BasicPersistentCounter_handle_reboot MemPersistentCounter_get st up) p)))"
proof -
  let ?st = "NvsStorage_vtable api self"
  let ?up = "system_pc clock ''c_sys_uptime'' (blobs w (nvs_ns self) ''c_sys_uptime'')"
  let ?life = "system_pc clock ''c_sys_lifetime'' (blobs w (nvs_ns self) ''c_sys_lifetime'')"
  note kv = NvsStorage_key_value_store [OF assms(1), of self]
  have h: "nvs_healthy good w 8" using assms(2) by (simp add: nvs_healthy_def)
  from key_value_store.mem_counter_init [OF kv h, of "system_counter clock ''c_sys_uptime''"] assms(3)
  obtain w1 where w1: "MemPersistentCounter_init ?st (system_counter clock ''c_sys_uptime'') w = (?up, w1)"
    "blobs w1 (nvs_ns self) = (blobs w (nvs_ns self))(''c_sys_uptime'' := None)"
    "nvs_healthy good w1 = nvs_healthy good w"
    by auto
  have h1: "nvs_healthy good w1 8" using w1(3) h by simp
  from key_value_store.counter_init [OF kv h1, of "system_counter clock ''c_sys_lifetime''"] assms(4) w1(2)
  obtain w2 where w2: "AccPersistentCounter_init ?st (system_counter clock ''c_sys_lifetime'') w1 = (?life, w2)"
    "blobs w2 (nvs_ns self) = blobs w1 (nvs_ns self)" "nvs_healthy good w2 = nvs_healthy good w1"
    by (auto simp: AccPersistentCounter_init_def)
  have "good w2" using w2(3) h1 by (simp add: nvs_healthy_def fun_eq_iff) blast
  with w1 w2 show ?thesis
    unfolding Let_def by (intro exI [of _ w2]) (simp add: SystemCounterPipeline_init_def system_counters Let_def)
qed

text \<open>What the pipeline has registered: the two handlers of a reboot, and the task of the lifetime.\<close>

lemma SystemCounterPipeline_init_registers:
  assumes "nvs_laws api good blobs bound" and "good w"
    and "counter_sized (blobs w (nvs_ns self) ''c_sys_uptime'')"
    and "counter_sized (blobs w (nvs_ns self) ''c_sys_lifetime'')"
    and "SystemCounterPipeline_init clock (NvsStorage_vtable api self) (p, w) = Inr (p', w1)"
    and "pl_reboot_handlers p = []"
  defines "up \<equiv> system_pc clock ''c_sys_uptime'' (blobs w (nvs_ns self) ''c_sys_uptime'')"
    and "life \<equiv> system_pc clock ''c_sys_lifetime'' (blobs w (nvs_ns self) ''c_sys_lifetime'')"
    and "st \<equiv> NvsStorage_vtable api self"
  shows "blobs w1 (nvs_ns self) = (blobs w (nvs_ns self))(''c_sys_uptime'' := None)"
    and "pl_reboot_handlers p' = [BasicPersistentCounter_handle_reboot MemPersistentCounter_get st up,
      BasicPersistentCounter_handle_reboot AccPersistentCounter_get st life]"
    and "ptn_task (List.last (pts_nodes (pl_task_scheduler p'))) = BasicPersistentCounter_run AccPersistentCounter_get st life"
proof -
  let ?st = "NvsStorage_vtable api self"
  let ?up = "system_pc clock ''c_sys_uptime'' (blobs w (nvs_ns self) ''c_sys_uptime'')"
  let ?life = "system_pc clock ''c_sys_lifetime'' (blobs w (nvs_ns self) ''c_sys_lifetime'')"
  let ?p1 = "add_counter (counter_of MemPersistentCounter_get ?up)
    (add_reboot_handler (BasicPersistentCounter_handle_reboot MemPersistentCounter_get ?st ?up) p)"
  let ?done = "\<lambda>p2. add_counter (counter_of AccPersistentCounter_get ?life) (add_reboot_handler
      (BasicPersistentCounter_handle_reboot AccPersistentCounter_get ?st ?life) p2)"
  obtain w1' where w1': "blobs w1' (nvs_ns self) = (blobs w (nvs_ns self))(''c_sys_uptime'' := None)"
    and "SystemCounterPipeline_init clock ?st (p, w) = map_sum id (\<lambda>p2. (?done p2, w1'))
      (schedule_task (BasicPersistentCounter_run AccPersistentCounter_get ?st ?life)
        ''lifetime_counter_task'' hour ?p1)"
    using SystemCounterPipeline_init_eq [of api good blobs bound w self clock p, OF assms(1-4)]
    unfolding Let_def by blast
  with assms(5) have "map_sum id (\<lambda>p2. (?done p2, w1')) (schedule_task
      (BasicPersistentCounter_run AccPersistentCounter_get ?st ?life) ''lifetime_counter_task'' hour ?p1)
      = Inr (p', w1)" by simp
  then obtain p2 where p2: "schedule_task (BasicPersistentCounter_run AccPersistentCounter_get ?st ?life)
      ''lifetime_counter_task'' hour ?p1 = Inr p2" and p': "p' = ?done p2" and "w1 = w1'"
    unfolding map_sum_id_eq_Inr by blast
  with w1' show "blobs w1 (nvs_ns self) = (blobs w (nvs_ns self))(''c_sys_uptime'' := None)" by simp
  obtain node where node: "ptn_task node = BasicPersistentCounter_run AccPersistentCounter_get ?st ?life"
    "pts_nodes (pl_task_scheduler p2) = pts_nodes (pl_task_scheduler ?p1) @ [node]"
    "pl_reboot_handlers p2 = pl_reboot_handlers ?p1"
    using schedule_task_Inr [OF p2] by blast
  show "pl_reboot_handlers p' = [BasicPersistentCounter_handle_reboot MemPersistentCounter_get st up,
      BasicPersistentCounter_handle_reboot AccPersistentCounter_get st life]"
    using assms(6) node(3) p' unfolding up_def life_def st_def
    by (simp add: add_counter_def add_reboot_handler_def FanoutRebootHandler_add_def)
  show "ptn_task (List.last (pts_nodes (pl_task_scheduler p')))
      = BasicPersistentCounter_run AccPersistentCounter_get st life"
    using node(1,2) p' unfolding life_def st_def by (simp add: add_counter_def add_reboot_handler_def)
qed



section \<open>The main task\<close>

lemma SystemPipeline_loop_runs:
  assumes "\<And>sw. fst (run sw) = OK"
  shows "SystemPipeline_loop run sw = None"
proof (rule ccontr)
  let ?P = "\<lambda>(run :: ('a PeriodicTaskScheduler \<times> 'a) step) (sw :: 'a PeriodicTaskScheduler \<times> 'a) (r :: fault).
    \<exists>sw. fst (run sw) \<noteq> OK"
  assume "SystemPipeline_loop run sw \<noteq> None"
  then obtain r where r: "SystemPipeline_loop run sw = Some r" by blast
  have "?P run sw r"
  proof (rule SystemPipeline_loop.raw_induct [where P = ?P, OF _ r])
    fix rec :: "('a PeriodicTaskScheduler \<times> 'a) step \<Rightarrow> 'a PeriodicTaskScheduler \<times> 'a \<Rightarrow> fault option"
      and run :: "('a PeriodicTaskScheduler \<times> 'a) step" and sw r
    assume IH: "\<And>run sw r. rec run sw = Some r \<Longrightarrow> ?P run sw r"
      and eq: "(case run sw of (code, sw') \<Rightarrow> if code \<noteq> OK then Some AssertFailed else rec run sw') = Some r"
    obtain code sw' where run: "run sw = (code, sw')" by (cases "run sw")
    show "?P run sw r"
    proof (cases "code = OK")
      case True
      with eq run have "rec run sw' = Some r" by simp
      from IH [OF this] show ?thesis .
    next
      case False
      with run show ?thesis by (metis fst_conv)
    qed
  qed
  with assms show False by blast
qed

text \<open>
  C40. The main task never ends: whatever the tasks do and whatever status they return, no assertion of the loop
  fails and it does not return.
\<close>

theorem SystemPipeline_start_never_ends: "SystemPipeline_start clock delay task_delay sw = None"
proof -
  have "fst (PeriodicTaskScheduler_run clock (ConstantDelayEstimator_init delay) task_delay sw) = OK" for sw
    by (simp add: PeriodicTaskScheduler_run_def Let_def split: prod.splits)
  from SystemPipeline_loop_runs [OF this] show ?thesis
    by (simp add: SystemPipeline_start_def PeriodicTaskScheduler_start_def)
qed

end
