(* ===== verification/Tools.thy ===== *)
theory Tools
  imports Ds18b20Http Pipelines
begin

text \<open>
  The three firmwares of \<open>src/tools\<close> that check the devices on a bench: \<open>ds18b20-verifier\<close> and
  \<open>ds-rom-code-scanner\<close> on a 1-Wire bus, \<open>sht41-verifier\<close> on an I2C bus. They end an error with a failed
  assertion, and report with a document, or a line, on the console.
\<close>

section \<open>Asserted steps\<close>

text \<open>\<^verbatim>\<open>configASSERT(formatter.add_...(...))\<close>, one after the other.\<close>

fun run_asserted :: "('s \<Rightarrow> bool \<times> 's) list \<Rightarrow> 's \<Rightarrow> 's checked" where
  "run_asserted [] s = Inr s"
| "run_asserted (add # adds) s = (case add s of (ok, s') \<Rightarrow> if \<not> ok then Inl AssertFailed else run_asserted adds s')"

text \<open>Both tools of the 1-Wire bus have this function; an interval is converted to \<^verbatim>\<open>double\<close>.\<close>

definition format_bus_params :: "'w heap \<Rightarrow> BusParams \<Rightarrow> cJSON \<times> 'w \<Rightarrow> (cJSON \<times> 'w) checked" where
  "format_bus_params alloc params =
     run_asserted (map (\<lambda>(key, interval). add_number_cs alloc key (double_of_int interval))
       [(''reset_pulse_interval'', bp_reset_pulse_interval params),
        (''presence_pulse_interval'', bp_presence_pulse_interval params),
        (''write_slot_interval'', bp_write_slot_interval params),
        (''write_bit_interval'', bp_write_bit_interval params),
        (''write_recovery_interval'', bp_write_recovery_interval params),
        (''read_slot_interval'', bp_read_slot_interval params),
        (''read_bit_init_interval'', bp_read_bit_init_interval params),
        (''read_bit_rc_interval'', bp_read_bit_rc_interval params),
        (''read_recovery_interval'', bp_read_recovery_interval params)])"

text \<open>The object a tool starts with and its array of devices.\<close>

definition make_asserted :: "'w heap \<Rightarrow> cJSON \<Rightarrow> 'w \<Rightarrow> (cJSON \<times> 'w) checked" where
  "make_asserted alloc item w =
     (case make_item alloc item w of (None, _) \<Rightarrow> Inl AssertFailed | (Some json, w') \<Rightarrow> Inr (json, w'))"

section \<open>ds18b20-verifier\<close>

record VerifyParams =
  vp_total_attempts :: u32
  vp_delay :: nat

definition read_temperature :: "'w wire \<Rightarrow> RomCode \<Rightarrow> 'w step" where
  "read_temperature wire rc w =
     (case run_steps [RomCode_match wire rc, RomCode_match wire rc, Bus_write_byte wire ConvertT] w of
        (code, w1) \<Rightarrow>
          if code \<noteq> OK then (code, w1)
          else (case Scratchpad_read wire rc Scratchpad_init w1 of
                  (code, sp, w2) \<Rightarrow>
                    if code \<noteq> OK then (code, w2)
                    else if \<not> Scratchpad_valid sp then (InvalidState, w2)
                    else (OK, w2)))"

text \<open>The loop over the attempts that are left; a counter of type \<^verbatim>\<open>unsigned\<close> counts the failures.\<close>

fun read_attempts :: "(nat \<Rightarrow> 'w \<Rightarrow> 'w) \<Rightarrow> nat \<Rightarrow> 'w step \<Rightarrow> nat \<Rightarrow> u32 \<times> 'w \<Rightarrow> u32 \<times> 'w" where
  "read_attempts task_delay d attempt 0 fw = fw"
| "read_attempts task_delay d attempt (Suc n) fw =
     (case fw of (failed, w) \<Rightarrow>
        case attempt w of
          (code, w1) \<Rightarrow>
            read_attempts task_delay d attempt n (if code \<noteq> OK then failed + 1 else failed, task_delay d w1))"

definition read_device ::
    "'w heap \<Rightarrow> (nat \<Rightarrow> 'w \<Rightarrow> 'w) \<Rightarrow> 'w wire \<Rightarrow> VerifyParams \<Rightarrow> RomCode \<Rightarrow> cJSON \<times> 'w \<Rightarrow> (cJSON \<times> 'w) checked" where
  "read_device alloc task_delay wire params rc jw =
     (case jw of (json, w) \<Rightarrow>
        case read_attempts task_delay (vp_delay params) (read_temperature wire rc)
               (unat (vp_total_attempts params)) (0, w) of
          (failed, w1) \<Rightarrow>
            run_asserted
              [add_string_cs alloc ''serial_number'' (serial_number_to_str (rc_serial_number rc)),
               add_number_cs alloc ''total_attempts'' (double_of_int (uint (vp_total_attempts params))),
               add_number_cs alloc ''failed_attempts'' (double_of_int (uint failed))] (json, w1))"

section \<open>The loop of both tools\<close>

text \<open>
  What is done with a ROM code that was found: \<open>describe\<close> fills an object for the array \<open>devices\<close>. The result is
  the array when the search came to its end, \<open>None\<close> when it failed, which is only logged. The search need
  not end.
\<close>

definition describe_device ::
    "'w heap \<Rightarrow> (RomCode \<Rightarrow> cJSON \<times> 'w \<Rightarrow> (cJSON \<times> 'w) checked) \<Rightarrow> RomCode \<Rightarrow> cJSON \<times> 'w \<Rightarrow> (cJSON \<times> 'w) checked" where
  "describe_device alloc describe rc dw =
     (case dw of (devices, w) \<Rightarrow>
        (case make_asserted alloc (JObject []) w of
           Inl f \<Rightarrow> Inl f
         | Inr jw \<Rightarrow>
             (case describe rc jw of
                Inl f \<Rightarrow> Inl f
              | Inr (json, w') \<Rightarrow>
                  (case cJSON_AddItemToArray devices json of
                     (ok, devices') \<Rightarrow> if \<not> ok then Inl AssertFailed else Inr (devices', w')))))"

partial_function (option) scan_devices ::
    "'w wire \<Rightarrow> (RomCode \<Rightarrow> cJSON \<times> 'w \<Rightarrow> (cJSON \<times> 'w) checked) \<Rightarrow> RomCodeScanner \<Rightarrow> cJSON \<times> 'w
       \<Rightarrow> (cJSON option \<times> 'w) checked option" where
  "scan_devices wire add s dw =
     (case RomCodeScanner_scan wire RomCode_init s (snd dw) of
        Inl f \<Rightarrow> Some (Inl f)
      | Inr (code, rc, s', w1) \<Rightarrow>
          if code = NoData then Some (Inr (Some (fst dw), w1))
          else if code \<noteq> OK then Some (Inr (None, w1))
          else (case add rc (fst dw, w1) of
                  Inl f \<Rightarrow> Some (Inl f)
                | Inr dw' \<Rightarrow> scan_devices wire add s' dw'))"

text \<open>
  The report: the intervals after the array, which is complete when it is printed. \<open>None\<close> is no report.
\<close>

definition report_devices ::
    "'w heap \<Rightarrow> printer \<Rightarrow> nat \<Rightarrow> 'w wire \<Rightarrow> BusParams \<Rightarrow> (RomCode \<Rightarrow> cJSON \<times> 'w \<Rightarrow> (cJSON \<times> 'w) checked)
       \<Rightarrow> 'w \<Rightarrow> (string option \<times> 'w) checked option" where
  "report_devices alloc print buffer_size wire params describe w =
     (case make_asserted alloc (JObject []) w of
        Inl f \<Rightarrow> Some (Inl f)
      | Inr (json, w1) \<Rightarrow>
          (case make_asserted alloc (JArray []) w1 of
             Inl f \<Rightarrow> Some (Inl f)
           | Inr (devices, w2) \<Rightarrow>
               (case format_bus_params alloc params (JObject [], w2) of
                  Inl f \<Rightarrow> Some (Inl f)
                | Inr (intervals, w3) \<Rightarrow>
                    (case scan_devices wire (describe_device alloc describe) RomCodeScanner_init (devices, w3) of
                       None \<Rightarrow> None
                     | Some (Inl f) \<Rightarrow> Some (Inl f)
                     | Some (Inr (None, w4)) \<Rightarrow> Some (Inr (None, w4))
                     | Some (Inr (Some devices', w4)) \<Rightarrow>
                         (case DynamicFormatter_init buffer_size of
                            Inl f \<Rightarrow> Some (Inl f)
                          | Inr df \<Rightarrow>
                              (case DynamicFormatter_format print
                                   (JObject ((''devices'', devices')
                                     # (case intervals of JObject kvs \<Rightarrow> kvs | _ \<Rightarrow> []))) df of
                                 (code, df') \<Rightarrow>
                                   if code \<noteq> OK then Some (Inl AssertFailed)
                                   else Some (Inr (Some (df_buf df'), w4))))))))"

definition verify_bus_operations where
  "verify_bus_operations alloc task_delay print buffer_size wire verify_params intervals =
     report_devices alloc print buffer_size wire intervals (read_device alloc task_delay wire verify_params)"

section \<open>ds-rom-code-scanner\<close>

definition format_rom_code :: "'w heap \<Rightarrow> RomCode \<Rightarrow> cJSON \<times> 'w \<Rightarrow> (cJSON \<times> 'w) checked" where
  "format_rom_code alloc rc =
     run_asserted
       [add_number_cs alloc ''family_code'' (double_of_int (uint (rc_family_code rc))),
        add_string_cs alloc ''serial_number'' (serial_number_to_str (rc_serial_number rc)),
        add_number_cs alloc ''crc'' (double_of_int (uint (rc_crc rc)))]"

definition scanner_scan_rom_codes where
  "scanner_scan_rom_codes alloc print buffer_size wire intervals =
     report_devices alloc print buffer_size wire intervals (format_rom_code alloc)"

section \<open>sht41-verifier\<close>

text \<open>A failed attempt goes on at once, a successful one after the delay.\<close>

fun sht41_attempts ::
    "(nat \<Rightarrow> 'w \<Rightarrow> 'w) \<Rightarrow> nat \<Rightarrow> ('b \<times> 'w) step \<Rightarrow> nat \<Rightarrow> u32 \<times> 'b \<times> 'w \<Rightarrow> u32 \<times> 'b \<times> 'w" where
  "sht41_attempts task_delay d run 0 fsw = fsw"
| "sht41_attempts task_delay d run (Suc n) fsw =
     (case fsw of (failed, sw) \<Rightarrow>
        (case run sw of
           (code, (self, w)) \<Rightarrow>
             if code \<noteq> OK then sht41_attempts task_delay d run n (failed + 1, self, w)
             else sht41_attempts task_delay d run n (failed, self, task_delay d w)))"

text \<open>
  The firmware up to the line it logs, \<open>(total, failed)\<close>. The storage builder is new, so it has a storage for
  the identifier.
\<close>

definition sht41_verifier_main ::
    "'w freertos \<Rightarrow> bool \<Rightarrow> 'w i2c_bus \<Rightarrow> (NvsStorage \<Rightarrow> 'w IStorage) \<Rightarrow> nat \<Rightarrow> u32 \<Rightarrow> nat \<Rightarrow> 'w
       \<Rightarrow> (u32 \<times> u32 \<times> 'w) checked" where
  "sht41_verifier_main rtos bit10 bus storage_of send_wait total_attempts delay_interval w =
     (case I2cMasterStorePipeline_init bit10 bus w of
        Inl f \<Rightarrow> Inl f
      | Inr (_, w1) \<Rightarrow>
          (case I2cMasterStore_add bit10 bus AddressBit_7 0x44 FastSpeed w1 of
             Inl f \<Rightarrow> Inl f
           | Inr (None, w2) \<Rightarrow> Inl AssertFailed
           | Inr (Some tr, w2) \<Rightarrow>
               (case StorageBuilder_make ''sensor_sht41'' {} of
                  (None, _) \<Rightarrow> Inl Dangling
                | (Some nvs, _) \<Rightarrow>
                    (case Sht_init rtos tr (storage_of nvs)
                        (\<lparr>sht_send_wait_interval = pdMS_TO_TICKS rtos send_wait,
                          sht_bus_wait_interval = second * 5, sht_measure_command = MeasureHighPrecision,
                          sht_heating_command = ActivateHeater_20mW_100ms\<rparr>) w2 of
                       Inl f \<Rightarrow> Inl f
                     | Inr sw3 \<Rightarrow>
                         (case sht41_attempts (vTaskDelay rtos) (pdMS_TO_TICKS rtos (1000 * delay_interval))
                               (Sht_run rtos tr) (unat total_attempts) (0, sw3) of
                            (failed, _, w4) \<Rightarrow> Inr (total_attempts, failed, w4))))))"

section \<open>Documents\<close>

lemma run_asserted_fields:
  assumes "plenty alloc"
  shows "\<exists>w'. run_asserted (map (\<lambda>(k, v). add_item_cs alloc k v) kvs) (JObject kvs0, w) = Inr (JObject (kvs0 @ kvs), w')"
proof (induction kvs arbitrary: kvs0 w)
  case Nil
  then show ?case by simp
next
  case (Cons kv kvs)
  obtain k v where kv: "kv = (k, v)" by (cases kv)
  obtain w1 where "alloc w = (True, w1)" using assms by (metis plenty_def prod.collapse)
  with Cons.IH [of "kvs0 @ [(k, v)]" w1] kv show ?case
    by (simp add: add_item_cs_def make_item_def cJSON_AddItemToObjectCS_def)
qed

lemma make_asserted_plenty: "plenty alloc \<Longrightarrow> \<exists>w'. make_asserted alloc item w = Inr (item, w')"
  by (metis (mono_tags, lifting) make_asserted_def make_item_def plenty_def case_prod_conv option.case(2) prod.collapse)

definition bus_fields :: "BusParams \<Rightarrow> (string \<times> cJSON) list" where
  "bus_fields params = map (\<lambda>(key, interval). (key, JNumber (double_of_int interval)))
     [(''reset_pulse_interval'', bp_reset_pulse_interval params),
      (''presence_pulse_interval'', bp_presence_pulse_interval params),
      (''write_slot_interval'', bp_write_slot_interval params),
      (''write_bit_interval'', bp_write_bit_interval params),
      (''write_recovery_interval'', bp_write_recovery_interval params),
      (''read_slot_interval'', bp_read_slot_interval params),
      (''read_bit_init_interval'', bp_read_bit_init_interval params),
      (''read_bit_rc_interval'', bp_read_bit_rc_interval params),
      (''read_recovery_interval'', bp_read_recovery_interval params)]"

lemma format_bus_params_fields:
  "plenty alloc \<Longrightarrow> \<exists>w'. format_bus_params alloc params (JObject [], w) = Inr (JObject (bus_fields params), w')"
  using run_asserted_fields [of alloc "bus_fields params" "[]" w]
  by (simp add: format_bus_params_def bus_fields_def add_cs_defs del: run_asserted.simps)

lemma read_attempts_bound:
  "fst (read_attempts task_delay d attempt n (failed, w)) \<in> (\<lambda>k. failed + of_nat k) ` {..n}"
proof (induction n arbitrary: failed w)
  case 0
  then show ?case by simp
next
  case (Suc n)
  obtain code w1 where a: "attempt w = (code, w1)" by (cases "attempt w")
  let ?f = "if code \<noteq> OK then failed + 1 else failed"
  obtain k where "k \<le> n" "fst (read_attempts task_delay d attempt n (?f, task_delay d w1)) = ?f + of_nat k"
    using Suc.IH [of ?f "task_delay d w1"] by auto
  then show ?case
    using a by (intro image_eqI [of _ _ "if code \<noteq> OK then Suc k else k"]) auto
qed

lemma read_attempts_le: "fst (read_attempts task_delay d attempt (unat n) (0, w)) \<le> (n :: u32)"
proof -
  obtain k where k: "k \<le> unat n" "fst (read_attempts task_delay d attempt (unat n) (0, w)) = of_nat k"
    using read_attempts_bound [of task_delay d attempt "unat n" 0 w] by auto
  then have "k < 4294967296" using unat_u32_less [of n] by linarith
  then have "unat (of_nat k :: u32) = k" by (simp add: unat_of_nat)
  with k show ?thesis by (simp add: word_le_nat_alt)
qed

definition device_doc :: "u32 \<Rightarrow> u32 \<Rightarrow> RomCode \<Rightarrow> cJSON" where
  "device_doc attempts failed rc = JObject
     [(''serial_number'', JString (serial_number_to_str (rc_serial_number rc))),
      (''total_attempts'', JNumber (double_of_int (uint attempts))),
      (''failed_attempts'', JNumber (double_of_int (uint failed)))]"

lemma read_device_doc:
  assumes "plenty alloc"
  shows "\<exists>failed w'. read_device alloc task_delay wire params rc (JObject [], w)
      = Inr (device_doc (vp_total_attempts params) failed rc, w')
    \<and> failed \<le> vp_total_attempts params"
proof -
  obtain failed w1 where f: "read_attempts task_delay (vp_delay params) (read_temperature wire rc)
      (unat (vp_total_attempts params)) (0, w) = (failed, w1)" by (metis prod.collapse)
  then have "failed \<le> vp_total_attempts params" using read_attempts_le by (metis fst_conv)
  with f run_asserted_fields [OF assms, of
      "[(''serial_number'', JString (serial_number_to_str (rc_serial_number rc))),
        (''total_attempts'', JNumber (double_of_int (uint (vp_total_attempts params)))),
        (''failed_attempts'', JNumber (double_of_int (uint failed)))]" "[]" w1]
  show ?thesis
    by (intro exI [of _ failed]) (simp add: read_device_def add_cs_defs device_doc_def del: run_asserted.simps)
qed

section \<open>The report on two devices\<close>

text \<open>A description that succeeds while the heap lasts, with a document of which \<open>P\<close> holds.\<close>

definition describes :: "(RomCode \<Rightarrow> cJSON \<times> 'w \<Rightarrow> (cJSON \<times> 'w) checked) \<Rightarrow> (RomCode \<Rightarrow> cJSON \<Rightarrow> bool) \<Rightarrow> bool" where
  "describes describe P \<longleftrightarrow> (\<forall>rc w. \<exists>json w'. describe rc (JObject [], w) = Inr (json, w') \<and> P rc json)"

lemma scan_devices_step:
  assumes "plenty alloc" and "describes describe P" and "scans wire s rc s'"
  shows "\<exists>json w'. P rc json \<and> scan_devices wire (describe_device alloc describe) s (JArray items, w)
    = scan_devices wire (describe_device alloc describe) s' (JArray (items @ [json]), w')"
proof -
  obtain w1 where w1: "RomCodeScanner_scan wire RomCode_init s w = Inr (OK, rc, s', w1)" using assms(3) by blast
  obtain w2 where w2: "make_asserted alloc (JObject []) w1 = Inr (JObject [], w2)"
    using make_asserted_plenty [OF assms(1)] by blast
  obtain json w3 where w3: "describe rc (JObject [], w2) = Inr (json, w3)" "P rc json"
    using assms(2) unfolding describes_def by blast
  have "describe_device alloc describe rc (JArray items, w1) = Inr (JArray (items @ [json]), w3)"
    using w2 w3(1) by (simp add: describe_device_def cJSON_AddItemToArray_def)
  with w1 have "scan_devices wire (describe_device alloc describe) s (JArray items, w)
      = scan_devices wire (describe_device alloc describe) s' (JArray (items @ [json]), w3)"
    by (subst scan_devices.simps) simp
  with w3(2) show ?thesis by blast
qed

lemma scan_devices_finished:
  "sc_finished s \<Longrightarrow> scan_devices wire add s (devices, w) = Some (Inr (Some devices, w))"
  by (subst scan_devices.simps) (simp add: RomCodeScanner_scan_def)

lemma report_two_devices:
  assumes "search_laws wire srch devs" and "set devs = {a, b}" and "parts_at a b d"
    and "RomCode_valid (RomCode_of_bytes a)" and "RomCode_valid (RomCode_of_bytes b)" and "plenty alloc"
    and "describes describe P" and "0 < buffer_size"
  shows "\<exists>ja jb w'. P (RomCode_of_bytes a) ja \<and> P (RomCode_of_bytes b) jb
    \<and> report_devices alloc print buffer_size wire params describe w
      = Some (case print (JObject ((''devices'', JArray [ja, jb]) # bus_fields params)) buffer_size of
          (ok, text) \<Rightarrow> if ok then Inr (Some text, w') else Inl AssertFailed)"
proof -
  obtain s1 s2 where s: "scans wire RomCodeScanner_init (RomCode_of_bytes a) s1"
    "scans wire s1 (RomCode_of_bytes b) s2" "sc_finished s2"
    using two_scans [OF assms(1-5)] by blast
  obtain w1 where w1: "make_asserted alloc (JObject []) w = Inr (JObject [], w1)"
    using make_asserted_plenty [OF assms(6)] by blast
  obtain w2 where w2: "make_asserted alloc (JArray []) w1 = Inr (JArray [], w2)"
    using make_asserted_plenty [OF assms(6)] by blast
  obtain w3 where w3: "format_bus_params alloc params (JObject [], w2) = Inr (JObject (bus_fields params), w3)"
    using format_bus_params_fields [OF assms(6)] by blast
  let ?add = "describe_device alloc describe"
  obtain ja w4 where ja: "P (RomCode_of_bytes a) ja"
    "scan_devices wire ?add RomCodeScanner_init (JArray [], w3) = scan_devices wire ?add s1 (JArray [ja], w4)"
    using scan_devices_step [OF assms(6,7) s(1), of "[]" w3] by auto
  obtain jb w5 where jb: "P (RomCode_of_bytes b) jb"
    "scan_devices wire ?add s1 (JArray [ja], w4) = scan_devices wire ?add s2 (JArray [ja, jb], w5)"
    using scan_devices_step [OF assms(6,7) s(2), of "[ja]" w4] by auto
  have "scan_devices wire ?add RomCodeScanner_init (JArray [], w3) = Some (Inr (Some (JArray [ja, jb]), w5))"
    using ja(2) jb(2) scan_devices_finished [OF s(3), of wire ?add "JArray [ja, jb]" w5] by simp
  then have "report_devices alloc print buffer_size wire params describe w
      = Some (case print (JObject ((''devices'', JArray [ja, jb]) # bus_fields params)) buffer_size of
          (ok, text) \<Rightarrow> if ok then Inr (Some text, w5) else Inl AssertFailed)"
    using w1 w2 w3 assms(8)
    by (simp add: report_devices_def DynamicFormatter_init_def DynamicFormatter_format_def split: prod.splits)
  with ja(1) jb(1) show ?thesis by blast
qed

text \<open>
  C6. With two DS18B20 on the bus the verifier ends, while the heap lasts, with a report of both, the one with a
  zero at the first different bit first: its serial number, the configured number of attempts, and a number
  of failures that is at most that. It stops with a failed assertion when the report does not fit its buffer.
\<close>

theorem verifier_reports_two_devices:
  assumes "search_laws wire srch devs" and "set devs = {a, b}" and "parts_at a b d"
    and "RomCode_valid (RomCode_of_bytes a)" and "RomCode_valid (RomCode_of_bytes b)" and "plenty alloc"
    and "0 < buffer_size"
  shows "\<exists>fa fb w'. fa \<le> vp_total_attempts params \<and> fb \<le> vp_total_attempts params
    \<and> verify_bus_operations alloc task_delay print buffer_size wire params intervals w
      = Some (case print (JObject ((''devices'', JArray
            [device_doc (vp_total_attempts params) fa (RomCode_of_bytes a),
             device_doc (vp_total_attempts params) fb (RomCode_of_bytes b)]) # bus_fields intervals)) buffer_size of
          (ok, text) \<Rightarrow> if ok then Inr (Some text, w') else Inl AssertFailed)"
proof -
  have "describes (read_device alloc task_delay wire params)
      (\<lambda>rc json. \<exists>failed \<le> vp_total_attempts params. json = device_doc (vp_total_attempts params) failed rc)"
    unfolding describes_def using read_device_doc [OF assms(6)] by metis
  from report_two_devices [OF assms(1-6) this assms(7), of print intervals w]
  show ?thesis unfolding verify_bus_operations_def by blast
qed

theorem verifier_reports_two_devices_witness:
  "\<exists>w'. verify_bus_operations (\<lambda>w. (True, w)) (\<lambda>_ w. w)
      (\<lambda>json n. (True, case json of JObject kvs \<Rightarrow> fst (hd kvs) | _ \<Rightarrow> [])) 1024 (search_sim [rom_b, rom_a])
      \<lparr>vp_total_attempts = 3, vp_delay = 100\<rparr> DsNode_bus_params (0, None) = Some (Inr (Some ''devices'', w'))"
  using verifier_reports_two_devices [OF search_sim_laws _ parts_ab roms_valid plenty_always, of
      "[rom_b, rom_a]" 1024 "\<lparr>vp_total_attempts = 3, vp_delay = 100\<rparr>" "\<lambda>_ w. w"
      "\<lambda>json n. (True, case json of JObject kvs \<Rightarrow> fst (hd kvs) | _ \<Rightarrow> [])" DsNode_bus_params "(0, None)"]
  by (simp add: insert_commute)

section \<open>The pace of sht41-verifier\<close>

text \<open>
  A sensor that does not answer is asked again at once: the delays are those of the successful attempts.
\<close>

lemma sht41_attempts_fail_fast:
  assumes "\<And>sw. run sw = (code, (fst sw, g (snd sw)))" and "code \<noteq> OK"
  shows "sht41_attempts task_delay d run n (failed, self, w) = (failed + of_nat n, self, (g ^^ n) w)"
  using assms by (induction n arbitrary: failed w) (simp_all add: funpow_swap1)

end
