(* ===== verification/Firmware.thy ===== *)
theory Firmware
  imports Tools Bme280
begin

text \<open>
  The rest of what a firmware is put together from: the flash (\<open>ocs_storage/flash_initializer.cpp\<close>), the SPI bus (\<open>components/ocs_io/spi\<close>) and the pipeline of
  the sensor on it, the pipeline of a DS18B20, the documents of a device and their console tasks
  (\<open>components/ocs_pipeline/jsonfmt\<close>: data_pipeline.cpp, console_pipeline.cpp), the access point with its
  formatter, and the HTTP API (\<open>components/ocs_pipeline/httpserver\<close>: http_pipeline.cpp, time_pipeline.cpp and the
  constructors of the handlers).
\<close>

section \<open>Flash\<close>

datatype nvs_flash_err = NvsFlashOk | ESP_ERR_NVS_NO_FREE_PAGES | ESP_ERR_NVS_NEW_VERSION_FOUND | NvsFlashOther nat

text \<open>The partition is erased when it cannot be used as it is, and only then.\<close>

definition FlashInitializer_init :: "('w \<Rightarrow> nvs_flash_err \<times> 'w) \<Rightarrow> ('w \<Rightarrow> bool \<times> 'w) \<Rightarrow> 'w \<Rightarrow> 'w checked" where
  "FlashInitializer_init nvs_flash_init nvs_flash_erase w =
     (case nvs_flash_init w of
        (ret, w1) \<Rightarrow>
          if ret = ESP_ERR_NVS_NO_FREE_PAGES \<or> ret = ESP_ERR_NVS_NEW_VERSION_FOUND then
            (case nvs_flash_erase w1 of
               (ok, w2) \<Rightarrow>
                 if \<not> ok then Inl AssertFailed
                 else (case nvs_flash_init w2 of
                         (ret', w3) \<Rightarrow> if ret' \<noteq> NvsFlashOk then Inl AssertFailed else Inr w3))
          else if ret \<noteq> NvsFlashOk then Inl AssertFailed
          else Inr w1)"

section \<open>SPI bus\<close>

text \<open>
  A transaction of the ESP-IDF: lengths in bits, of type \<^verbatim>\<open>size_t\<close>; a null receive buffer is \<open>None\<close>. The
  driver fills the buffer.
\<close>

record spi_transaction =
  tx_buffer :: bytes
  tx_length :: u32
  rx_buffer :: "bytes option"
  rx_length :: u32

type_synonym 'w spi_driver = "spi_transaction \<Rightarrow> 'w \<Rightarrow> bool \<times> bytes option \<times> 'w"

record spi_bus_config =
  sb_mosi_io_num :: int
  sb_miso_io_num :: int
  sb_sclk_io_num :: int
  sb_quadwp_io_num :: int
  sb_quadhd_io_num :: int
  sb_max_transfer_sz :: int

record spi_interface_config =
  sc_clock_speed_hz :: int
  sc_spics_io_num :: int
  sc_queue_size :: int
  sc_mode :: u8

record 'w spi_api =
  spi_bus_initialize :: "u8 \<Rightarrow> spi_bus_config \<Rightarrow> 'w \<Rightarrow> bool \<times> 'w"
  spi_bus_add_device :: "u8 \<Rightarrow> spi_interface_config \<Rightarrow> 'w \<Rightarrow> 'w spi_driver option \<times> 'w"

definition SpiMasterTransceiver_transceive :: "'w spi_driver \<Rightarrow> 'w SpiBus" where
  "SpiMasterTransceiver_transceive drv send_buf recv_buf w =
     (case drv \<lparr>tx_buffer = send_buf, tx_length = word_of_nat (length send_buf) * 8, rx_buffer = recv_buf,
                rx_length = word_of_nat (case recv_buf of None \<Rightarrow> 0 | Some buf \<Rightarrow> length buf) * 8\<rparr> w of
        (ok, recv_buf', w') \<Rightarrow> (if \<not> ok then Error else OK, recv_buf', w'))"

record SpiMasterStoreParams =
  sm_mosi :: int
  sm_miso :: int
  sm_sclk :: int
  sm_max_transfer_size :: int
  sm_host_id :: u8

definition SpiMasterStore_init :: "'w spi_api \<Rightarrow> SpiMasterStoreParams \<Rightarrow> 'w \<Rightarrow> 'w checked" where
  "SpiMasterStore_init api params w =
     (if sm_max_transfer_size params = 0 then Inl AssertFailed
      else case spi_bus_initialize api (sm_host_id params)
          \<lparr>sb_mosi_io_num = sm_mosi params, sb_miso_io_num = sm_miso params, sb_sclk_io_num = sm_sclk params,
           sb_quadwp_io_num = - 1, sb_quadhd_io_num = - 1, sb_max_transfer_sz = sm_max_transfer_size params\<rparr> w of
        (ok, w') \<Rightarrow> if \<not> ok then Inl AssertFailed else Inr w')"

definition SpiMasterStore_add ::
    "'w spi_api \<Rightarrow> SpiMasterStoreParams \<Rightarrow> int \<Rightarrow> u8 \<Rightarrow> int \<Rightarrow> 'w \<Rightarrow> ('w SpiBus option \<times> 'w) checked" where
  "SpiMasterStore_add api params cs mode speed w =
     (if cs = - 1 \<or> \<not> 0 < speed then Inl AssertFailed
      else case spi_bus_add_device api (sm_host_id params)
          \<lparr>sc_clock_speed_hz = speed, sc_spics_io_num = cs, sc_queue_size = 1, sc_mode = mode\<rparr> w of
        (None, w1) \<Rightarrow> Inr (None, w1)
      | (Some drv, w1) \<Rightarrow> Inr (Some (SpiMasterTransceiver_transceive drv), w1))"

section \<open>Sensor pipelines\<close>

record BmePipelineParams =
  bpp_read_interval :: time
  bpp_cs_gpio :: int
  bpp_sensor :: BmeParams

text \<open>The task of the sensor; \<open>hang\<close> is for a measurement that never ends.\<close>

definition Bme_task ::
    "('w \<Rightarrow> 'w) \<Rightarrow> (nat \<Rightarrow> 'w \<Rightarrow> 'w) \<Rightarrow> 'w RegisterTransceiver \<Rightarrow> nat \<Rightarrow> (Bme, 'w) slot \<Rightarrow> 'w ITask" where
  "Bme_task hang task_delay tr interval sensor w =
     (case Bme_run task_delay tr interval (sl_get sensor w, w) of
        None \<Rightarrow> (Error, hang w)
      | Some (code, self, w') \<Rightarrow> (code, sl_put sensor self w'))"

text \<open>The constructor need not end either: that of the sensor takes a measurement.\<close>

definition SpiSensorPipeline_init ::
    "'w spi_api \<Rightarrow> SpiMasterStoreParams \<Rightarrow> ('w \<Rightarrow> 'w) \<Rightarrow> (nat \<Rightarrow> 'w \<Rightarrow> 'w) \<Rightarrow> nat \<Rightarrow> nat \<Rightarrow> (Bme, 'w) slot
       \<Rightarrow> BmePipelineParams \<Rightarrow> 'w pipelines \<times> 'w \<Rightarrow> ('w pipelines \<times> 'w) checked option" where
  "SpiSensorPipeline_init api store hang task_delay reset_interval interval sensor params pw =
     (case pw of (p, w) \<Rightarrow>
        if bpp_read_interval params = 0 then Some (Inl AssertFailed)
        else
          (case SpiMasterStore_add api store (bpp_cs_gpio params) 0 (10 * 1000 * 1000) w of
             Inl f \<Rightarrow> Some (Inl f)
           | Inr (None, w1) \<Rightarrow> Some (Inl AssertFailed)
           | Inr (Some spi, w1) \<Rightarrow>
               (case Bme_init task_delay (SpiTransceiver spi) reset_interval interval (bpp_sensor params) w1 of
                  None \<Rightarrow> None
                | Some (self, w2) \<Rightarrow>
                    Some (map_sum id (\<lambda>p'. (p', sl_put sensor self w2))
                      (schedule_task (Bme_task hang task_delay (SpiTransceiver spi) interval sensor) ''bme280_task''
                        (bpp_read_interval params) p)))))"

text \<open>
  The pipeline of a DS18B20. The node of the store and the task share the sensor, so the task runs the sensor
  \<open>k\<close> of the node of its GPIO; there is always one after the registration.
\<close>

definition run_sensor :: "string \<Rightarrow> int \<Rightarrow> 'w DsStore \<times> 'w \<Rightarrow> status_code \<times> 'w DsStore \<times> 'w" where
  "run_sensor k gpio sw =
     (case DsStore_get_node gpio (fst sw) of
        None \<Rightarrow> (Error, sw)
      | Some node \<Rightarrow>
          (case get_sensor k (dn_sensors node) of
             None \<Rightarrow> (Error, sw)
           | Some i \<Rightarrow>
               (case Sensor_run (dn_sensors node ! i, snd sw) of
                  (code, (sensor, w')) \<Rightarrow>
                    (code, (update_node gpio (node\<lparr>dn_sensors := (dn_sensors node)[i := sensor]\<rparr>) (fst sw), w')))))"

text \<open>\<open>place\<close> is where the store and its world are in the device.\<close>

definition DsSensorPipeline_task ::
    "('v \<Rightarrow> 'v) \<Rightarrow> ('v \<Rightarrow> bool \<times> 'v) \<Rightarrow> ('v \<Rightarrow> 'v) \<Rightarrow> ('w DsStore \<times> 'w, 'v) slot \<Rightarrow> string \<Rightarrow> int \<Rightarrow> 'v ITask" where
  "DsSensorPipeline_task suspend_all resume_all yield_ctx place k gpio =
     OperationGuardTask_run suspend_all resume_all yield_ctx
       (\<lambda>v. case run_sensor k gpio (sl_get place v) of (code, sw) \<Rightarrow> (code, sl_put place sw v))"

definition DsSensorPipeline_init ::
    "('v \<Rightarrow> 'v) \<Rightarrow> ('v \<Rightarrow> bool \<times> 'v) \<Rightarrow> ('v \<Rightarrow> 'v) \<Rightarrow> ('w DsStore \<times> 'w, 'v) slot \<Rightarrow> (int \<Rightarrow> Bus \<Rightarrow> 'w wire)
       \<Rightarrow> 'w IStorage \<Rightarrow> string \<Rightarrow> time \<Rightarrow> int \<Rightarrow> 'v pipelines \<times> 'v \<Rightarrow> ('v pipelines \<times> 'v) checked" where
  "DsSensorPipeline_init suspend_all resume_all yield_ctx place wire_of st k read_interval data_pin pv =
     (case pv of (p, v) \<Rightarrow>
        (case DsStore_add wire_of st (Sensor_init k) data_pin (sl_get place v) of
           Inl f \<Rightarrow> Inl f
         | Inr (code, sw) \<Rightarrow>
             if code \<noteq> OK then Inl AssertFailed
             else map_sum id (\<lambda>p'. (p', sl_put place sw v))
               (schedule_task (DsSensorPipeline_task suspend_all resume_all yield_ctx place k data_pin)
                 (k @ ''_task'') read_interval p)))"

section \<open>Serial numbers\<close>

text \<open>The text of the serial number of a SHT41: \<^verbatim>\<open>snprintf\<close> has to print exactly the length of the buffer.\<close>

definition Sht_serial_number_to_str :: "bytes \<Rightarrow> string checked" where
  "Sht_serial_number_to_str sn =
     (let text = hex2 (sn ! 0) @ '':'' @ hex2 (sn ! 1) @ '':'' @ hex2 (sn ! 2) @ '':'' @ hex2 (sn ! 3)
      in if length text \<noteq> length ''AA:BB:CC:DD'' then Inl AssertFailed else Inr text)"

lemma Sht_serial_number_to_str_fits: "\<exists>t. Sht_serial_number_to_str sn = Inr t \<and> length t = 11"
  by (simp add: Sht_serial_number_to_str_def hex2_def)

section \<open>Documents\<close>

definition FuncFormatter_format :: "(cJSON \<times> 'w) step \<Rightarrow> 'w IFormatter" where
  "FuncFormatter_format func jw = func jw"

text \<open>
  A formatter reads its values when it is called. The fan-outs are shared by reference: a handler or a task
  that refers to one uses the formatters it has then.
\<close>

definition reading :: "('w \<Rightarrow> 'a) \<Rightarrow> ('a \<Rightarrow> 'w IFormatter) \<Rightarrow> 'w IFormatter" where
  "reading get f jw = f (get (snd jw)) jw"

record 'w documents =
  doc_telemetry :: "'w IFormatter list"
  doc_registration :: "'w IFormatter list"

text \<open>
  \<open>values\<close> is what the ESP-IDF says of the system, \<open>counters\<close> are those of the counter holder at a call: the two of
  the system, and those that other parts add.
\<close>

definition DataPipeline_init ::
    "'w heap \<Rightarrow> ('w \<Rightarrow> system_values) \<Rightarrow> 'w ICounter list \<Rightarrow> iteration \<Rightarrow> string \<Rightarrow> DeviceInfo \<Rightarrow> ('w \<Rightarrow> time)
       \<Rightarrow> (NvsStorage \<Rightarrow> 'w IStorage) \<Rightarrow> 'w pipelines \<times> 'w \<Rightarrow> ('w documents \<times> 'w pipelines \<times> 'w) checked" where
  "DataPipeline_init alloc values counters order idf_version info clock storage_of pw =
     (case pw of (p, w) \<Rightarrow>
        (case StorageBuilder_make ''system_counter'' (pl_storage_ids p) of
           (None, ids) \<Rightarrow> Inl AssertFailed
         | (Some nvs, ids) \<Rightarrow>
             map_sum id
               (\<lambda>pw'. (\<lparr>doc_telemetry = FanoutFormatter_add (reading id (CounterFormatter_format alloc counters))
                          [reading values (\<lambda>v. FanoutFormatter_format (TelemetryFormatter_init alloc v))],
                        doc_registration = RegistrationFormatter_init alloc order idf_version info\<rparr>, pw'))
               (SystemCounterPipeline_init clock (storage_of nvs) (p\<lparr>pl_storage_ids := ids\<rparr>, w))))"

text \<open>The tasks of the console; \<open>log_line\<close> prints a line with its tag, and \<open>place\<close> is where the buffer of a task is.\<close>

definition ConsoleTask_task ::
    "'w heap \<Rightarrow> printer \<Rightarrow> (string \<Rightarrow> string \<Rightarrow> 'w \<Rightarrow> 'w) \<Rightarrow> (DynamicFormatter, 'w) slot \<Rightarrow> string \<Rightarrow> 'w IFormatter \<Rightarrow> 'w ITask" where
  "ConsoleTask_task alloc print log_line place tag formatter w =
     (case ConsoleTask_run alloc print formatter (sl_get place w) w of
        (code, line, df, w') \<Rightarrow>
          (code, (case line of None \<Rightarrow> id | Some text \<Rightarrow> log_line tag text) (sl_put place df w')))"

record DataParams =
  da_interval :: time
  da_buffer_size :: nat

definition add_console_task ::
    "'w heap \<Rightarrow> printer \<Rightarrow> (string \<Rightarrow> string \<Rightarrow> 'w \<Rightarrow> 'w) \<Rightarrow> (DynamicFormatter, 'w) slot \<Rightarrow> 'w IFormatter \<Rightarrow> string \<Rightarrow> string \<Rightarrow> DataParams
       \<Rightarrow> 'w pipelines \<times> 'w \<Rightarrow> ('w pipelines \<times> 'w) checked" where
  "add_console_task alloc print log_line place formatter tag k params pw =
     (case DynamicFormatter_init (da_buffer_size params) of
        Inl f \<Rightarrow> Inl f
      | Inr df \<Rightarrow>
          map_sum id (\<lambda>p. (p, sl_put place df (snd pw)))
            (schedule_task (ConsoleTask_task alloc print log_line place tag formatter) k (da_interval params) (fst pw)))"

definition ConsolePipeline_init ::
    "'w heap \<Rightarrow> printer \<Rightarrow> (string \<Rightarrow> string \<Rightarrow> 'w \<Rightarrow> 'w) \<Rightarrow> (DynamicFormatter, 'w) slot \<Rightarrow> (DynamicFormatter, 'w) slot
       \<Rightarrow> 'w IFormatter \<Rightarrow> 'w IFormatter \<Rightarrow> DataParams \<Rightarrow> DataParams
       \<Rightarrow> 'w pipelines \<times> 'w \<Rightarrow> ('w pipelines \<times> 'w) checked" where
  "ConsolePipeline_init alloc print log_line place place' telemetry registration params params' pw =
     (case add_console_task alloc print log_line place telemetry ''console_telemetry_task'' ''console_telemetry'' params pw of
        Inl f \<Rightarrow> Inl f
      | Inr pw1 \<Rightarrow> add_console_task alloc print log_line place' registration ''console_registration_task'' ''console_registration'' params' pw1)"


text \<open>The access point, whose state is read by \<open>ap_info\<close>.\<close>

definition LocalNetworkPipeline_init ::
    "(NvsStorage \<Rightarrow> 'w IStorage) \<Rightarrow> DeviceInfo \<Rightarrow> u8 \<Rightarrow> u8 \<Rightarrow> 'w pipelines \<times> 'w
       \<Rightarrow> (ApNetworkParams \<times> 'w pipelines \<times> 'w) checked" where
  "LocalNetworkPipeline_init storage_of info channel max_connection pw =
     (case pw of (p, w) \<Rightarrow>
        (case StorageBuilder_make ''net_local_wifi'' (pl_storage_ids p) of
           (None, ids) \<Rightarrow> Inl AssertFailed
         | (Some nvs, ids) \<Rightarrow>
             map_sum id (\<lambda>(params, w'). (params, p\<lparr>pl_storage_ids := ids\<rparr>, w'))
               (LocalNetworkPipeline_initialize (storage_of nvs) (di_fw_name info) (di_device_id info)
                 channel max_connection w)))"

definition LocalNetworkJsonPipeline_init ::
    "'w heap \<Rightarrow> ('w \<Rightarrow> ApInfo) \<Rightarrow> (NvsStorage \<Rightarrow> 'w IStorage) \<Rightarrow> DeviceInfo \<Rightarrow> u8 \<Rightarrow> u8
       \<Rightarrow> 'w documents \<times> 'w pipelines \<times> 'w \<Rightarrow> (ApNetworkParams \<times> 'w documents \<times> 'w pipelines \<times> 'w) checked" where
  "LocalNetworkJsonPipeline_init alloc ap_info storage_of info channel max_connection dpw =
     (case dpw of (d, pw) \<Rightarrow>
        map_sum id
          (\<lambda>(params, pw'). (params, d\<lparr>doc_registration := FanoutFormatter_add
             (reading ap_info (ApNetworkFormatter_format alloc)) (doc_registration d)\<rparr>, pw'))
          (LocalNetworkPipeline_init storage_of info channel max_connection pw))"

section \<open>HTTP API\<close>

text \<open>The constructors of the handlers: what they check, and the endpoints they add.\<close>

definition DataHandler_init ::
    "'w httpd_api \<Rightarrow> 'w heap \<Rightarrow> printer \<Rightarrow> 'w IFormatter \<Rightarrow> string \<Rightarrow> nat \<Rightarrow> 'w Server \<Rightarrow> 'w Server checked" where
  "DataHandler_init api alloc print formatter path buffer_size s =
     map_sum id
       (\<lambda>_. Server_add_GET path (\<lambda>_. returns (DataHandler_handle api alloc print formatter buffer_size)) s)
       (DynamicFormatter_init buffer_size)"

definition SystemHandler_init :: "'w httpd_api \<Rightarrow> 'w ITask \<Rightarrow> 'w Server \<Rightarrow> 'w Server" where
  "SystemHandler_init api reboot_task =
     Server_add_GET ''/api/v1/system/reboot'' (\<lambda>_. returns (SystemHandler_handle api reboot_task))"

text \<open>\<open>tasks\<close> is what FreeRTOS reports: the total time and the tasks.\<close>

definition SystemStateHandler_init ::
    "'w httpd_api \<Rightarrow> 'w heap \<Rightarrow> printer \<Rightarrow> bool \<Rightarrow> bool \<Rightarrow> ('w \<Rightarrow> u32 \<times> TaskStatus list) \<Rightarrow> nat \<Rightarrow> 'w Server \<Rightarrow> 'w Server checked" where
  "SystemStateHandler_init api alloc print ic rs tasks response_size s =
     map_sum id
       (\<lambda>_. Server_add_GET ''/api/v1/system/report''
          (\<lambda>_. returns (\<lambda>w. case tasks w of (total_time, sts) \<Rightarrow>
             SystemStateHandler_handle api alloc print ic rs total_time sts response_size w)) s)
       (DynamicFormatter_init response_size)"

definition TimeHandler_init ::
    "'w httpd_api \<Rightarrow> ('w \<Rightarrow> time) \<Rightarrow> (time \<Rightarrow> 'w \<Rightarrow> bool \<times> 'w) \<Rightarrow> time \<Rightarrow> 'w Server \<Rightarrow> 'w Server" where
  "TimeHandler_init api time_now settimeofday start_point =
     Server_add_GET ''/api/v1/system/time''
       (\<lambda>uri. returns (TimeHandler_handle api time_now settimeofday start_point uri))"

definition TimePipeline_init ::
    "'w httpd_api \<Rightarrow> 'w heap \<Rightarrow> ('w \<Rightarrow> time) \<Rightarrow> (time \<Rightarrow> 'w \<Rightarrow> bool \<times> 'w) \<Rightarrow> time
       \<Rightarrow> 'w documents \<times> 'w Server \<Rightarrow> 'w documents \<times> 'w Server" where
  "TimePipeline_init api alloc time_now settimeofday start_point ds =
     (case ds of (d, s) \<Rightarrow>
        let formatter = reading time_now (TimeFormatter_format alloc start_point)
        in (d\<lparr>doc_telemetry := FanoutFormatter_add formatter (doc_telemetry d),
              doc_registration := FanoutFormatter_add formatter (doc_registration d)\<rparr>,
            TimeHandler_init api time_now settimeofday start_point s))"

text \<open>The functions that the handler of the SHT41 schedules; \<open>handle\<close> is \<open>SHT41Handler_handle_operation\<close>.\<close>

datatype sht_operation = SensorReset | SensorHeat

definition SHT41Handler_init :: "(sht_operation \<Rightarrow> 'w step) \<Rightarrow> 'w Server \<Rightarrow> 'w Server" where
  "SHT41Handler_init handle s =
     Server_add_GET ''/api/v1/sensor/sht41/heat'' (\<lambda>_. returns (handle SensorHeat))
       (Server_add_GET ''/api/v1/sensor/sht41/reset'' (\<lambda>_. returns (handle SensorReset)) s)"

text \<open>\<open>handle\<close> is \<open>DS18B20Handler_handle\<close> of a kind on a URI.\<close>

definition DS18B20Handler_init :: "(ds_kind \<Rightarrow> string \<Rightarrow> 'w step) \<Rightarrow> 'w Server \<Rightarrow> 'w Server" where
  "DS18B20Handler_init handle s =
     (let s = Server_add_GET ''/api/v1/sensor/ds18b20/scan'' (\<lambda>uri. returns (handle ScanSensors uri)) s;
          s = Server_add_GET ''/api/v1/sensor/ds18b20/read_configuration''
            (\<lambda>uri. returns (handle ReadConfiguration uri)) s;
          s = Server_add_GET ''/api/v1/sensor/ds18b20/write_configuration''
            (\<lambda>uri. returns (handle WriteConfiguration uri)) s
      in Server_add_GET ''/api/v1/sensor/ds18b20/erase_configuration''
           (\<lambda>uri. returns (handle EraseConfiguration uri)) s)"

text \<open>
  The file system of the web GUI: whether it can be used. The calls say whether they succeeded; what fails is
  logged.
\<close>

definition WebGuiPipeline_initialize_fs :: "('w \<Rightarrow> bool \<times> 'w) \<Rightarrow> ('w \<Rightarrow> bool \<times> 'w) \<Rightarrow> 'w \<Rightarrow> bool \<times> 'w" where
  "WebGuiPipeline_initialize_fs spiffs_register spiffs_info w =
     (case spiffs_register w of (ok, w1) \<Rightarrow> if \<not> ok then (False, w1) else spiffs_info w1)"

text \<open>
  What the HTTP pipeline registers with: the suspender, and the handlers of network events, which act on the
  server and the world.
\<close>

record 'w http_parts =
  hp_suspender :: "'w FanoutSuspender"
  hp_network_handlers :: "('w Server \<times> 'w) INetworkHandler list"
  hp_server :: "'w Server"

definition HttpPipeline_network_handler ::
    "'w httpd_api \<Rightarrow> (fault \<Rightarrow> 'w \<Rightarrow> 'w) \<Rightarrow> ('w Server \<times> 'w) INetworkHandler" where
  "HttpPipeline_network_handler api panic =
     (let or_panic = (\<lambda>f sw. case f sw of Inl e \<Rightarrow> (fst sw, panic e (snd sw)) | Inr sw' \<Rightarrow> sw')
      in \<lparr>nh_handle_connect = or_panic (HttpPipeline_handle_connect api),
          nh_handle_disconnect = or_panic (HttpPipeline_handle_disconnect api)\<rparr>)"

definition HttpPipeline_suspend_handler :: "'w IMdnsDriver \<Rightarrow> 'w ISuspendHandler" where
  "HttpPipeline_suspend_handler mdns =
     \<lparr>sh_handle_suspend = HttpPipeline_handle_suspend mdns, sh_handle_resume = HttpPipeline_handle_resume mdns\<rparr>"

text \<open>
  The endpoints of the pipeline. \<open>report\<close> is present with \<^verbatim>\<open>CONFIG_FREERTOS_USE_TRACE_FACILITY\<close>: the two switches
  of the report, and the tasks.
\<close>

definition HttpPipeline_handlers ::
    "'w httpd_api \<Rightarrow> 'w heap \<Rightarrow> printer \<Rightarrow> 'w ITask \<Rightarrow> 'w IFormatter \<Rightarrow> 'w IFormatter \<Rightarrow> nat \<Rightarrow> nat
       \<Rightarrow> (bool \<times> bool \<times> ('w \<Rightarrow> u32 \<times> TaskStatus list)) option \<Rightarrow> 'w Server \<Rightarrow> 'w Server checked" where
  "HttpPipeline_handlers api alloc print reboot_task telemetry registration tele_size reg_size report s =
     (case DataHandler_init api alloc print telemetry ''/api/v1/telemetry'' tele_size s of
        Inl f \<Rightarrow> Inl f
      | Inr s1 \<Rightarrow>
          (case DataHandler_init api alloc print registration ''/api/v1/registration'' reg_size s1 of
             Inl f \<Rightarrow> Inl f
           | Inr s2 \<Rightarrow>
               let s3 = SystemHandler_init api reboot_task s2
               in case report of
                    None \<Rightarrow> Inr s3
                  | Some (ic, rs, tasks) \<Rightarrow> SystemStateHandler_init api alloc print ic rs tasks (1024 * 2) s3))"

text \<open>Both numbers of the server come from the build configuration.\<close>

definition HttpPipeline_init ::
    "'w httpd_api \<Rightarrow> 'w heap \<Rightarrow> printer \<Rightarrow> (fault \<Rightarrow> 'w \<Rightarrow> 'w) \<Rightarrow> 'w IMdnsDriver \<Rightarrow> u32 \<Rightarrow> u32 \<Rightarrow> 'w ITask
       \<Rightarrow> 'w IFormatter \<Rightarrow> 'w IFormatter \<Rightarrow> nat \<Rightarrow> nat \<Rightarrow> (bool \<times> bool \<times> ('w \<Rightarrow> u32 \<times> TaskStatus list)) option
       \<Rightarrow> 'w FanoutSuspender \<Rightarrow> ('w Server \<times> 'w) INetworkHandler list \<Rightarrow> 'w \<Rightarrow> ('w http_parts \<times> 'w) checked" where
  "HttpPipeline_init api alloc print panic mdns port max_uri_handlers reboot_task telemetry registration
       tele_size reg_size report suspender network_handlers w =
     (case HttpPipeline_init_mdns mdns port w of
        Inl f \<Rightarrow> Inl f
      | Inr w1 \<Rightarrow>
          let network_handlers' = FanoutNetworkHandler_add (HttpPipeline_network_handler api panic) network_handlers;
              s = Server_init port max_uri_handlers
          in (case FanoutSuspender_add (HttpPipeline_suspend_handler mdns) ''http_pipeline'' suspender of
                (code, suspender') \<Rightarrow>
                  if code \<noteq> OK then Inl AssertFailed
                  else
                    map_sum id
                      (\<lambda>s'. (\<lparr>hp_suspender = suspender', hp_network_handlers = network_handlers', hp_server = s'\<rparr>, w1))
                      (HttpPipeline_handlers api alloc print reboot_task telemetry registration tele_size reg_size report s)))"

end
