(* ===== verification/Api.thy ===== *)
theory Api
  imports Firmware
begin

text \<open>
  What a client of a device gets: the shape of the documents, the dispatch of requests to the endpoints of all
  the pipelines in whatever order they are created, and the registration of the endpoints when the network
  is there.
\<close>

section \<open>The shape of a document\<close>

datatype json_type = NumberType | StringType | OtherType

fun json_type_of :: "cJSON \<Rightarrow> json_type" where
  "json_type_of (JNumber _) = NumberType"
| "json_type_of (JString _) = StringType"
| "json_type_of _ = OtherType"

abbreviation shape_of :: "(string \<times> cJSON) list \<Rightarrow> (string \<times> json_type) list" where
  "shape_of \<equiv> map (\<lambda>(k, v). (k, json_type_of v))"

text \<open>A formatter that always completes, with fields of this shape and values that depend on the time.\<close>

definition produces :: "'w IFormatter \<Rightarrow> (string \<times> json_type) list \<Rightarrow> bool" where
  "produces f shape \<longleftrightarrow>
     (\<forall>js w. \<exists>kvs w'. f (JObject js, w) = (OK, (JObject (js @ kvs), w')) \<and> shape_of kvs = shape)"

lemma producesE:
  assumes "produces f shape"
  obtains kvs w' where "f (JObject js, w) = (OK, (JObject (js @ kvs), w'))" "shape_of kvs = shape"
  using assms unfolding produces_def by blast

lemma produces_json_formatter:
  assumes "json_formatter alloc f kvs" and "plenty alloc" and "shape_of kvs = shape"
  shows "produces f shape"
  unfolding produces_def using json_formatter.complete [OF assms(1,2)] assms(3) by blast

lemma produces_reading: "(\<And>w. produces (f (get w)) shape) \<Longrightarrow> produces (reading get f) shape"
  unfolding produces_def reading_def by auto

lemma produces_fanout:
  "list_all2 produces fs shapes \<Longrightarrow> produces (FanoutFormatter_format fs) (concat shapes)"
proof (induction rule: list_all2_induct)
  case Nil
  show ?case by (simp add: produces_def)
next
  case (Cons f fs shape shapes)
  show ?case
    unfolding produces_def
  proof (intro allI)
    fix js w
    obtain kvs w1 where f: "f (JObject js, w) = (OK, (JObject (js @ kvs), w1))" "shape_of kvs = shape"
      using Cons(1) by (rule producesE)
    obtain kvs' w2 where fs: "FanoutFormatter_format fs (JObject (js @ kvs), w1) = (OK, (JObject ((js @ kvs) @ kvs'), w2))"
      "shape_of kvs' = concat shapes"
      using Cons(3) by (rule producesE)
    show "\<exists>kvs w'. FanoutFormatter_format (f # fs) (JObject js, w) = (OK, (JObject (js @ kvs), w'))
        \<and> shape_of kvs = concat (shape # shapes)"
      using f fs by (intro exI [of _ "kvs @ kvs'"] exI [of _ w2]) simp
  qed
qed

definition system_shape :: "(string \<times> json_type) list" where
  "system_shape = [(''system_memory_heap'', NumberType), (''system_memory_heap_min'', NumberType),
     (''system_memory_heap_internal'', NumberType), (''system_reset_reason'', StringType)]"

definition counter_shape :: "'w ICounter list \<Rightarrow> (string \<times> json_type) list" where
  "counter_shape cs = map (\<lambda>c. (ct_id c, NumberType)) cs"

definition string_shape :: "(string \<times> string) list \<Rightarrow> (string \<times> json_type) list" where
  "string_shape vs = map (\<lambda>(k, _). (k, StringType)) vs"

lemma produces_system: "plenty alloc \<Longrightarrow> produces (FanoutFormatter_format (TelemetryFormatter_init alloc v)) system_shape"
  using produces_fanout [of "[SystemFormatter_format alloc v]" "[system_shape]"]
    produces_json_formatter [OF system_formatter.json_formatter_axioms, of alloc v system_shape]
  by (simp add: TelemetryFormatter_init_def FanoutFormatter_add_def system_fields_def system_shape_def)

lemma produces_counters: "plenty alloc \<Longrightarrow> produces (CounterFormatter_format alloc cs w) (counter_shape cs)"
  by (rule produces_json_formatter [OF counter_formatter.json_formatter_axioms])
    (simp_all add: counter_fields_def counter_shape_def)

lemma produces_time:
  assumes "plenty alloc" and "TimeOps_get_time now \<noteq> None"
  shows "produces (TimeFormatter_format alloc start_point now) [(''timestamp'', NumberType)]"
proof -
  obtain t where t: "TimeOps_get_time now = Some t" using assms(2) by blast
  let ?v = "JNumber (double_of_int (if t < start_point then - 1 else t))"
  have "TimeFormatter_format alloc start_point now = no_mem (add_item_cs alloc ''timestamp'' ?v)"
    by (simp add: fun_eq_iff TimeFormatter_format_def t add_cs_defs)
  then show ?thesis
    using produces_json_formatter [OF json_formatter_item assms(1), of "''timestamp''" ?v] by simp
qed

text \<open>The counters that the system pipeline adds.\<close>

lemma counter_init_id: "ct_id (pc_counter (fst (BasicPersistentCounter_init st counter w))) = ct_id counter"
  by (simp add: BasicPersistentCounter_init_def split: prod.split)

lemma SystemCounterPipeline_counters:
  assumes "SystemCounterPipeline_init clock st (p, w) = Inr (p', w')"
  shows "counter_shape (pl_counters p')
    = counter_shape (pl_counters p) @ [(''c_sys_uptime'', NumberType), (''c_sys_lifetime'', NumberType)]"
proof -
  obtain up w1 where up: "MemPersistentCounter_init st (system_counter clock ''c_sys_uptime'') w = (up, w1)"
    by (cases "MemPersistentCounter_init st (system_counter clock ''c_sys_uptime'') w")
  then have up_id: "ct_id (pc_counter up) = ''c_sys_uptime''"
    using counter_init_id [of st "system_counter clock ''c_sys_uptime''" w]
    by (auto simp: MemPersistentCounter_init_def split: prod.splits)
  obtain life w2 where life: "AccPersistentCounter_init st (system_counter clock ''c_sys_lifetime'') w1 = (life, w2)"
    by (cases "AccPersistentCounter_init st (system_counter clock ''c_sys_lifetime'') w1")
  then have life_id: "ct_id (pc_counter life) = ''c_sys_lifetime''"
    using counter_init_id [of st "system_counter clock ''c_sys_lifetime''" w1]
    by (simp add: AccPersistentCounter_init_def)
  obtain p2 where p2: "schedule_task (BasicPersistentCounter_run AccPersistentCounter_get st life)
      ''lifetime_counter_task'' hour
      (add_counter (counter_of MemPersistentCounter_get up)
        (add_reboot_handler (BasicPersistentCounter_handle_reboot MemPersistentCounter_get st up) p)) = Inr p2"
    and p': "pl_counters p' = pl_counters p2 @ [counter_of AccPersistentCounter_get life]"
    using assms up life
    by (auto simp: SystemCounterPipeline_init_def system_counters Let_def map_sum_id_eq_Inr add_counter_def
        add_reboot_handler_def BasicCounterHolder_add_def)
  have "pl_counters p2 = pl_counters p @ [counter_of MemPersistentCounter_get up]"
    using schedule_task_Inr [OF p2] by (auto simp: add_counter_def add_reboot_handler_def BasicCounterHolder_add_def)
  with p' up_id life_id show ?thesis
    by (simp add: counter_shape_def counter_of_def BasicPersistentCounter_id_def)
qed

definition telemetry_shape :: "'w ICounter list \<Rightarrow> (string \<times> json_type) list" where
  "telemetry_shape counters = system_shape @ counter_shape counters @ [(''timestamp'', NumberType)]"

definition registration_shape :: "iteration \<Rightarrow> string \<Rightarrow> DeviceInfo \<Rightarrow> (string \<times> json_type) list" where
  "registration_shape order idf_version info =
     string_shape (order (RegistrationFormatter_values idf_version info)) @ [(''timestamp'', NumberType)]"

lemma device_documents_produce:
  assumes "plenty alloc" and "\<And>w. TimeOps_get_time (time_now w) \<noteq> None"
    and "DataPipeline_init alloc values counters order idf_version info clock storage_of pw = Inr (d, pw')"
    and "TimePipeline_init api alloc time_now settimeofday start_point (d, s) = (d', s')"
  shows "produces (FanoutFormatter_format (doc_telemetry d')) (telemetry_shape counters)"
    and "produces (FanoutFormatter_format (doc_registration d')) (registration_shape order idf_version info)"
proof -
  let ?time = "reading time_now (TimeFormatter_format alloc start_point)"
  let ?telemetry = "[reading values (\<lambda>v. FanoutFormatter_format (TelemetryFormatter_init alloc v)),
      reading id (CounterFormatter_format alloc counters)]"
  have d: "doc_telemetry d = ?telemetry"
      "doc_registration d = RegistrationFormatter_init alloc order idf_version info"
    using assms(3) by (auto simp: DataPipeline_init_def map_sum_id_eq_Inr FanoutFormatter_add_def
        split: prod.splits option.splits)
  then have d': "doc_telemetry d' = ?telemetry @ [?time]"
      "doc_registration d' = RegistrationFormatter_init alloc order idf_version info @ [?time]"
    using assms(4) by (auto simp: TimePipeline_init_def Let_def FanoutFormatter_add_def)
  have time: "produces ?time [(''timestamp'', NumberType)]"
    by (rule produces_reading, rule produces_time [OF assms(1,2)])
  have system: "produces (reading values (\<lambda>v. FanoutFormatter_format (TelemetryFormatter_init alloc v))) system_shape"
    by (rule produces_reading, rule produces_system [OF assms(1)])
  have "produces (reading id (CounterFormatter_format alloc counters)) (counter_shape counters)"
    by (rule produces_reading, rule produces_counters [OF assms(1)])
  with system time have "list_all2 produces (?telemetry @ [?time])
      [system_shape, counter_shape counters, [(''timestamp'', NumberType)]]"
    by simp
  from produces_fanout [OF this] d'(1)
  show "produces (FanoutFormatter_format (doc_telemetry d')) (telemetry_shape counters)"
    by (simp add: telemetry_shape_def)
  let ?strings = "StringFormatter_format alloc order (RegistrationFormatter_values idf_version info)"
  let ?shape = "string_shape (order (RegistrationFormatter_values idf_version info))"
  have "produces ?strings ?shape"
    by (rule produces_json_formatter [OF string_formatter.json_formatter_axioms assms(1)])
      (auto simp: string_shape_def split: prod.split)
  with time have "list_all2 produces [?strings, ?time] [?shape, [(''timestamp'', NumberType)]]" by simp
  from produces_fanout [OF this] d'(2)
  show "produces (FanoutFormatter_format (doc_registration d')) (registration_shape order idf_version info)"
    by (simp add: registration_shape_def RegistrationFormatter_init_def FanoutFormatter_add_def)
qed

section \<open>Endpoints\<close>

text \<open>
  What the ESP-IDF documents of \<^verbatim>\<open>httpd_uri_match_wildcard\<close>: a template that does not end in \<open>*\<close> or \<open>?\<close> matches
  only itself, and one that ends in \<open>/*\<close> what starts like it.
\<close>

definition exact :: "string \<Rightarrow> bool" where
  "exact p \<longleftrightarrow> p \<noteq> [] \<and> List.last p \<noteq> CHR ''*'' \<and> List.last p \<noteq> CHR ''?''"

definition httpd_match :: "(string \<Rightarrow> string \<Rightarrow> bool) \<Rightarrow> bool" where
  "httpd_match uri_match \<longleftrightarrow>
     (\<forall>p path. exact p \<longrightarrow> uri_match p path = (p = path))
   \<and> (\<forall>p path. uri_match (p @ ''/*'') path = (take (length p + 1) path = p @ ''/''))"

text \<open>The endpoints of all the pipelines, in one order.\<close>

definition device_server ::
    "'w httpd_api \<Rightarrow> 'w heap \<Rightarrow> printer \<Rightarrow> 'w ITask \<Rightarrow> 'w IFormatter \<Rightarrow> 'w IFormatter \<Rightarrow> nat \<Rightarrow> nat
       \<Rightarrow> bool \<times> bool \<times> ('w \<Rightarrow> u32 \<times> TaskStatus list) \<Rightarrow> ('w \<Rightarrow> time) \<Rightarrow> (time \<Rightarrow> 'w \<Rightarrow> bool \<times> 'w) \<Rightarrow> time
       \<Rightarrow> (ds_kind \<Rightarrow> string \<Rightarrow> 'w step) \<Rightarrow> (sht_operation \<Rightarrow> 'w step) \<Rightarrow> files \<Rightarrow> bool \<Rightarrow> 'w Server checked" where
  "device_server api alloc print reboot_task telemetry registration tele_size reg_size report
       time_now settimeofday start_point ds sht fs mounted =
     map_sum id
       (\<lambda>s. WebGuiPipeline_init api fs mounted (SHT41Handler_init sht (DS18B20Handler_init ds
          (TimeHandler_init api time_now settimeofday start_point s))))
       (HttpPipeline_handlers api alloc print reboot_task telemetry registration tele_size reg_size (Some report)
         (Server_init 80 64))"

definition api_paths :: "string list" where
  "api_paths = [''/api/v1/telemetry'', ''/api/v1/registration'', ''/api/v1/system/reboot'', ''/api/v1/system/report'',
     ''/api/v1/system/time'', ''/api/v1/sensor/ds18b20/scan'', ''/api/v1/sensor/ds18b20/read_configuration'',
     ''/api/v1/sensor/ds18b20/write_configuration'', ''/api/v1/sensor/ds18b20/erase_configuration'',
     ''/api/v1/sensor/sht41/reset'', ''/api/v1/sensor/sht41/heat'', ''/'', ''/dashboard'', ''/assets/*'']"

text \<open>Some of these endpoints, in whatever order the pipelines are created.\<close>

definition selection :: "'w Server \<Rightarrow> 'w Server \<Rightarrow> bool" where
  "selection s all \<longleftrightarrow> distinct (map fst (srv_endpoints_get s))
     \<and> set (srv_endpoints_get s) \<subseteq> set (srv_endpoints_get all)"

lemma api_paths_eq: "api_paths = butlast api_paths @ [''/assets/*'']"
  by (simp add: api_paths_def)

lemma api_paths_exact: "\<forall>p\<in>set (butlast api_paths). exact p \<and> take 8 p \<noteq> ''/assets/''"
  by code_simp

lemma distinct_api_paths: "distinct api_paths"
  by code_simp

lemma device_server_paths:
  "device_server api alloc print reboot_task telemetry registration tele_size reg_size report
     time_now settimeofday start_point ds sht fs mounted = Inr s \<Longrightarrow> map fst (srv_endpoints_get s) = api_paths"
  by (auto simp: device_server_def HttpPipeline_handlers_def DataHandler_init_def map_sum_id_eq_Inr
      SystemStateHandler_init_def SystemHandler_init_def TimeHandler_init_def DS18B20Handler_init_def
      SHT41Handler_init_def WebGuiPipeline_init_def Server_add_GET_def Server_init_def api_paths_def Let_def
      split: sum.splits prod.splits)

lemma selection_paths:
  assumes "selection s all" and "map fst (srv_endpoints_get all) = api_paths"
  shows "set (map fst (srv_endpoints_get s)) \<subseteq> set api_paths"
  using assms unfolding selection_def by (metis image_mono image_set)

text \<open>Of a path, the template it belongs to.\<close>

definition belongs :: "string \<Rightarrow> string \<Rightarrow> bool" where
  "belongs path p \<longleftrightarrow> (if p = ''/assets/*'' then take 8 path = ''/assets/'' else path = p)"

lemma api_match:
  assumes "httpd_match uri_match" and "p \<in> set api_paths"
  shows "uri_match p path \<longleftrightarrow> belongs path p"
proof (cases "p = ''/assets/*''")
  case True
  have "''/assets/*'' = ''/assets'' @ ''/*''" by simp
  then have "uri_match ''/assets/*'' path = (take (length ''/assets'' + 1) path = ''/assets'' @ ''/'')"
    using assms(1) unfolding httpd_match_def by metis
  with True show ?thesis by (simp add: belongs_def eval_nat_numeral)
next
  case False
  with assms(2) api_paths_eq have "p \<in> set (butlast api_paths)"
    by (metis Un_iff empty_iff empty_set set_ConsD set_append)
  with api_paths_exact assms(1) False show ?thesis
    unfolding httpd_match_def belongs_def by metis
qed

lemma belongs_unique:
  assumes "p \<in> set api_paths" and "q \<in> set api_paths" and "belongs path p" and "belongs path q"
  shows "p = q"
proof -
  have "take 8 r \<noteq> ''/assets/''" if "r \<in> set api_paths" "r \<noteq> ''/assets/*''" for r
    using that api_paths_exact api_paths_eq by (metis Un_iff empty_iff empty_set set_ConsD set_append)
  with assms show ?thesis unfolding belongs_def by (metis (full_types))
qed

lemma find_key:
  assumes "distinct (map fst kvs)" and "(k, v) \<in> set kvs" and "\<forall>e\<in>set kvs. P e \<longleftrightarrow> fst e = k"
  shows "find P kvs = Some (k, v)"
  using assms
proof (induction kvs)
  case (Cons e kvs)
  then show ?case by (cases "fst e = k") (force simp: image_iff)+
qed simp

text \<open>The response to what an endpoint returned.\<close>

definition respond :: "'w httpd_api \<Rightarrow> (status_code \<times> 'w) checked option \<Rightarrow> 'w checked option" where
  "respond api r = map_option (map_sum id (\<lambda>(code, w).
     if code \<noteq> OK then snd (hd_resp_send_err api (status_code_to_http_code code) (code_to_str code) w) else w)) r"

lemma Server_handle_request_get_found:
  "find (\<lambda>e. uri_match (fst e) (UriOps_parse_path (Some uri))) (srv_endpoints_get s) = Some (p, func)
     \<Longrightarrow> Server_handle_request_get uri_match api s uri w = respond api (func uri w)"
  by (simp add: Server_handle_request_get_def respond_def split: option.split sum.split)

lemma selection_matches:
  assumes "httpd_match uri_match" and "selection s all" and "map fst (srv_endpoints_get all) = api_paths"
    and "e \<in> set (srv_endpoints_get s)"
  shows "uri_match (fst e) path \<longleftrightarrow> belongs path (fst e)"
proof -
  have "fst e \<in> set (map fst (srv_endpoints_get s))" using assms(4) by auto
  with selection_paths [OF assms(2,3)] have "fst e \<in> set api_paths" by blast
  from api_match [OF assms(1) this] show ?thesis .
qed

text \<open>
  C3. The endpoints do not shadow each other: with any of the pipelines, created in any order, a request whose
  path belongs to a template is served by the handler of that template, and a path that belongs to none is
  answered with 400.
\<close>

theorem api_dispatch:
  assumes "httpd_match uri_match"
    and "device_server api alloc print reboot_task telemetry registration tele_size reg_size report
      time_now settimeofday start_point ds sht fs mounted = Inr all"
    and "selection s all"
  shows "((p, func) \<in> set (srv_endpoints_get s) \<and> belongs (UriOps_parse_path (Some uri)) p \<longrightarrow>
      Server_handle_request_get uri_match api s uri w = respond api (func uri w))
    \<and> ((\<forall>e\<in>set (srv_endpoints_get s). \<not> belongs (UriOps_parse_path (Some uri)) (fst e)) \<longrightarrow>
      Server_handle_request_get uri_match api s uri w
        = Some (Inr (snd (hd_resp_send_err api HTTPD_400_BAD_REQUEST ''InvalidArg'' w))))"
proof (intro conjI impI)
  let ?path = "UriOps_parse_path (Some uri)"
  note paths = device_server_paths [OF assms(2)]
  note matches = selection_matches [OF assms(1,3) paths, of _ ?path]
  {
    assume p: "(p, func) \<in> set (srv_endpoints_get s) \<and> belongs ?path p"
    have in_api: "q \<in> set api_paths" if "(q, g) \<in> set (srv_endpoints_get s)" for q g
      using selection_paths [OF assms(3) paths] that by force
    have "uri_match (fst e) ?path \<longleftrightarrow> fst e = p" if "e \<in> set (srv_endpoints_get s)" for e
      using matches [OF that] belongs_unique [of "fst e" p ?path] in_api [of "fst e" "snd e"] in_api [of p func] that p
      by auto
    then have "find (\<lambda>e. uri_match (fst e) ?path) (srv_endpoints_get s) = Some (p, func)"
      using assms(3) p by (intro find_key) (auto simp: selection_def)
    from Server_handle_request_get_found [of uri_match uri s p func, OF this]
    show "Server_handle_request_get uri_match api s uri w = respond api (func uri w)" .
  }
  {
    assume "\<forall>e\<in>set (srv_endpoints_get s). \<not> belongs ?path (fst e)"
    with matches have "find (\<lambda>e. uri_match (fst e) ?path) (srv_endpoints_get s) = None"
      by (auto simp: find_None_iff)
    then show "Server_handle_request_get uri_match api s uri w
        = Some (Inr (snd (hd_resp_send_err api HTTPD_400_BAD_REQUEST ''InvalidArg'' w)))"
      by (simp add: Server_handle_request_get_def status_code_to_http_code_def)
  }
qed

text \<open>A matching function with these laws.\<close>

definition match_wildcard :: "string \<Rightarrow> string \<Rightarrow> bool" where
  "match_wildcard p path \<longleftrightarrow>
     (if p \<noteq> [] \<and> List.last p = CHR ''*'' then take (length p - 1) path = butlast p else p = path)"

lemma match_wildcard_laws: "httpd_match match_wildcard"
  by (simp add: httpd_match_def match_wildcard_def exact_def butlast_append)

text \<open>A device that serves the time only.\<close>

definition log_device :: "http_log list Server checked" where
  "log_device = device_server log_api (\<lambda>w. (True, w)) (\<lambda>json n. (True, ''{}'')) (\<lambda>w. (OK, w)) (\<lambda>jw. (OK, jw))
     (\<lambda>jw. (OK, jw)) 512 512 (False, False, \<lambda>w. (0, [])) (\<lambda>w. 42) (\<lambda>t w. (True, w)) 0
     (\<lambda>_ _ w. (OK, w)) (\<lambda>_ w. (OK, w)) Map.empty True"

definition time_server :: "http_log list Server" where
  "time_server = TimeHandler_init log_api (\<lambda>w. 42) (\<lambda>t w. (True, w)) 0 (Server_init 80 64)"

theorem api_dispatch_witness:
  "Server_handle_request_get match_wildcard log_api time_server ''/api/v1/system/time'' []
     = Some (Inr [LogType ''text/html'', LogSend ''42''])"
proof -
  obtain all where all: "log_device = Inr all"
    by (auto simp: log_device_def device_server_def HttpPipeline_handlers_def DataHandler_init_def
        SystemStateHandler_init_def DynamicFormatter_init_def Let_def)
  let ?h = "\<lambda>uri. returns (TimeHandler_handle log_api (\<lambda>w. 42) (\<lambda>t w. (True, w)) 0 uri)"
  have e: "srv_endpoints_get time_server = [(''/api/v1/system/time'', ?h)]"
    by (simp add: time_server_def TimeHandler_init_def Server_add_GET_def Server_init_def)
  have "selection time_server all"
    using all unfolding selection_def e
    by (auto simp: log_device_def device_server_def HttpPipeline_handlers_def DataHandler_init_def
        SystemStateHandler_init_def DynamicFormatter_init_def Let_def WebGuiPipeline_init_def SHT41Handler_init_def
        DS18B20Handler_init_def TimeHandler_init_def Server_add_GET_def)
  note d = api_dispatch [OF match_wildcard_laws all [unfolded log_device_def] this]
  have path: "UriOps_parse_path (Some ''/api/v1/system/time'') = ''/api/v1/system/time''" by code_simp
  have query: "UriOps_parse_query (Some ''/api/v1/system/time'') ''value'' = None" by code_simp
  have dec: "to_string 42 = ''42''" by code_simp
  have "?h ''/api/v1/system/time'' [] = Some (Inr (OK, [LogType ''text/html'', LogSend ''42'']))"
    by (simp add: returns_def TimeHandler_handle_def query dec TimeOps_get_time_def http_step_def log_api_def
        and_then_def)
  with d [of "''/api/v1/system/time''" ?h "''/api/v1/system/time''" "[]"] show ?thesis
    by (simp add: e path belongs_def respond_def)
qed

section \<open>Connecting to the network\<close>

text \<open>
  What the ESP-IDF documents of a running server: it starts without handlers, and a handler is registered when there
  is a free slot and no registered template matches the new one. \<open>reg\<close> and \<open>cap\<close> are its templates and its slots.
\<close>

definition httpd_registers ::
    "'w httpd_api \<Rightarrow> (string \<Rightarrow> string \<Rightarrow> bool) \<Rightarrow> ('w \<Rightarrow> string list) \<Rightarrow> ('w \<Rightarrow> nat) \<Rightarrow> bool" where
  "httpd_registers api uri_match reg cap \<longleftrightarrow>
     (\<forall>port max_handlers w h w'. hd_start api port max_handlers w = (Some h, w')
        \<longrightarrow> reg w' = [] \<and> cap w' = unat max_handlers)
   \<and> (\<forall>h p w ok w'. hd_register_uri_handler api h p w = (ok, w')
        \<longrightarrow> ok = (length (reg w) < cap w \<and> (\<forall>q\<in>set (reg w). \<not> uri_match q p))
          \<and> reg w' = (if ok then reg w @ [p] else reg w) \<and> cap w' = cap w)"

lemma Server_register_uris_all:
  assumes "httpd_registers api uri_match reg cap"
    and "\<forall>p q. p \<in> set (reg w @ map fst es) \<and> q \<in> set (reg w @ map fst es) \<longrightarrow> uri_match p q = (p = q)"
    and "distinct (reg w @ map fst es)"
  shows "if length (reg w) + length es \<le> cap w \<or> es = []
    then \<exists>w'. Server_register_uris api h es w = Inr (OK, w') \<and> reg w' = reg w @ map fst es
    else Server_register_uris api h es w = Inl AssertFailed"
  using assms(2,3)
proof (induction es arbitrary: w)
  case Nil
  then show ?case by simp
next
  case (Cons e es)
  obtain p func where e: "e = (p, func)" by (cases e)
  obtain ok w1 where r: "hd_register_uri_handler api h p w = (ok, w1)" by (cases "hd_register_uri_handler api h p w")
  with assms(1) have ok: "ok = (length (reg w) < cap w \<and> (\<forall>q\<in>set (reg w). \<not> uri_match q p))"
      "reg w1 = (if ok then reg w @ [p] else reg w)" "cap w1 = cap w"
    unfolding httpd_registers_def by blast+
  have "\<not> uri_match q p" if "q \<in> set (reg w)" for q
    using Cons.prems that e by auto
  with ok(1) have ok': "ok = (length (reg w) < cap w)" by blast
  show ?case
  proof (cases "length (reg w) < cap w")
    case True
    with ok ok' have w1: "reg w1 = reg w @ [p]" "cap w1 = cap w" by simp_all
    have "if length (reg w1) + length es \<le> cap w1 \<or> es = []
      then \<exists>w'. Server_register_uris api h es w1 = Inr (OK, w') \<and> reg w' = reg w1 @ map fst es
      else Server_register_uris api h es w1 = Inl AssertFailed"
      using Cons.prems e w1(1) by (intro Cons.IH) simp_all
    with True r ok' w1 show ?thesis by (auto simp: e split: if_splits)
  next
    case False
    with r ok' show ?thesis by (auto simp: e)
  qed
qed

text \<open>
  C21. When the network connects, the server starts with every endpoint of the pipelines, or the firmware stops:
  exactly when it has more endpoints than slots. No endpoint is rejected for another one, and there are never more
  than fourteen, so the default of 64 slots is enough.
\<close>

theorem connect_registers_endpoints:
  assumes "httpd_match uri_match" and "httpd_registers api uri_match reg cap"
    and "device_server api alloc print reboot_task telemetry registration tele_size reg_size report
      time_now settimeofday start_point ds sht fs mounted = Inr all"
    and "selection s all"
    and "hd_start api (srv_port s) (srv_max_uri_handlers s) w = (Some h, w1)"
  shows "(if length (srv_endpoints_get s) \<le> unat (srv_max_uri_handlers s)
      then \<exists>w'. HttpPipeline_handle_connect api (s, w) = Inr (s\<lparr>srv_handle := Some h\<rparr>, w')
        \<and> reg w' = map fst (srv_endpoints_get s)
      else HttpPipeline_handle_connect api (s, w) = Inl AssertFailed)
    \<and> length (srv_endpoints_get s) \<le> 14"
proof -
  let ?es = "srv_endpoints_get s"
  note sub = selection_paths [OF assms(4) device_server_paths [OF assms(3)]]
  have d: "distinct (map fst ?es)" using assms(4) by (simp add: selection_def)
  have w1: "reg w1 = []" "cap w1 = unat (srv_max_uri_handlers s)"
    using assms(2,5) unfolding httpd_registers_def by blast+
  have match: "uri_match p q = (p = q)" if "p \<in> set (map fst ?es)" "q \<in> set (map fst ?es)" for p q
  proof -
    have pq: "p \<in> set api_paths" "q \<in> set api_paths" using sub that by blast+
    have "belongs r r" if "r \<in> set api_paths" for r by (simp add: belongs_def)
    with pq api_match [OF assms(1) pq(1)] belongs_unique [OF pq, of q] show ?thesis by blast
  qed
  with d w1(1) have "if length (reg w1) + length ?es \<le> cap w1 \<or> ?es = []
      then \<exists>w'. Server_register_uris api h ?es w1 = Inr (OK, w') \<and> reg w' = reg w1 @ map fst ?es
      else Server_register_uris api h ?es w1 = Inl AssertFailed"
    by (intro Server_register_uris_all [OF assms(2)]) auto
  moreover have "length ?es \<le> 14"
    using card_mono [OF finite_set sub] distinct_card [OF d] distinct_card [OF distinct_api_paths]
    by (simp add: api_paths_def)
  ultimately show ?thesis using w1 assms(5)
    by (auto simp: HttpPipeline_handle_connect_def Server_start_def split: if_splits)
qed

text \<open>A server that only keeps its templates and the number of its slots.\<close>

definition slots_api :: "(string \<Rightarrow> string \<Rightarrow> bool) \<Rightarrow> (string list \<times> nat) httpd_api" where
  "slots_api uri_match =
     \<lparr>hd_start = (\<lambda>_ n w. (Some 0, ([], unat n))),
      hd_register_uri_handler = (\<lambda>_ p w. case w of (r, c) \<Rightarrow>
        let ok = (length r < c \<and> (\<forall>q\<in>set r. \<not> uri_match q p)) in (ok, (if ok then r @ [p] else r, c))),
      hd_stop = (\<lambda>_ w. (True, w)), hd_resp_set_type = (\<lambda>_ w. (True, w)),
      hd_resp_set_hdr = (\<lambda>_ _ w. (True, w)), hd_resp_set_status = (\<lambda>_ w. (True, w)),
      hd_resp_send = (\<lambda>_ w. (True, w)), hd_resp_send_chunk = (\<lambda>_ w. (ESP_OK, w)),
      hd_resp_send_err = (\<lambda>_ _ w. (True, w))\<rparr>"

lemma slots_api_laws: "httpd_registers (slots_api uri_match) uri_match fst snd"
  by (auto simp: httpd_registers_def slots_api_def Let_def)

theorem connect_registers_endpoints_witness:
  "\<exists>s w'. HttpPipeline_handle_connect (slots_api match_wildcard) (s, ([], 0)) = Inr (s\<lparr>srv_handle := Some 0\<rparr>, w')
     \<and> fst w' = api_paths"
proof -
  let ?device = "device_server (slots_api match_wildcard) (\<lambda>w. (True, w)) (\<lambda>json n. (True, ''{}'')) (\<lambda>w. (OK, w))
     (\<lambda>jw. (OK, jw)) (\<lambda>jw. (OK, jw)) 512 512 (False, False, \<lambda>w. (0, [])) (\<lambda>w. 42) (\<lambda>t w. (True, w)) 0
     (\<lambda>_ _ w. (OK, w)) (\<lambda>_ w. (OK, w)) Map.empty True"
  obtain all where all: "?device = Inr all"
    by (auto simp: device_server_def HttpPipeline_handlers_def DataHandler_init_def
        SystemStateHandler_init_def DynamicFormatter_init_def Let_def)
  then have slots: "srv_max_uri_handlers all = 64" "srv_port all = 80"
    by (auto simp: device_server_def HttpPipeline_handlers_def DataHandler_init_def
        SystemStateHandler_init_def DynamicFormatter_init_def Let_def WebGuiPipeline_init_def SHT41Handler_init_def
        DS18B20Handler_init_def TimeHandler_init_def SystemHandler_init_def Server_add_GET_def Server_init_def)
  note paths = device_server_paths [OF all]
  then have sel: "selection all all" by (simp add: selection_def distinct_api_paths)
  have start: "hd_start (slots_api match_wildcard) (srv_port all) (srv_max_uri_handlers all) ([], 0)
      = (Some 0, ([], 64))" by (simp add: slots_api_def slots)
  from connect_registers_endpoints [OF match_wildcard_laws slots_api_laws all sel start] slots(1) paths
  show ?thesis by (auto split: if_splits)
qed

section \<open>The telemetry of a device\<close>

lemma DataHandler_handle_produces:
  assumes "plenty alloc" and "produces f shape"
  shows "\<exists>kvs w'. shape_of kvs = shape \<and> DataHandler_handle api alloc print f n w =
    (case print (JObject kvs) n of (ok, t) \<Rightarrow>
       if \<not> ok then (NoMem, w')
       else run_steps [http_step (hd_resp_set_type api ''application/json''), http_step (hd_resp_send api t)] w')"
proof -
  obtain w1 where w1: "make_item alloc (JObject []) w = (Some (JObject []), w1)"
    using assms(1) by (metis (mono_tags, lifting) make_item_def plenty_def case_prod_conv prod.collapse)
  obtain kvs w2 where "f (JObject [], w1) = (OK, (JObject ([] @ kvs), w2))" "shape_of kvs = shape"
    using assms(2) by (rule producesE)
  with w1 show ?thesis
    by (intro exI [of _ kvs] exI [of _ w2]) (simp add: DataHandler_handle_def split: prod.split)
qed

text \<open>
  C4. What \<open>GET /api/v1/telemetry\<close> answers on a device whose heap lasts and whose clock works: one document with the
  memory and the reset reason of the system, the counters of the holder in their order, the uptime and the lifetime
  after those there were before, and the time; each a number, but the reset reason. When the document does not fit
  the buffer it is the error 500.
\<close>

theorem telemetry_request:
  assumes "httpd_match uri_match" and "plenty alloc" and "\<And>w. TimeOps_get_time (time_now w) \<noteq> None"
    and "DataPipeline_init alloc values counters order idf_version info clock storage_of (p, w0) = Inr (d, p', w1)"
    and "counters = pl_counters p'"
    and "TimePipeline_init api alloc time_now settimeofday start_point (d, s0) = (d', s1)"
    and "DataHandler_init api alloc print (FanoutFormatter_format (doc_telemetry d')) ''/api/v1/telemetry'' n
      (Server_init port max_handlers) = Inr s"
    and "UriOps_parse_path (Some uri) = ''/api/v1/telemetry''"
  shows "\<exists>kvs w'. shape_of kvs = system_shape @ counter_shape (pl_counters p)
      @ [(''c_sys_uptime'', NumberType), (''c_sys_lifetime'', NumberType), (''timestamp'', NumberType)]
    \<and> Server_handle_request_get uri_match api s uri w = respond api (Some (Inr
        (case print (JObject kvs) n of (ok, t) \<Rightarrow>
           if \<not> ok then (NoMem, w')
           else run_steps [http_step (hd_resp_set_type api ''application/json''), http_step (hd_resp_send api t)] w')))"
proof -
  let ?f = "FanoutFormatter_format (doc_telemetry d')"
  let ?h = "\<lambda>_. returns (DataHandler_handle api alloc print ?f n)"
  obtain nvs ids where "SystemCounterPipeline_init clock (storage_of nvs) (p\<lparr>pl_storage_ids := ids\<rparr>, w0) = Inr (p', w1)"
    using assms(4) by (auto simp: DataPipeline_init_def map_sum_id_eq_Inr split: prod.splits option.splits)
  from SystemCounterPipeline_counters [OF this] assms(5)
  have shape: "telemetry_shape counters = system_shape @ counter_shape (pl_counters p)
      @ [(''c_sys_uptime'', NumberType), (''c_sys_lifetime'', NumberType), (''timestamp'', NumberType)]"
    by (simp add: telemetry_shape_def)
  obtain kvs w' where kvs: "shape_of kvs = telemetry_shape counters" and "DataHandler_handle api alloc print ?f n w
      = (case print (JObject kvs) n of (ok, t) \<Rightarrow> if \<not> ok then (NoMem, w')
         else run_steps [http_step (hd_resp_set_type api ''application/json''), http_step (hd_resp_send api t)] w')"
    using DataHandler_handle_produces [OF assms(2) device_documents_produce(1) [OF assms(2,3,4,6)]] by blast
  moreover have "srv_endpoints_get s = [(''/api/v1/telemetry'', ?h)]"
    using assms(7) by (auto simp: DataHandler_init_def map_sum_id_eq_Inr Server_add_GET_def Server_init_def)
  moreover have "exact ''/api/v1/telemetry''" by (simp add: exact_def)
  with assms(1) have "uri_match ''/api/v1/telemetry'' ''/api/v1/telemetry''" unfolding httpd_match_def by blast
  ultimately have "Server_handle_request_get uri_match api s uri w = respond api (Some (Inr
      (case print (JObject kvs) n of (ok, t) \<Rightarrow> if \<not> ok then (NoMem, w')
         else run_steps [http_step (hd_resp_set_type api ''application/json''), http_step (hd_resp_send api t)] w')))"
    using Server_handle_request_get_found [of uri_match uri s "''/api/v1/telemetry''" ?h api w] assms(8)
    by (simp add: returns_def)
  with kvs shape show ?thesis by (intro exI [of _ kvs] exI [of _ w']) simp
qed

definition print_keys :: printer where
  "print_keys json n = (True, case json of JObject kvs \<Rightarrow> concat (map fst kvs) | _ \<Rightarrow> [])"

lemma DataPipeline_init_example:
  "\<exists>d p' w'. DataPipeline_init (\<lambda>w :: http_log list. (True, w)) values counters order idf_version info (\<lambda>_. 0)
     (\<lambda>_. no_storage) (pipelines_init sixteen_tasks, w) = Inr (d, p', w')"
proof -
  let ?st = "no_storage :: http_log list IStorage"
  let ?up = "\<lparr>pc_counter = system_counter (\<lambda>_. 0) ''c_sys_uptime'', pc_value = u64_of_bytes (u64_bytes 0)\<rparr>"
  let ?life = "\<lparr>pc_counter = system_counter (\<lambda>_. 0) ''c_sys_lifetime'', pc_value = u64_of_bytes (u64_bytes 0)\<rparr>"
  obtain p2 where "schedule_task (BasicPersistentCounter_run AccPersistentCounter_get ?st ?life)
      ''lifetime_counter_task'' hour (add_counter (counter_of MemPersistentCounter_get ?up)
        (add_reboot_handler (BasicPersistentCounter_handle_reboot MemPersistentCounter_get ?st ?up)
          ((pipelines_init sixteen_tasks)\<lparr>pl_storage_ids := {''system_counter''}\<rparr>))) = Inr p2"
    using schedule_task_ok [of hour _ "''lifetime_counter_task''"]
    by (force simp: pipelines_init_def sixteen_tasks_def add_reboot_handler_def add_counter_def hour_def
        minute_def second_def millisecond_def microsecond_def)
  then show ?thesis
    by (simp add: DataPipeline_init_def StorageBuilder_make_def pipelines_init_def SystemCounterPipeline_init_def
        system_counters Let_def MemPersistentCounter_init_def AccPersistentCounter_init_def
        BasicPersistentCounter_init_def no_storage_def)
qed

text \<open>The keys of a document are those of its shape.\<close>

lemma shape_of_keys: "map fst (shape_of kvs) = map fst kvs"
  by (simp add: comp_def split_def)

theorem telemetry_request_witness:
  "\<forall>vs order idf info.
     \<exists>d p' w1 s. DataPipeline_init (\<lambda>w :: http_log list. (True, w)) vs (pl_counters p') order idf info (\<lambda>_. 0)
       (\<lambda>_. no_storage) (pipelines_init sixteen_tasks, []) = Inr (d, p', w1)
     \<and> (\<exists>w'. Server_handle_request_get match_wildcard log_api s ''/api/v1/telemetry'' [] = Some (Inr
          (w' @ [LogType ''application/json'', LogSend (concat [''system_memory_heap'', ''system_memory_heap_min'',
             ''system_memory_heap_internal'', ''system_reset_reason'', ''c_sys_uptime'', ''c_sys_lifetime'',
             ''timestamp''])])))"
proof (intro allI)
  fix vs :: "http_log list \<Rightarrow> system_values" and order :: iteration and idf info
  let ?alloc = "\<lambda>w :: http_log list. (True, w)"
  let ?data = "\<lambda>counters. DataPipeline_init ?alloc vs counters order idf info (\<lambda>_. 0)
      (\<lambda>_. no_storage) (pipelines_init sixteen_tasks, [])"
  obtain d0 p' w1 where "?data [] = Inr (d0, p', w1)" using DataPipeline_init_example by blast
  then obtain d where d: "?data (pl_counters p') = Inr (d, p', w1)"
    by (auto simp: DataPipeline_init_def map_sum_id_eq_Inr split: option.splits prod.splits)
  obtain d' s1 where time: "TimePipeline_init log_api ?alloc (\<lambda>_. 42) (\<lambda>_ w. (True, w)) 0 (d, Server_init 80 64) = (d', s1)"
    by (cases "TimePipeline_init log_api ?alloc (\<lambda>_. 42) (\<lambda>_ w. (True, w)) 0 (d, Server_init 80 64)")
  let ?f = "FanoutFormatter_format (doc_telemetry d')"
  obtain s where s: "DataHandler_init log_api ?alloc print_keys ?f ''/api/v1/telemetry'' 512 (Server_init 80 64) = Inr s"
    by (simp add: DataHandler_init_def DynamicFormatter_init_def)
  have clock: "TimeOps_get_time ((\<lambda>_. 42) w) \<noteq> None" for w :: "http_log list" by (simp add: TimeOps_get_time_def)
  have path: "UriOps_parse_path (Some ''/api/v1/telemetry'') = ''/api/v1/telemetry''" by code_simp
  have none: "counter_shape (pl_counters (pipelines_init sixteen_tasks)) = []"
    by (simp add: counter_shape_def pipelines_init_def)
  obtain kvs w' where kvs: "shape_of kvs = system_shape
      @ [(''c_sys_uptime'', NumberType), (''c_sys_lifetime'', NumberType), (''timestamp'', NumberType)]"
    and r: "Server_handle_request_get match_wildcard log_api s ''/api/v1/telemetry'' [] = respond log_api (Some (Inr
      (case print_keys (JObject kvs) 512 of (ok, t) \<Rightarrow> if \<not> ok then (NoMem, w')
         else run_steps [http_step (hd_resp_set_type log_api ''application/json''),
           http_step (hd_resp_send log_api t)] w')))"
    using telemetry_request [OF match_wildcard_laws plenty_always clock d refl time s path, of "[]"]
    unfolding none by auto
  have "map fst kvs = map fst system_shape @ [''c_sys_uptime'', ''c_sys_lifetime'', ''timestamp'']"
    using shape_of_keys [of kvs] unfolding kvs by simp
  with r have "Server_handle_request_get match_wildcard log_api s ''/api/v1/telemetry'' [] = Some (Inr
      (w' @ [LogType ''application/json'', LogSend (concat (map fst system_shape
        @ [''c_sys_uptime'', ''c_sys_lifetime'', ''timestamp'']))]))"
    by (simp add: print_keys_def respond_def http_step_def log_api_def and_then_def)
  with d show "\<exists>d p' w1 s. ?data (pl_counters p') = Inr (d, p', w1)
     \<and> (\<exists>w'. Server_handle_request_get match_wildcard log_api s ''/api/v1/telemetry'' [] = Some (Inr
          (w' @ [LogType ''application/json'', LogSend (concat [''system_memory_heap'', ''system_memory_heap_min'',
             ''system_memory_heap_internal'', ''system_reset_reason'', ''c_sys_uptime'', ''c_sys_lifetime'',
             ''timestamp''])])))"
    by (rule_tac x = d in exI, rule_tac x = p' in exI, rule_tac x = w1 in exI, rule_tac x = s in exI)
      (auto simp: system_shape_def)
qed

end
