(* ===== verification/Locks.thy ===== *)
theory Locks
  imports Sync
begin

text \<open>
  The locks of \<open>components/ocs_core\<close>: ilocker.h as a contract, the recursive mutex (static_recursive_mutex.cpp) that
  protects the queues of the asynchronous function scheduler, the mutex for interrupts (static_mutex_isr.cpp) and
  the guard (lock_guard.cpp).
\<close>

section \<open>Recursive mutex\<close>

text \<open>
  Of the kernel, a recursive mutex: the task that owns it and how often it took it again. A take that blocks is \<open>None\<close>;
  \<open>expired\<close> says that the wait is over.
\<close>

type_synonym recursive_mutex = "(nat \<times> nat) option"

definition xSemaphoreTakeRecursive :: "nat \<Rightarrow> bool \<Rightarrow> recursive_mutex \<Rightarrow> (bool \<times> recursive_mutex) option" where
  "xSemaphoreTakeRecursive me expired m =
     (case m of
        None \<Rightarrow> Some (True, Some (me, 0))
      | Some (t, n) \<Rightarrow>
          if t = me then Some (True, Some (me, n + 1)) else if expired then Some (False, m) else None)"

definition xSemaphoreGiveRecursive :: "nat \<Rightarrow> recursive_mutex \<Rightarrow> bool \<times> recursive_mutex" where
  "xSemaphoreGiveRecursive me m =
     (case m of
        None \<Rightarrow> (False, None)
      | Some (t, n) \<Rightarrow> if t = me then (True, if n = 0 then None else Some (me, n - 1)) else (False, m))"

definition StaticRecursiveMutex_lock :: "nat \<Rightarrow> bool \<Rightarrow> recursive_mutex \<Rightarrow> (status_code \<times> recursive_mutex) option" where
  "StaticRecursiveMutex_lock me expired m =
     map_option (\<lambda>(ok, m'). (if \<not> ok then Error else OK, m')) (xSemaphoreTakeRecursive me expired m)"

definition StaticRecursiveMutex_unlock :: "nat \<Rightarrow> recursive_mutex step" where
  "StaticRecursiveMutex_unlock me m =
     (case xSemaphoreGiveRecursive me m of (ok, m') \<Rightarrow> (if \<not> ok then Error else OK, m'))"

section \<open>Mutex for interrupts\<close>

text \<open>
  The calls of the kernel for interrupts are parameters: whether they succeeded, and whether they woke a task of a
  higher priority.
\<close>

definition StaticMutexIsr_lock :: "('w \<Rightarrow> bool \<times> bool \<times> 'w) \<Rightarrow> 'w step" where
  "StaticMutexIsr_lock take_from_isr w =
     (case take_from_isr w of
        (ok, high_task_woken, w') \<Rightarrow> (if \<not> ok then Error else if \<not> high_task_woken then OK else IsrYield, w'))"

definition StaticMutexIsr_unlock :: "('w \<Rightarrow> bool \<times> bool \<times> 'w) \<Rightarrow> 'w step" where
  "StaticMutexIsr_unlock give_from_isr w =
     (case give_from_isr w of
        (ok, high_task_woken, w') \<Rightarrow> (if \<not> ok then Error else if \<not> high_task_woken then OK else IsrYield, w'))"

section \<open>Guard\<close>

text \<open>
  The scope of a guard: the constructor locks, the destructor unlocks, and both only log an error. \<open>None\<close> is a
  scope that does not end.
\<close>

definition LockGuard_scope ::
    "('m \<Rightarrow> (status_code \<times> 'm) option) \<Rightarrow> 'm step \<Rightarrow> ('m \<Rightarrow> ('a \<times> 'm) option) \<Rightarrow> 'm \<Rightarrow> ('a \<times> 'm) option" where
  "LockGuard_scope lock unlock body m =
     (case lock m of
        None \<Rightarrow> None
      | Some (_, m1) \<Rightarrow> (case body m1 of None \<Rightarrow> None | Some (x, m2) \<Rightarrow> Some (x, snd (unlock m2))))"

section \<open>The contract of a lock\<close>

text \<open>
  What \<open>ilocker.h\<close> promises of a lock with an owner. A body that leaves the lock as it finds it is \<open>quiet_body\<close>.
\<close>

definition quiet_body :: "('m \<Rightarrow> ('a \<times> 'm) option) \<Rightarrow> bool" where
  "quiet_body body \<longleftrightarrow> (\<forall>m x m'. body m = Some (x, m') \<longrightarrow> m' = m)"

lemma quiet_bodyD: "quiet_body body \<Longrightarrow> body m = Some (x, m') \<Longrightarrow> m' = m"
  unfolding quiet_body_def by blast

locale locker =
  fixes lock :: "nat \<Rightarrow> bool \<Rightarrow> 'm \<Rightarrow> (status_code \<times> 'm) option"
    and unlock :: "nat \<Rightarrow> 'm step"
    and owner :: "'m \<Rightarrow> nat option"
  assumes lock_free: "owner m = None
      \<Longrightarrow> \<exists>m'. lock me expired m = Some (OK, m') \<and> owner m' = Some me \<and> unlock me m' = (OK, m)"
    and lock_other: "owner m = Some t \<Longrightarrow> t \<noteq> me \<Longrightarrow> lock me expired m = (if expired then Some (Error, m) else None)"
    and unlock_other: "owner m \<noteq> Some me \<Longrightarrow> unlock me m = (Error, m)"
begin

abbreviation guarded where "guarded me expired \<equiv> LockGuard_scope (lock me expired) (unlock me)"

lemma guarded_free:
  assumes "owner m = None"
  shows "\<exists>m1. owner m1 = Some me
    \<and> (quiet_body body \<longrightarrow> guarded me expired body m = map_option (\<lambda>(x, _). (x, m)) (body m1))"
proof -
  obtain m1 where m1: "lock me expired m = Some (OK, m1)" "owner m1 = Some me" "unlock me m1 = (OK, m)"
    using lock_free [OF assms] by blast
  then show ?thesis
    by (intro exI [of _ m1]) (auto simp: LockGuard_scope_def dest: quiet_bodyD split: option.split)
qed

lemma guarded_waits: "owner m = Some t \<Longrightarrow> t \<noteq> me \<Longrightarrow> guarded me False body m = None"
  by (simp add: LockGuard_scope_def lock_other)

lemma guarded_timeout:
  assumes "owner m = Some t" and "t \<noteq> me" and "quiet_body body"
  shows "guarded me True body m = body m"
proof -
  have "unlock me m = (Error, m)" using unlock_other assms(1,2) by simp
  with assms show ?thesis
    by (auto simp: LockGuard_scope_def lock_other dest: quiet_bodyD split: option.split)
qed

end

text \<open>A lock its owner can take again.\<close>

locale recursive_locker = locker +
  assumes lock_again: "owner m = Some me
      \<Longrightarrow> \<exists>m'. lock me expired m = Some (OK, m') \<and> owner m' = Some me \<and> unlock me m' = (OK, m)"
begin

lemma guarded_again:
  assumes "owner m = Some me"
  shows "\<exists>m1. owner m1 = Some me
    \<and> (quiet_body body \<longrightarrow> guarded me expired body m = map_option (\<lambda>(x, _). (x, m)) (body m1))"
proof -
  obtain m1 where m1: "lock me expired m = Some (OK, m1)" "owner m1 = Some me" "unlock me m1 = (OK, m)"
    using lock_again [OF assms] by blast
  then show ?thesis
    by (intro exI [of _ m1]) (auto simp: LockGuard_scope_def dest: quiet_bodyD split: option.split)
qed

lemma guarded_quiet:
  assumes "owner m = None \<or> owner m = Some me" and "quiet_body body"
  shows "\<exists>m1. owner m1 = Some me \<and> guarded me expired body m = map_option (\<lambda>(x, _). (x, m)) (body m1)"
  using assms guarded_free [of m me body expired] guarded_again [of m me body expired] by blast

end

interpretation mutex: locker StaticMutex_lock StaticMutex_unlock rt_owner
  by unfold_locales
    (auto simp: StaticMutex_lock_def StaticMutex_unlock_def xSemaphoreTake_def xSemaphoreGive_def)

lemmas recursive_defs = StaticRecursiveMutex_lock_def StaticRecursiveMutex_unlock_def xSemaphoreTakeRecursive_def
  xSemaphoreGiveRecursive_def

lemma recursive_free: "StaticRecursiveMutex_lock me expired None = Some (OK, Some (me, 0))"
    "StaticRecursiveMutex_unlock me (Some (me, 0)) = (OK, None)"
  by (simp_all add: recursive_defs)

lemma recursive_again: "StaticRecursiveMutex_lock me expired (Some (me, n)) = Some (OK, Some (me, n + 1))"
    "StaticRecursiveMutex_unlock me (Some (me, n + 1)) = (OK, Some (me, n))"
  by (simp_all add: recursive_defs)

lemma recursive_other:
  "t \<noteq> me \<Longrightarrow> StaticRecursiveMutex_lock me expired (Some (t, n)) = (if expired then Some (Error, Some (t, n)) else None)"
  "map_option fst m \<noteq> Some me \<Longrightarrow> StaticRecursiveMutex_unlock me m = (Error, m)"
  by (auto simp: recursive_defs split: option.split)

interpretation recursive: recursive_locker StaticRecursiveMutex_lock StaticRecursiveMutex_unlock "map_option fst"
proof (unfold_locales, goal_cases)
  case (1 m me expired)
  then show ?case by (simp add: recursive_free)
next
  case (2 m t me expired)
  then show ?case by (auto simp: recursive_other)
next
  case (3 m me)
  then show ?case by (rule recursive_other)
next
  case (4 m me expired)
  then obtain n where "m = Some (me, n)" by auto
  then show ?case by (simp add: recursive_again del: One_nat_def add_Suc_right)
qed

section \<open>Nested guards\<close>

text \<open>\<open>n\<close> scopes of one task, one inside the other.\<close>

fun nested_guards :: "nat \<Rightarrow> nat \<Rightarrow> (recursive_mutex \<Rightarrow> ('a \<times> recursive_mutex) option)
    \<Rightarrow> recursive_mutex \<Rightarrow> ('a \<times> recursive_mutex) option" where
  "nested_guards me 0 body = body"
| "nested_guards me (Suc n) body =
     LockGuard_scope (StaticRecursiveMutex_lock me False) (StaticRecursiveMutex_unlock me) (nested_guards me n body)"

lemma quiet_nested_guards:
  "quiet_body body \<Longrightarrow> map_option fst m = None \<or> map_option fst m = Some me \<Longrightarrow> 0 < n \<Longrightarrow>
    \<exists>m1. map_option fst m1 = Some me \<and> nested_guards me n body m = map_option (\<lambda>(x, _). (x, m)) (body m1)"
proof (induction n arbitrary: m)
  case (Suc n)
  show ?case
  proof (cases "n = 0")
    case True
    with recursive.guarded_quiet [OF Suc.prems(2,1)] show ?thesis by simp
  next
    case False
    obtain m0 where lock: "StaticRecursiveMutex_lock me False m = Some (OK, m0)" "map_option fst m0 = Some me"
        "StaticRecursiveMutex_unlock me m0 = (OK, m)"
      using recursive.lock_free [of m me False] recursive.lock_again [of m me False] Suc.prems(2) by blast
    obtain m1 where m1: "map_option fst m1 = Some me"
        "nested_guards me n body m0 = map_option (\<lambda>(x, _). (x, m0)) (body m1)"
      using Suc.IH [OF Suc.prems(1), of m0] lock(2) False by auto
    with lock show ?thesis
      by (intro exI [of _ m1]) (auto simp: LockGuard_scope_def split: option.split)
  qed
qed simp



end
