(* ===== verification/Cadence.thy ===== *)
theory Cadence
  imports Scheduler
begin

text \<open>
  How late the tasks of the cooperative scheduler (\<open>components/ocs_scheduler/periodic_task_scheduler.cpp\<close>) can be: no
  task starves, when each takes a bounded time.
\<close>

section \<open>Bounds on the time of a pass\<close>

text \<open>A task takes at most \<open>D\<close> of its identifier.\<close>

definition prompt :: "('w \<Rightarrow> time) \<Rightarrow> (string \<Rightarrow> time) \<Rightarrow> 'w PTNode \<Rightarrow> bool" where
  "prompt clock D n \<longleftrightarrow> 0 \<le> D (ptn_id n) \<and> (\<forall>w. clock (snd (ptn_task n w)) \<le> clock w + D (ptn_id n))"

abbreviation pass_time :: "(string \<Rightarrow> time) \<Rightarrow> 'w PTNode list \<Rightarrow> time" where
  "pass_time D ns \<equiv> (\<Sum>n\<leftarrow>ns. D (ptn_id n))"

text \<open>The executions of a node follow each other in less than its interval and \<open>T\<close>.\<close>

definition steady :: "time \<Rightarrow> time \<Rightarrow> time list \<Rightarrow> bool" where
  "steady T i ts \<longleftrightarrow> successively (\<lambda>a b. b < a + i + T) ts"

lemma steady_snoc:
  "steady T i ts \<Longrightarrow> ts = [] \<or> t < List.last ts + i + T \<Longrightarrow> steady T i (ts @ [t])"
  by (auto simp: steady_def successively_append_iff)

text \<open>
  Before the turn of a node, \<open>b\<close> before it: it will be in time. After its turn, with \<open>r\<close> of the pass from there: it
  ran, and is not due or ran just now.
\<close>

definition in_time :: "time \<Rightarrow> (string \<times> time) list \<Rightarrow> time \<Rightarrow> time \<Rightarrow> 'w PTNode \<Rightarrow> bool" where
  "in_time T l now b n \<longleftrightarrow>
     (let ts = times (ptn_id n) l; i = rl_interval (ptn_limiter n)
      in steady T i ts \<and> (ts = [] \<or> now + b < List.last ts + i + T))"

definition ran :: "time \<Rightarrow> (string \<times> time) list \<Rightarrow> time \<Rightarrow> time \<Rightarrow> 'w PTNode \<Rightarrow> bool" where
  "ran T l now r n \<longleftrightarrow>
     (let ts = times (ptn_id n) l; i = rl_interval (ptn_limiter n)
      in steady T i ts \<and> ts \<noteq> [] \<and> now < List.last ts + i + r)"

fun all_in_time :: "(string \<Rightarrow> time) \<Rightarrow> time \<Rightarrow> (string \<times> time) list \<Rightarrow> time \<Rightarrow> time \<Rightarrow> 'w PTNode list \<Rightarrow> bool" where
  "all_in_time D T l now b [] = True"
| "all_in_time D T l now b (n # ns) = (in_time T l now b n \<and> all_in_time D T l now (b + D (ptn_id n)) ns)"

fun all_ran :: "(string \<Rightarrow> time) \<Rightarrow> time \<Rightarrow> (string \<times> time) list \<Rightarrow> time \<Rightarrow> 'w PTNode list \<Rightarrow> bool" where
  "all_ran D T l now [] = True"
| "all_ran D T l now (n # ns) = (ran T l now (pass_time D (n # ns)) n \<and> all_ran D T l now ns)"

lemma all_in_time_mono:
  assumes "now' + b' \<le> now + b" and "\<forall>n\<in>set ns. times (ptn_id n) l' = times (ptn_id n) l"
    and "all_in_time D T l now b ns"
  shows "all_in_time D T l' now' b' ns"
  using assms
proof (induction ns arbitrary: b b')
  case (Cons n ns)
  have "all_in_time D T l' now' (b' + D (ptn_id n)) ns"
    using Cons.prems by (intro Cons.IH [of "b' + D (ptn_id n)" "b + D (ptn_id n)"]) simp_all
  with Cons.prems show ?case by (auto simp: in_time_def Let_def)
qed simp

lemma all_ran_in_time:
  assumes "now' \<le> now + d" and "b + pass_time D ns + d \<le> T" and "all_ran D T l now ns"
  shows "all_in_time D T l now' b ns"
  using assms(2,3)
proof (induction ns arbitrary: b)
  case (Cons n ns)
  then show ?case using assms(1) by (auto simp: in_time_def ran_def Let_def algebra_simps)
qed simp

lemma pass_time_keys:
  assumes "map node_key ns' = map node_key ns"
  shows "pass_time D ns' = pass_time D ns"
proof -
  have "map D (map ptn_id ns') = map D (map ptn_id ns)" using node_key_parts(1) [OF assms] by simp
  then show ?thesis by (simp add: comp_def)
qed

lemma prompt_keys:
  assumes "map node_key ns' = map node_key ns" and "\<forall>n\<in>set ns. prompt clock D n"
  shows "\<forall>n\<in>set ns'. prompt clock D n"
proof
  fix n' assume "n' \<in> set ns'"
  then have "node_key n' \<in> set (map node_key ns)" using assms(1) by (metis image_eqI set_map)
  then obtain n where "n \<in> set ns" "node_key n' = node_key n" by auto
  then show "prompt clock D n'" using assms(2) by (auto simp: node_key_def prompt_def)
qed

section \<open>One node, one pass\<close>

lemma due_iff_last:
  assumes "node_inv l now n"
  shows "due now n \<longleftrightarrow> times (ptn_id n) l = []
    \<or> List.last (times (ptn_id n) l) + rl_interval (ptn_limiter n) \<le> now"
proof -
  have "rl_start (ptn_limiter n) = 0 \<longleftrightarrow> times (ptn_id n) l = []"
    using assms last_in_set [of "times (ptn_id n) l"] unfolding node_inv_def Let_def
    by (metis less_irrefl)
  then show ?thesis using assms by (auto simp: due_def node_inv_def Let_def)
qed

lemma PTNode_run_in_time:
  assumes "logs clock log n" and "node_inv (log w) (clock w) n" and "0 < clock w" and "prompt clock D n"
    and "in_time T (log w) (clock w) 0 n" and "PTNode_run clock n w = (c, n', w')"
  shows "clock w' \<le> clock w + D (ptn_id n) \<and> ran T (log w') (clock w') (D (ptn_id n)) n'"
proof -
  note spec = PTNode_run_spec [OF assms(1,2,3,6)]
  have key: "ptn_id n' = ptn_id n" "rl_interval (ptn_limiter n') = rl_interval (ptn_limiter n)"
    using spec by (simp_all add: node_key_def)
  have i: "0 < rl_interval (ptn_limiter n)" using assms(2) by (simp add: node_inv_def Let_def)
  have time: "clock w' \<le> clock w + D (ptn_id n)"
    using assms(4,6) by (auto simp: PTNode_run_def prompt_def Let_def split: prod.splits if_splits) (metis snd_conv)+
  show ?thesis
  proof (cases "due (clock w) n")
    case True
    then have "times (ptn_id n) (log w') = times (ptn_id n) (log w) @ [clock w]" using spec by (simp add: times_snoc)
    with assms(5) time i key show ?thesis
      by (auto simp: ran_def in_time_def Let_def intro!: steady_snoc)
  next
    case False
    with spec due_iff_last [OF assms(2)] assms(5) time key show ?thesis
      by (auto simp: ran_def in_time_def Let_def)
  qed
qed

lemma run_nodes_in_time:
  assumes "\<forall>n\<in>set ns. logs clock log n \<and> prompt clock D n \<and> node_inv (log w) (clock w) n"
    and "distinct (map ptn_id ns)" and "0 < clock w"
    and "all_in_time D T (log w) (clock w) 0 ns"
    and "PeriodicTaskScheduler_run_nodes clock ns w = (ns', w')"
  shows "clock w' \<le> clock w + pass_time D ns \<and> all_ran D T (log w') (clock w') ns'"
  using assms
proof (induction ns arbitrary: w ns')
  case Nil
  then show ?case by simp
next
  case (Cons n ns)
  obtain c n' w1 where n: "PTNode_run clock n w = (c, n', w1)" by (metis prod_cases3)
  obtain ns1 where ns: "PeriodicTaskScheduler_run_nodes clock ns w1 = (ns1, w')" "ns' = n' # ns1"
    using Cons.prems(5) n by (auto split: prod.splits)
  have spec: "node_inv (log w1) (clock w1) n'" "node_key n' = node_key n" "clock w \<le> clock w1"
    "log w1 = (if due (clock w) n then log w @ [(ptn_id n, clock w)] else log w)"
    using PTNode_run_spec [of clock log n w c n' w1] Cons.prems(1,3) n by auto
  have now: "clock w1 \<le> clock w + D (ptn_id n)" "ran T (log w1) (clock w1) (D (ptn_id n)) n'"
    using PTNode_run_in_time [of clock log n w D T c n' w1] Cons.prems(1,3,4) n by auto
  have same: "\<forall>m\<in>set ns. times (ptn_id m) (log w1) = times (ptn_id m) (log w)"
    using spec(4) Cons.prems(2) by (auto simp: times_snoc)
  have invs: "\<forall>m\<in>set ns. logs clock log m \<and> prompt clock D m \<and> node_inv (log w1) (clock w1) m"
  proof
    fix m assume m: "m \<in> set ns"
    with Cons.prems(1) have "logs clock log m" "prompt clock D m" "node_inv (log w) (clock w) m" by auto
    with node_inv_mono [of "log w" "clock w" m "log w1" "clock w1"] same m spec(3)
    show "logs clock log m \<and> prompt clock D m \<and> node_inv (log w1) (clock w1) m" by blast
  qed
  have dist: "distinct (map ptn_id ns)" using Cons.prems(2) by simp
  have pos: "0 < clock w1" using Cons.prems(3) spec(3) by linarith
  have "all_in_time D T (log w) (clock w) (D (ptn_id n)) ns" using Cons.prems(4) by simp
  with all_in_time_mono [OF _ same] now(1) have wait: "all_in_time D T (log w1) (clock w1) 0 ns" by simp
  have IH: "clock w' \<le> clock w1 + pass_time D ns \<and> all_ran D T (log w') (clock w') ns1"
    using Cons.IH [OF invs _ _ wait ns(1)] dist pos by blast
  have rest: "map node_key ns1 = map node_key ns \<and> (\<forall>k. k \<notin> ptn_id ` set ns \<longrightarrow> times k (log w') = times k (log w1))"
    using run_nodes_spec [OF _ dist pos ns(1), of log] invs by blast
  have id: "ptn_id n' = ptn_id n" using spec(2) by (simp add: node_key_def)
  have sum: "pass_time D ns1 = pass_time D ns" using rest pass_time_keys by blast
  have "times (ptn_id n') (log w') = times (ptn_id n') (log w1)" using rest id Cons.prems(2) by auto
  with now(2) IH id sum have "ran T (log w') (clock w') (pass_time D (n' # ns1)) n'"
    by (auto simp: ran_def Let_def)
  with now(1) IH ns(2) show ?case by simp
qed

section \<open>Every task in its interval\<close>

text \<open>The delay at the end of a pass takes at most \<open>d\<close>.\<close>

definition waits_at_most :: "('w \<Rightarrow> time) \<Rightarrow> 'w IDelayEstimator \<Rightarrow> (u32 \<Rightarrow> 'w \<Rightarrow> 'w) \<Rightarrow> time \<Rightarrow> bool" where
  "waits_at_most clock est vTaskDelay d \<longleftrightarrow> (\<forall>w. clock (de_begin est w) = clock w)
     \<and> (\<forall>w. clock (vTaskDelay (fst (de_estimate est w)) (snd (de_estimate est w))) \<le> clock w + d)"

lemma run_in_time:
  assumes "waits_quietly clock log est vTaskDelay" and "waits_at_most clock est vTaskDelay d"
    and "pts_inv clock log s w" and "\<forall>n\<in>set (pts_nodes s). prompt clock D n"
    and "T = pass_time D (pts_nodes s) + d"
    and "all_in_time D T (log w) (clock w) 0 (pts_nodes s)"
    and "PeriodicTaskScheduler_run clock est vTaskDelay (s, w) = (c, (s', w'))"
  shows "all_in_time D T (log w') (clock w') 0 (pts_nodes s')
    \<and> (\<forall>n\<in>set (pts_nodes s'). times (ptn_id n) (log w') \<noteq> [])"
proof -
  let ?w1 = "de_begin est w"
  obtain ns w2 where r: "PeriodicTaskScheduler_run_nodes clock (pts_nodes s) ?w1 = (ns, w2)" by fastforce
  obtain k w3 where e: "de_estimate est w2 = (k, w3)" by fastforce
  have s': "pts_nodes s' = ns" "w' = vTaskDelay k w3"
    using assms(7) r e by (auto simp: PeriodicTaskScheduler_run_def Let_def)
  have q: "log ?w1 = log w" "clock ?w1 = clock w" "log w' = log w2" "clock w' \<le> clock w2 + d"
  proof -
    show "log ?w1 = log w" "clock ?w1 = clock w"
      using assms(1,2) by (simp_all add: waits_quietly_def quiet_def waits_at_most_def)
    have "log w3 = log w2" using assms(1) e unfolding waits_quietly_def quiet_def by (metis snd_conv)
    then show "log w' = log w2" using assms(1) s'(2) by (simp add: waits_quietly_def quiet_def)
    show "clock w' \<le> clock w2 + d"
      using assms(2) e s'(2) unfolding waits_at_most_def by (metis fst_conv snd_conv)
  qed
  have inv: "\<forall>n\<in>set (pts_nodes s). logs clock log n \<and> prompt clock D n \<and> node_inv (log ?w1) (clock ?w1) n"
    "distinct (map ptn_id (pts_nodes s))" "0 < clock ?w1"
    using assms(3,4) q(1,2) by (simp_all add: pts_inv_def pts_ids_def)
  have "all_in_time D T (log ?w1) (clock ?w1) 0 (pts_nodes s)" using assms(6) q(1,2) by simp
  from run_nodes_in_time [OF inv this r] have ran: "all_ran D T (log w2) (clock w2) ns" by simp
  have "\<forall>n\<in>set (pts_nodes s). logs clock log n \<and> node_inv (log ?w1) (clock ?w1) n" using inv(1) by blast
  from run_nodes_spec [OF this inv(2,3) r] have sum: "pass_time D ns = pass_time D (pts_nodes s)"
    using pass_time_keys by blast
  have "all_in_time D T (log w2) (clock w') 0 ns"
    by (rule all_ran_in_time [OF q(4) _ ran]) (simp add: sum assms(5))
  moreover have "all_ran D T l now ns \<Longrightarrow> n \<in> set ns \<Longrightarrow> times (ptn_id n) l \<noteq> []" for l now and n and ns :: "'a PTNode list"
    by (induction ns) (auto simp: ran_def Let_def)
  then have "\<forall>n\<in>set ns. times (ptn_id n) (log w2) \<noteq> []" using ran by blast
  ultimately show ?thesis using s'(1) q(3) by simp
qed

lemma all_in_time_member:
  "all_in_time D T l now b ns \<Longrightarrow> 0 \<le> b \<Longrightarrow> \<forall>n\<in>set ns. 0 \<le> D (ptn_id n) \<Longrightarrow> n \<in> set ns \<Longrightarrow>
    in_time T l now 0 n"
  by (induction ns arbitrary: b) (force simp: in_time_def Let_def)+

text \<open>
  C5. No task of the cooperative scheduler starves. When every task takes at most \<open>D\<close> of its identifier, whatever it
  returns, and the delay at most \<open>d\<close>, then after any number of passes every task ran, it follows itself in less than
  its interval and one pass of all the tasks with the delay, and its last execution is not longer ago than that.
\<close>

theorem PeriodicTaskScheduler_no_starvation:
  assumes "waits_quietly clock log est vTaskDelay" and "waits_at_most clock est vTaskDelay d"
    and "0 < clock w" and "log w = []" and "distinct (pts_ids s)"
    and "\<forall>n \<in> set (pts_nodes s). logs clock log n \<and> prompt clock D n \<and> 0 < rl_interval (ptn_limiter n)
           \<and> rl_start (ptn_limiter n) = 0"
    and "((\<lambda>sw. snd (PeriodicTaskScheduler_run clock est vTaskDelay sw)) ^^ Suc m) (s, w) = (s1, w1)"
    and "n \<in> set (pts_nodes s1)"
  shows "let ts = times (ptn_id n) (log w1); bound = rl_interval (ptn_limiter n) + pass_time D (pts_nodes s) + d
    in ts \<noteq> [] \<and> successively (\<lambda>a b. b < a + bound) ts \<and> clock w1 < List.last ts + bound"
proof -
  let ?run = "\<lambda>sw. snd (PeriodicTaskScheduler_run clock est vTaskDelay sw)"
  let ?T = "pass_time D (pts_nodes s) + d"
  have i0: "pts_inv clock log s w" using assms(3-6) by (simp add: pts_inv_def node_inv_def times_def)
  have "all_in_time D ?T [] now b ns" for now b and ns :: "'a PTNode list"
    by (induction ns arbitrary: b) (auto simp: in_time_def steady_def times_def)
  then have t0: "all_in_time D ?T (log w) (clock w) 0 (pts_nodes s)" using assms(4) by simp
  have step: "\<exists>s' w'. (?run ^^ k) (s, w) = (s', w') \<and> pts_inv clock log s' w'
      \<and> map node_key (pts_nodes s') = map node_key (pts_nodes s)
      \<and> all_in_time D ?T (log w') (clock w') 0 (pts_nodes s')
      \<and> (0 < k \<longrightarrow> (\<forall>n\<in>set (pts_nodes s'). times (ptn_id n) (log w') \<noteq> []))" for k
  proof (induction k)
    case 0
    show ?case using i0 t0 by simp
  next
    case (Suc k)
    then obtain s' w' where k: "(?run ^^ k) (s, w) = (s', w')" "pts_inv clock log s' w'"
      "map node_key (pts_nodes s') = map node_key (pts_nodes s)"
      "all_in_time D ?T (log w') (clock w') 0 (pts_nodes s')" by blast
    obtain c s2 w2 where r: "PeriodicTaskScheduler_run clock est vTaskDelay (s', w') = (c, (s2, w2))"
      by (metis prod_cases3)
    have p: "\<forall>n\<in>set (pts_nodes s'). prompt clock D n"
      using prompt_keys [OF k(3)] assms(6) by blast
    have T: "?T = pass_time D (pts_nodes s') + d" using pass_time_keys [OF k(3)] by simp
    have "pts_inv clock log s2 w2 \<and> map node_key (pts_nodes s2) = map node_key (pts_nodes s)"
      using PeriodicTaskScheduler_run_spec [OF assms(1) k(2) r] k(3) by simp
    with run_in_time [OF assms(1,2) k(2) p T k(4) r] k(1) r show ?case by simp
  qed
  obtain s' w' where k: "(?run ^^ Suc m) (s, w) = (s', w')" "map node_key (pts_nodes s') = map node_key (pts_nodes s)"
    "all_in_time D ?T (log w') (clock w') 0 (pts_nodes s')"
    "\<forall>n\<in>set (pts_nodes s'). times (ptn_id n) (log w') \<noteq> []"
    using step [of "Suc m"] by blast
  have "s' = s1" "w' = w1" using k(1) assms(7) by simp_all
  moreover have "\<forall>n\<in>set (pts_nodes s'). 0 \<le> D (ptn_id n)"
    using prompt_keys [OF k(2)] assms(6) by (metis prompt_def)
  ultimately have "in_time ?T (log w1) (clock w1) 0 n" "times (ptn_id n) (log w1) \<noteq> []"
    using all_in_time_member [OF k(3)] k(4) assms(8) by auto
  then show ?thesis by (simp add: in_time_def steady_def Let_def add.assoc)
qed

theorem PeriodicTaskScheduler_no_starvation_witness:
  "\<exists>s1 w1. PeriodicTaskScheduler_run fst (ConstantDelayEstimator_init 5) (\<lambda>d (t, l). (t + 1000 * uint d, l))
      (log_scheduler, (1, [])) = (OK, (s1, w1))
    \<and> times ''b'' (snd w1) \<noteq> [] \<and> fst w1 < List.last (times ''b'' (snd w1)) + (3000 + 4 + 5000)"
proof -
  let ?delay = "\<lambda>(d :: u32) (t, l :: (string \<times> time) list). (t + 1000 * uint d, l)"
  let ?run = "PeriodicTaskScheduler_run fst (ConstantDelayEstimator_init 5) ?delay"
  obtain c s1 w1 where r: "?run (log_scheduler, (1, [])) = (c, (s1, w1))" by (metis prod_cases3)
  then have c: "c = OK" by (auto simp: PeriodicTaskScheduler_run_def Let_def split: prod.splits)
  have nodes: "(log_node ''b'' 3000)\<lparr>ptn_limiter := \<lparr>rl_interval = 3000, rl_start = 3\<rparr>\<rparr> \<in> set (pts_nodes s1)"
    using r by (auto simp: PeriodicTaskScheduler_run_def log_scheduler_def log_node_def PTNode_run_def
        RateLimiter_allow_def ConstantDelayEstimator_init_def Let_def)
  have "waits_quietly fst snd (ConstantDelayEstimator_init 5) ?delay"
    "waits_at_most fst (ConstantDelayEstimator_init 5) ?delay 5000" "distinct (pts_ids log_scheduler)"
    by (simp_all add: waits_quietly_def waits_at_most_def quiet_def ConstantDelayEstimator_init_def log_scheduler_def
        log_node_def pts_ids_def split_beta)
  moreover have "\<forall>n \<in> set (pts_nodes log_scheduler). logs fst snd n \<and> prompt fst (\<lambda>_. 2) n
      \<and> 0 < rl_interval (ptn_limiter n) \<and> rl_start (ptn_limiter n) = 0"
    by (simp add: log_scheduler_def log_node_def logs_def prompt_def split_beta)
  moreover have "((\<lambda>sw. snd (?run sw)) ^^ Suc 0) (log_scheduler, (1, [])) = (s1, w1)" using r by simp
  ultimately have "let ts = times ''b'' (snd w1); bound = 3000 + pass_time (\<lambda>_. 2) (pts_nodes log_scheduler) + 5000
    in ts \<noteq> [] \<and> successively (\<lambda>a b. b < a + bound) ts \<and> fst w1 < List.last ts + bound"
    using PeriodicTaskScheduler_no_starvation [of fst snd "ConstantDelayEstimator_init 5" ?delay 5000 "(1, [])"
        log_scheduler "\<lambda>_. 2" 0 s1 w1, OF _ _ _ _ _ _ _ nodes]
    by (simp add: log_node_def)
  with r c show ?thesis by (auto simp: Let_def log_scheduler_def)
qed

end
