(* ===== verification/Requests.thy ===== *)
theory Requests
  imports Firmware
begin

text \<open>
  A request that hands a function to the scheduler of another task and waits for it: \<open>SHT41Handler_handle_operation\<close>
  (\<open>ocs_pipeline/httpserver/sht41_handler.cpp\<close>) over the queue of functions (\<open>ocs_scheduler/async_func_scheduler.cpp\<close>),
  while other tasks add functions and the main task runs them on the sensor (\<open>ocs_sensor/sht41/sensor.cpp\<close>).
\<close>

section \<open>The executions of the queue\<close>

text \<open>
  To speak about executions, a function is assumed to leave its name and its code in a log that nothing else touches.
\<close>

type_synonym 'f executions = "('f \<times> status_code) list"

abbreviation queue_of :: "('f, 'w) afs_state \<Rightarrow> ('f \<times> nat) list" where
  "queue_of st \<equiv> afs_write_queue (fst st)"

abbreviation futures_of :: "('f, 'w) afs_state \<Rightarrow> futures" where
  "futures_of st \<equiv> fst (snd st)"

definition exec_logs :: "('f \<Rightarrow> ('f, 'w) afs_state step) \<Rightarrow> ('w \<Rightarrow> 'f executions) \<Rightarrow> bool" where
  "exec_logs exec lg \<longleftrightarrow>
     (\<forall>f st. lg (snd (snd (snd (exec f st)))) = lg (snd (snd st)) @ [(f, fst (exec f st))])"

text \<open>The steps of the other tasks, and of what leaves the queue and the log alone.\<close>

inductive afs_env :: "('f \<Rightarrow> ('f, 'w) afs_state step) \<Rightarrow> ('w \<Rightarrow> 'f executions) \<Rightarrow> ('f, 'w) afs_state
    \<Rightarrow> ('f, 'w) afs_state \<Rightarrow> bool"
  for exec :: "'f \<Rightarrow> ('f, 'w) afs_state step" and lg :: "'w \<Rightarrow> 'f executions" and st :: "('f, 'w) afs_state"
where
  env_same: "afs_env exec lg st st"
| env_add: "afs_env exec lg st st' \<Longrightarrow> afs_env exec lg st (snd (AsyncFuncScheduler_add alloc f st'))"
| env_run: "afs_env exec lg st st' \<Longrightarrow> afs_env exec lg st (snd (AsyncFuncScheduler_run exec st'))"
| env_other: "afs_env exec lg st (s, h, w) \<Longrightarrow> lg w' = lg w \<Longrightarrow> afs_env exec lg st (s, h, w')"

text \<open>The futures are the codes of the executions, and then those of the queue.\<close>

definition logged :: "('f \<times> nat) list \<Rightarrow> futures \<Rightarrow> 'f executions \<Rightarrow> bool" where
  "logged q h l \<longleftrightarrow> length l + length q = length h \<and> map snd q = [length l..<length h]
     \<and> (\<forall>j < length l. h ! j = snd (l ! j))"

definition logged_inv :: "('w \<Rightarrow> 'f executions) \<Rightarrow> ('f, 'w) afs_state \<Rightarrow> bool" where
  "logged_inv lg st \<longleftrightarrow> afs_inv st \<and> logged (queue_of st) (futures_of st) (lg (snd (snd st)))"

lemma logged_extends:
  assumes "logged (q @ p) h l" and "map snd new = [length h..<length h + length new]"
  shows "logged (q @ p @ new) (h @ replicate (length new) Last) l"
proof -
  have "map snd (q @ p @ new) = [length l..<length h] @ [length h..<length h + length new]"
  proof -
    have "map snd (q @ p @ new) = map snd (q @ p) @ map snd new" by simp
    then show ?thesis using assms unfolding logged_def by metis
  qed
  also have "\<dots> = [length l..<length h + length new]"
    using assms(1) by (intro upt_concat) (simp_all add: logged_def)
  finally show ?thesis using assms(1) by (auto simp: logged_def nth_append)
qed

lemma logged_notify:
  assumes "logged ((f, i) # q) h l"
  shows "i = length l" and "logged q (h[i := code]) (l @ [(f, code)])"
proof -
  have "[length l..<length h] = length l # [Suc (length l)..<length h]"
    using assms by (intro upt_conv_Cons) (simp add: logged_def)
  with assms show i: "i = length l" by (simp add: logged_def)
  with assms \<open>[length l..<length h] = _\<close> show "logged q (h[i := code]) (l @ [(f, code)])"
    by (auto simp: logged_def nth_append nth_list_update)
qed

lemma logged_run_loop:
  assumes "func_ok exec" and "exec_logs exec lg" and "logged (q @ afs_write_queue s) h (lg w)"
    and "length (afs_write_queue s) \<le> afs_max_event_count s"
    and "fold (AsyncFuncScheduler_call exec) q (s, h, w) = (s', h', w')"
  shows "logged (afs_write_queue s') h' (lg w')
    \<and> (\<exists>codes. length codes = length q \<and> lg w' = lg w @ zip (map fst q) codes)"
  using assms(3-)
proof (induction q arbitrary: s h w)
  case Nil
  then show ?case by auto
next
  case (Cons fi q)
  obtain f i where fi: "fi = (f, i)" by fastforce
  obtain code s1 h1 w1 where e: "exec f (s, h, w) = (code, (s1, h1, w1))" by (metis prod_cases4)
  have x: "afs_extends (s, h, w) (s1, h1, w1)"
    using assms(1) e unfolding func_ok_def by (metis snd_conv)
  have l: "lg w1 = lg w @ [(f, code)]"
    using assms(2) e unfolding exec_logs_def by (metis fst_conv snd_conv)
  from x obtain new where new: "afs_write_queue s1 = afs_write_queue s @ new"
    "h1 = h @ replicate (length new) Last" "map snd new = [length h..<length h + length new]"
    "length (afs_write_queue s1) \<le> afs_max_event_count s1"
    using Cons.prems(2) by (auto simp: afs_extends_def)
  have "logged ((f, i) # q @ afs_write_queue s1) h1 (lg w)"
    using logged_extends [of "(f, i) # q" "afs_write_queue s" h "lg w" new] Cons.prems(1) new fi by simp
  note sv = logged_notify(2) [OF this, of code, folded l]
  have "AsyncFuncScheduler_call exec (f, i) (s, h, w) = (s1, h1[i := code], w1)"
    using e by (simp add: AsyncFuncScheduler_call_def Future_notify_def)
  then have "fold (AsyncFuncScheduler_call exec) q (s1, h1[i := code], w1) = (s', h', w')"
    using Cons.prems(3) fi by simp
  from Cons.IH [OF sv new(4) this] obtain codes where
    c: "logged (afs_write_queue s') h' (lg w')" "length codes = length q" "lg w' = lg w1 @ zip (map fst q) codes"
    by blast
  then show ?case using l fi by (intro conjI exI [of _ "code # codes"]) simp_all
qed

text \<open>The function of a future is either waiting, or has been executed at the position of the future.\<close>

definition accounted :: "('w \<Rightarrow> 'f executions) \<Rightarrow> 'f \<Rightarrow> nat \<Rightarrow> ('f, 'w) afs_state \<Rightarrow> bool" where
  "accounted lg f i st \<longleftrightarrow> (f, i) \<in> set (queue_of st)
     \<or> i < length (lg (snd (snd st))) \<and> fst (lg (snd (snd st)) ! i) = f"

lemma accounted_run:
  assumes "logged q h l" and "(f, i) \<in> set q" and "length codes = length q"
  shows "i < length (l @ zip (map fst q) codes) \<and> fst ((l @ zip (map fst q) codes) ! i) = f"
proof -
  obtain j where j: "j < length q" "q ! j = (f, i)" using assms(2) by (metis in_set_conv_nth)
  have "map snd q ! j = [length l..<length h] ! j" using assms(1) by (simp add: logged_def)
  then have "i = length l + j" using j assms(1) by (simp add: logged_def)
  then show ?thesis using j assms(3) by (simp add: nth_append)
qed

lemma logged_run:
  assumes "func_ok exec" and "exec_logs exec lg" and "logged_inv lg st"
  shows "logged_inv lg (snd (AsyncFuncScheduler_run exec st))
    \<and> (\<exists>codes. length codes = length (queue_of st)
       \<and> lg (snd (snd (snd (AsyncFuncScheduler_run exec st))))
         = lg (snd (snd st)) @ zip (map fst (queue_of st)) codes)"
proof -
  obtain s h w where st: "st = (s, h, w)" by (metis prod_cases3)
  obtain c s' h' w' where r: "AsyncFuncScheduler_run exec st = (c, (s', h', w'))" by (metis prod_cases4)
  have inv: "afs_inv (s, h, w)" and l: "logged (afs_write_queue s) h (lg w)"
    using assms(3) by (simp_all add: logged_inv_def st)
  have inv': "afs_inv (s', h', w')"
    using AsyncFuncScheduler_run_inv [OF assms(1) inv] r st by blast
  show ?thesis
  proof (cases "afs_write_queue s = []")
    case True
    then have "s' = s \<and> h' = h \<and> w' = w" using r by (simp add: AsyncFuncScheduler_run_def st)
    then show ?thesis using assms(3) r True by (simp add: st)
  next
    case False
    let ?s1 = "s\<lparr>afs_write_queue := [], afs_read_queue := afs_write_queue s\<rparr>"
    have rd: "afs_read_queue s = []" using inv by (simp add: afs_inv_def)
    obtain s2 where s2: "fold (AsyncFuncScheduler_call exec) (afs_write_queue s) (?s1, h, w) = (s2, h', w')"
        "s' = s2\<lparr>afs_read_queue := []\<rparr>"
      using r False rd by (auto simp: AsyncFuncScheduler_run_def st Let_def split: prod.splits)
    have "logged (afs_write_queue s @ afs_write_queue ?s1) h (lg w)" and
      "length (afs_write_queue ?s1) \<le> afs_max_event_count ?s1"
      using l by simp_all
    from logged_run_loop [OF assms(1,2) this s2(1)] show ?thesis
      using inv' s2(2) r by (simp add: logged_inv_def st)
  qed
qed

lemma logged_add:
  assumes "logged_inv lg st"
  shows "logged_inv lg (snd (AsyncFuncScheduler_add alloc f st))"
proof -
  obtain s h w where st: "st = (s, h, w)" by (metis prod_cases3)
  have l: "logged (afs_write_queue s @ []) h (lg w)" using assms by (simp add: logged_inv_def st)
  have "afs_inv (snd (AsyncFuncScheduler_add alloc f st))"
    by (rule AsyncFuncScheduler_add_inv) (use assms in \<open>simp add: logged_inv_def\<close>)
  then show ?thesis
    using logged_extends [OF l, of "[(f, length h)]"] assms
    by (auto simp: logged_inv_def AsyncFuncScheduler_add_def Future_new_def st)
qed

lemma AsyncFuncScheduler_add_world:
  "snd (snd (snd (AsyncFuncScheduler_add alloc f st))) = snd (snd st)"
  by (auto simp: AsyncFuncScheduler_add_def Future_new_def split: prod.splits)

lemma AsyncFuncScheduler_add_queue:
  "set (queue_of st) \<subseteq> set (queue_of (snd (AsyncFuncScheduler_add alloc f st)))"
  by (auto simp: AsyncFuncScheduler_add_def Future_new_def split: prod.splits)

lemma afs_env_keeps:
  assumes "func_ok exec" and "exec_logs exec lg" and "logged_inv lg st" and "afs_env exec lg st st'"
  shows "logged_inv lg st' \<and> (\<exists>new. lg (snd (snd st')) = lg (snd (snd st)) @ new)
    \<and> (\<forall>f i. accounted lg f i st \<longrightarrow> accounted lg f i st')"
  using assms(4)
proof (induction rule: afs_env.induct)
  case env_same
  then show ?case using assms(3) by simp
next
  case (env_add st' alloc f)
  then show ?case
    using logged_add [of lg st' alloc f] AsyncFuncScheduler_add_queue [of st' alloc f]
    by (auto simp: accounted_def AsyncFuncScheduler_add_world)
next
  case (env_run st')
  obtain codes where codes: "length codes = length (queue_of st')"
    "lg (snd (snd (snd (AsyncFuncScheduler_run exec st')))) = lg (snd (snd st')) @ zip (map fst (queue_of st')) codes"
    "logged_inv lg (snd (AsyncFuncScheduler_run exec st'))"
    using logged_run [OF assms(1,2)] env_run.IH by blast
  have "accounted lg f i (snd (AsyncFuncScheduler_run exec st'))" if "accounted lg f i st'" for f i
    using that accounted_run [of "queue_of st'" "futures_of st'" "lg (snd (snd st'))" f i codes] env_run.IH codes(1,2)
    by (auto simp: accounted_def logged_inv_def nth_append)
  then show ?case using env_run.IH codes(2,3) by auto
next
  case (env_other s h w w')
  then show ?case by (auto simp: logged_inv_def afs_inv_def accounted_def)
qed

lemma afs_env_trans: "afs_env exec lg b c \<Longrightarrow> afs_env exec lg a b \<Longrightarrow> afs_env exec lg a c"
  by (induction rule: afs_env.induct) (auto intro: afs_env.intros)

lemma afs_env_reflp: "reflp (afs_env exec lg)" and afs_env_transp: "transp (afs_env exec lg)"
  by (auto intro: reflpI env_same transpI afs_env_trans)

text \<open>A wait, and a sequence of calls, make the steps that their parts make.\<close>

lemma Future_wait_steps:
  assumes "reflp R" and "transp R" and "\<And>st. R st (snd (cond_wait st))"
    and "Future_wait code cond_wait st = Some (c, st')"
  shows "R st st' \<and> (c = OK \<longrightarrow> code st' \<noteq> Last)"
proof -
  let ?P = "\<lambda>code cond_wait st r. (\<forall>st. R st (snd (cond_wait st))) \<longrightarrow>
    R st (snd r) \<and> (fst r = OK \<longrightarrow> code (snd r) \<noteq> Last)"
  have "?P code cond_wait st (c, st')"
  proof (rule Future_wait.raw_induct [where P = ?P, OF _ assms(4)])
    fix Future_wait :: "('a \<Rightarrow> status_code) \<Rightarrow> 'a step \<Rightarrow> 'a \<Rightarrow> (status_code \<times> 'a) option" and code cond_wait st r
    assume IH: "\<And>code cond_wait st r. Future_wait code cond_wait st = Some r \<Longrightarrow> ?P code cond_wait st r"
      and r: "(if code st = Last then (case cond_wait st of (c, st') \<Rightarrow>
        if c \<noteq> OK then Some (c, st') else Future_wait code cond_wait st') else Some (OK, st)) = Some r"
    obtain c1 st1 where c: "cond_wait st = (c1, st1)" by (cases "cond_wait st")
    show "?P code cond_wait st r"
    proof (cases "code st = Last \<and> c1 = OK")
      case True
      then have "?P code cond_wait st1 r" using r c IH by simp
      then show ?thesis using c transpD [OF assms(2)] by (metis snd_conv)
    next
      case False
      then have "r = (OK, st) \<and> code st \<noteq> Last \<or> r = (c1, st1) \<and> c1 \<noteq> OK"
        using r c by (auto split: if_splits)
      then show ?thesis using c reflpD [OF assms(1)] by (metis fst_conv snd_conv)
    qed
  qed
  then show ?thesis using assms(3) by simp
qed

lemma run_steps_steps:
  assumes "reflp R" and "transp R" and "\<And>m st. m \<in> set ms \<Longrightarrow> R st (snd (m st))"
  shows "R st (snd (run_steps ms st))"
  by (rule run_steps_invariant [where P = "R st"])
    (use assms in \<open>auto intro: reflpD dest: transpD\<close>)

lemma handle_operation_steps:
  assumes "reflp R" and "transp R" and "\<And>st. R st (snd (cond_wait st))"
    and "\<And>t st. R st (snd (hd_resp_set_type api t st))" and "\<And>t st. R st (snd (hd_resp_send api t st))"
    and "R st st1" and "add st = (future, st1)"
    and "\<forall>i. future = Some i \<longrightarrow> Future_wait (code_of i) cond_wait st1 = Some (wait_future i st1)"
    and "SHT41Handler_handle_operation api add wait_future code_of st = (c, st')"
  shows "R st st'"
proof (cases future)
  case None
  then show ?thesis using assms(6,7,9) by (simp add: SHT41Handler_handle_operation_def)
next
  case (Some i)
  obtain code st2 where w: "wait_future i st1 = (code, st2)" by (cases "wait_future i st1")
  have "Future_wait (code_of i) cond_wait st1 = Some (code, st2)" using assms(8) Some w by simp
  with Future_wait_steps [of R cond_wait, OF assms(1-3)] have "R st1 st2" by blast
  then have st2: "R st st2" using transpD [OF assms(2,6)] by blast
  have "R s (snd (http_step (hd_resp_set_type api t) s)) \<and> R s (snd (http_step (hd_resp_send api t) s))" for t s
    using assms(4,5) [of s t] by (auto simp: http_step_def split: prod.splits)
  then have "R st2 (snd (run_steps [http_step (hd_resp_set_type api ''text/html''), http_step (hd_resp_send api ''OK'')] st2))"
    by (intro run_steps_steps [of R, OF assms(1,2)]) auto
  then have "R st (snd (run_steps [http_step (hd_resp_set_type api ''text/html''), http_step (hd_resp_send api ''OK'')] st2))"
    using transpD [OF assms(2) st2] by blast
  then show ?thesis
    using assms(7,9) Some w st2
    by (auto simp: SHT41Handler_handle_operation_def simp del: run_steps.simps split: if_splits)
qed

section \<open>The request\<close>

abbreviation future_at :: "nat \<Rightarrow> ('f, 'w) afs_state \<Rightarrow> status_code" where
  "future_at i st \<equiv> Future_code i (futures_of st)"

abbreviation executed :: "('w \<Rightarrow> 'f executions) \<Rightarrow> ('f, 'w) afs_state \<Rightarrow> 'f executions" where
  "executed lg st \<equiv> lg (snd (snd st))"

lemma logged_inv_start:
  assumes "AsyncFuncScheduler_init m = Inr s" and "lg w = []"
  shows "logged_inv lg (s, [], w)"
proof -
  have "afs_inv (s, [], w)"
    using assms(1) by (auto simp: AsyncFuncScheduler_init_def afs_inv_def served_def split: if_splits)
  moreover have "afs_write_queue s = []"
    using assms(1) by (auto simp: AsyncFuncScheduler_init_def split: if_splits)
  ultimately show ?thesis using assms(2) by (simp add: logged_inv_def logged_def)
qed

text \<open>A finished future is the code of its execution.\<close>

lemma finished_execution:
  assumes "logged_inv lg st" and "accounted lg f i st" and "future_at i st \<noteq> Last"
  shows "i < length (executed lg st) \<and> executed lg st ! i = (f, future_at i st)"
proof -
  obtain s h w where st: "st = (s, h, w)" by (metis prod_cases3)
  have l: "logged (afs_write_queue s) h (lg w)" and sv: "served (afs_write_queue s) h"
    using assms(1) by (simp_all add: logged_inv_def afs_inv_def st)
  have "(f, i) \<notin> set (afs_write_queue s)"
  proof
    assume "(f, i) \<in> set (afs_write_queue s)"
    then have "i \<in> set (map snd (afs_write_queue s))" by force
    then have "h ! i = Last" using sv by (auto simp: served_def simp del: set_map)
    then show False using assms(3) by (simp add: Future_code_def st)
  qed
  then have "i < length (lg w)" "fst (lg w ! i) = f" using assms(2) by (auto simp: accounted_def st)
  moreover have "h ! i = snd (lg w ! i)" using l calculation(1) by (simp add: logged_def)
  ultimately show ?thesis by (auto simp: Future_code_def st intro: prod_eqI)
qed

text \<open>
  What a request is answered, for any functions that leave their executions in a log, and any tasks beside it.
\<close>

lemma request_answer:
  assumes "func_ok exec" and "exec_logs exec lg"
    and "AsyncFuncScheduler_init m = Inr s0" and "lg w0 = []" and "afs_env exec lg (s0, [], w0) st"
    and "\<And>st. afs_env exec lg st (snd (cond_wait st))"
    and "\<And>t st. afs_env exec lg st (snd (hd_resp_set_type api t st))"
    and "\<And>t st. afs_env exec lg st (snd (hd_resp_send api t st))"
    and "AsyncFuncScheduler_add alloc op st = (future, st1)"
    and "\<And>i. future = Some i \<Longrightarrow> Future_wait (future_at i) cond_wait st1 = Some (wait_future i st1)"
    and "SHT41Handler_handle_operation api (AsyncFuncScheduler_add alloc op) wait_future future_at st = (c, st')"
  shows "(case future of
      None \<Rightarrow> (c, st') = (InvalidState, st) \<and> (length (queue_of st) = afs_max_event_count (fst st) \<or> \<not> alloc)
    | Some i \<Rightarrow> i = length (futures_of st) \<and>
        (case wait_future i st1 of (code, st2) \<Rightarrow>
           if code \<noteq> OK then (c, st') = (Timeout, st2) \<and> accounted lg op i st'
           else i < length (executed lg st') \<and> fst (executed lg st' ! i) = op
             \<and> (c, st') = (if snd (executed lg st' ! i) \<noteq> OK then (snd (executed lg st' ! i), st2)
                 else run_steps [http_step (hd_resp_set_type api ''text/html''),
                   http_step (hd_resp_send api ''OK'')] st2)))
    \<and> length (executed lg st') + length (queue_of st') = length (futures_of st')"
proof -
  let ?send = "run_steps [http_step (hd_resp_set_type api ''text/html''), http_step (hd_resp_send api ''OK'')]"
  note keeps = afs_env_keeps [OF assms(1,2)]
  have inv: "logged_inv lg st" using keeps [OF logged_inv_start [where lg = lg and w = w0, OF assms(3,4)] assms(5)] by blast
  have total: "length (executed lg s) + length (queue_of s) = length (futures_of s)" if "logged_inv lg s" for s
    using that by (simp add: logged_inv_def logged_def)
  have send: "afs_env exec lg s (snd (?send s))" for s
    by (rule run_steps_steps [OF afs_env_reflp afs_env_transp]) (use assms(7,8) in \<open>auto simp: http_step_def split: prod.splits\<close>, metis snd_conv, metis snd_conv)
  show ?thesis
  proof (cases future)
    case None
    then have "(c, st') = (InvalidState, st)" "length (queue_of st) = afs_max_event_count (fst st) \<or> \<not> alloc"
      using assms(9,11)
      by (auto simp: SHT41Handler_handle_operation_def AsyncFuncScheduler_add_def Future_new_def split: prod.splits if_splits)
    then show ?thesis using None total [OF inv] by simp
  next
    case (Some i)
    obtain code st2 where w: "wait_future i st1 = (code, st2)" by (cases "wait_future i st1")
    have inv1: "logged_inv lg st1" using logged_add [OF inv, of alloc op] assms(9) by simp
    have i: "i = length (futures_of st)" and acc1: "accounted lg op i st1"
      using assms(9) Some
      by (auto simp: AsyncFuncScheduler_add_def Future_new_def accounted_def split: prod.splits if_splits)
    have "Future_wait (future_at i) cond_wait st1 = Some (code, st2)" using assms(10) Some w by simp
    from Future_wait_steps [OF afs_env_reflp afs_env_transp assms(6) this] have e2: "afs_env exec lg st1 st2" and d: "code = OK \<longrightarrow> future_at i st2 \<noteq> Last"
      by auto
    from keeps [OF inv1 e2] acc1 have inv2: "logged_inv lg st2" and acc2: "accounted lg op i st2" by auto
    have h: "(c, st') = (if code \<noteq> OK then (Timeout, st2) else if future_at i st2 \<noteq> OK then (future_at i st2, st2)
        else ?send st2)"
      using assms(9,11) Some w by (auto simp: SHT41Handler_handle_operation_def)
    show ?thesis
    proof (cases "code = OK")
      case False
      then show ?thesis using Some w h i acc2 total [OF inv2] by simp
    next
      case True
      from finished_execution [OF inv2 acc2] d True
      have x: "i < length (executed lg st2)" "executed lg st2 ! i = (op, future_at i st2)" by auto
      have "st' = (if future_at i st2 \<noteq> OK then st2 else snd (?send st2))"
        using h True by (metis snd_conv)
      then have "afs_env exec lg st2 st'" using send env_same by metis
      from keeps [OF inv2 this] obtain new where inv': "logged_inv lg st'" and "executed lg st' = executed lg st2 @ new"
        by blast
      then have "i < length (executed lg st')" "executed lg st' ! i = (op, future_at i st2)"
        using x by (simp_all add: nth_append)
      then show ?thesis using Some w h i True total [OF inv'] by simp
    qed
  qed
qed

section \<open>The sensor behind the queue\<close>

text \<open>
  The functions that the handler schedules, in the main task: they act on the sensor and its devices, and are logged.
\<close>

definition sht_operate ::
    "'w freertos \<Rightarrow> 'w I2cTransceiver \<Rightarrow> 'w IStorage \<Rightarrow> sht_operation \<Rightarrow> (Sht \<times> 'w) step" where
  "sht_operate rtos tr st op = (case op of SensorReset \<Rightarrow> Sht_reset rtos tr | SensorHeat \<Rightarrow> Sht_heat rtos tr st)"

type_synonym 'w sht_state = "(sht_operation, sht_operation executions \<times> Sht \<times> 'w) afs_state"

definition sht_exec :: "'w freertos \<Rightarrow> 'w I2cTransceiver \<Rightarrow> 'w IStorage \<Rightarrow> sht_operation \<Rightarrow> 'w sht_state step" where
  "sht_exec rtos tr st op x =
     (case x of (s, h, l, sw) \<Rightarrow>
        case sht_operate rtos tr st op sw of (code, sw') \<Rightarrow> (code, (s, h, l @ [(op, code)], sw')))"

abbreviation sensor_of :: "'w sht_state \<Rightarrow> Sht" where
  "sensor_of x \<equiv> fst (snd (snd (snd x)))"

text \<open>
  The steps of the other tasks: more requests, the queue and the measurements of the main task, and what
  changes only the devices.
\<close>

inductive sht_env :: "'w freertos \<Rightarrow> 'w I2cTransceiver \<Rightarrow> 'w IStorage \<Rightarrow> 'w sht_state \<Rightarrow> 'w sht_state \<Rightarrow> bool"
  for rtos :: "'w freertos" and tr :: "'w I2cTransceiver" and st :: "'w IStorage" and x :: "'w sht_state"
where
  sht_same: "sht_env rtos tr st x x"
| sht_add: "sht_env rtos tr st x y \<Longrightarrow> sht_env rtos tr st x (snd (AsyncFuncScheduler_add alloc op y))"
| sht_run: "sht_env rtos tr st x y \<Longrightarrow> sht_env rtos tr st x (snd (AsyncFuncScheduler_run (sht_exec rtos tr st) y))"
| sht_measure: "sht_env rtos tr st x (s, h, l, sw) \<Longrightarrow> sht_env rtos tr st x (s, h, l, snd (Sht_run rtos tr sw))"
| sht_device: "sht_env rtos tr st x (s, h, l, (self, w)) \<Longrightarrow> sht_env rtos tr st x (s, h, l, (self, w'))"

lemma sht_env_afs: "sht_env rtos tr st x y \<Longrightarrow> afs_env (sht_exec rtos tr st) fst x y"
  by (induction rule: sht_env.induct) (auto intro: afs_env.intros)

lemma sht_env_trans: "sht_env rtos tr st y z \<Longrightarrow> sht_env rtos tr st x y \<Longrightarrow> sht_env rtos tr st x z"
  by (induction rule: sht_env.induct) (auto intro: sht_env.intros)

lemma sht_env_reflp: "reflp (sht_env rtos tr st)" and sht_env_transp: "transp (sht_env rtos tr st)"
  by (auto intro: reflpI sht_same transpI sht_env_trans)

text \<open>The devices never answer with the code that marks a future as not finished.\<close>

definition answers :: "'w I2cTransceiver \<Rightarrow> bool" where
  "answers tr \<longleftrightarrow> (\<forall>buf t w. fst (i2c_send tr buf t w) \<noteq> Last \<and> fst (i2c_receive tr buf t w) \<noteq> Last)"

lemma Sht_send_command_answers: "answers tr \<Longrightarrow> fst (Sht_send_command rtos tr p c w) \<noteq> Last"
  by (auto simp: answers_def Sht_send_command_def and_then_def split: prod.splits) (metis fst_conv)

lemma Sht_receive_data_answers:
  assumes "answers tr"
  shows "fst (Sht_receive_data tr p d w) \<noteq> Last"
proof -
  obtain c buf w1 where r: "i2c_receive tr (replicate 6 0) (sht_bus_wait_interval p) w = (c, buf, w1)"
    by (metis prod_cases3)
  then have "c \<noteq> Last" using assms unfolding answers_def by (metis fst_conv)
  then show ?thesis using r by (simp add: Sht_receive_data_def)
qed

lemma sht_operate_answers:
  assumes "answers tr"
  shows "fst (sht_operate rtos tr st op sw) \<noteq> Last"
proof (cases op)
  case SensorReset
  then show ?thesis
    using Sht_send_command_answers [OF assms]
    by (auto simp: sht_operate_def Sht_reset_def split: prod.splits) (metis fst_conv)
next
  case SensorHeat
  obtain self w where sw: "sw = (self, w)" by fastforce
  obtain c1 w1 where s: "Sht_send_command rtos tr (sht_params self) (sht_heating_command (sht_params self)) w = (c1, w1)"
    by fastforce
  obtain c2 d w2 where r: "Sht_receive_data tr (sht_params self) ShtData_zero (vTaskDelay rtos (sht_heating_delay self) w1)
      = (c2, d, w2)" by (metis prod_cases3)
  have "c1 \<noteq> Last" "c2 \<noteq> Last"
    using Sht_send_command_answers [OF assms] Sht_receive_data_answers [OF assms] s r by (metis fst_conv)+
  then show ?thesis
    using SensorHeat s r sw by (auto simp: sht_operate_def Sht_heat_def Let_def split: prod.splits)
qed

lemma sht_exec_laws:
  assumes "answers tr"
  shows "func_ok (sht_exec rtos tr st)" and "exec_logs (sht_exec rtos tr st) fst"
proof -
  have "fst (sht_exec rtos tr st op x) \<noteq> Last" for op x
    using sht_operate_answers [OF assms] by (auto simp: sht_exec_def split: prod.splits) (metis fst_conv)
  then show "func_ok (sht_exec rtos tr st)"
    by (auto simp: func_ok_def sht_exec_def intro!: afs_extends_refl split: prod.splits)
  show "exec_logs (sht_exec rtos tr st) fst"
    by (auto simp: exec_logs_def sht_exec_def split: prod.splits)
qed

text \<open>Every heating that succeeds, and nothing else, is counted, with the wrap-around of the counter.\<close>

definition heatings :: "sht_operation executions \<Rightarrow> nat" where
  "heatings l = length (filter (\<lambda>e. e = (SensorHeat, OK)) l)"

definition heat_counted :: "u32 \<Rightarrow> 'w sht_state \<Rightarrow> bool" where
  "heat_counted n x \<longleftrightarrow> sht_heating_count (sensor_of x) = n + of_nat (heatings (executed fst x))"

lemma Sht_reset_count: "sht_heating_count (fst (snd (Sht_reset rtos tr sw))) = sht_heating_count (fst sw)"
  by (auto simp: Sht_reset_def split: prod.splits)

lemma Sht_run_count: "sht_heating_count (fst (snd (Sht_run rtos tr sw))) = sht_heating_count (fst sw)"
  by (auto simp: Sht_run_def split: prod.splits)

lemma Sht_heat_count:
  "sht_heating_count (fst (snd (Sht_heat rtos tr st sw)))
    = sht_heating_count (fst sw) + (if fst (Sht_heat rtos tr st sw) = OK then 1 else 0)"
  by (auto simp: Sht_heat_def Sht_write_heating_count_def Let_def split: prod.splits)

lemma sht_operate_count:
  "sht_heating_count (fst (snd (sht_operate rtos tr st op sw)))
    = sht_heating_count (fst sw) + (if (op, fst (sht_operate rtos tr st op sw)) = (SensorHeat, OK) then 1 else 0)"
  by (cases op) (simp_all add: sht_operate_def Sht_reset_count Sht_heat_count)

lemma sht_call_counted:
  assumes "heat_counted n x"
  shows "heat_counted n (AsyncFuncScheduler_call (sht_exec rtos tr st) fn x)"
proof -
  obtain s h l sw where x: "x = (s, h, l, sw)" by (metis prod_cases4)
  show ?thesis
    using assms sht_operate_count [of rtos tr st "fst fn" sw]
    by (auto simp: x heat_counted_def heatings_def AsyncFuncScheduler_call_def sht_exec_def split: prod.splits if_splits)
qed

lemma sht_calls_counted:
  "heat_counted n x \<Longrightarrow> heat_counted n (fold (AsyncFuncScheduler_call (sht_exec rtos tr st)) q x)"
  by (induction q arbitrary: x) (simp_all add: sht_call_counted)

lemma sht_run_counted:
  assumes "heat_counted n x"
  shows "heat_counted n (snd (AsyncFuncScheduler_run (sht_exec rtos tr st) x))"
proof -
  obtain s h l sw where x: "x = (s, h, l, sw)" by (metis prod_cases4)
  let ?s1 = "s\<lparr>afs_write_queue := afs_read_queue s, afs_read_queue := afs_write_queue s\<rparr>"
  have "heat_counted n (?s1, h, l, sw)" using assms by (simp add: x heat_counted_def)
  then have "heat_counted n (fold (AsyncFuncScheduler_call (sht_exec rtos tr st)) (afs_write_queue s) (?s1, h, l, sw))"
    by (rule sht_calls_counted)
  then show ?thesis
    using assms by (auto simp: x AsyncFuncScheduler_run_def Let_def heat_counted_def split: prod.splits)
qed

lemma sht_env_counted:
  assumes "heat_counted n x"
  shows "sht_env rtos tr st x y \<Longrightarrow> heat_counted n y"
proof (induction rule: sht_env.induct)
  case (sht_add y alloc op)
  then show ?case
    by (auto simp: heat_counted_def AsyncFuncScheduler_add_def Future_new_def split: prod.splits)
next
  case (sht_run y)
  then show ?case by (intro sht_run_counted)
qed (use assms in \<open>simp_all add: heat_counted_def Sht_run_count\<close>)

text \<open>
  C2. A request to reset or heat the SHT41, which the main task executes: it is refused when the queue of functions
  is full or there is no memory; otherwise the function is queued under the next future. Whatever requests,
  measurements and devices do in the meantime, when the wait ends in time the answer is the result of exactly that
  execution: its code if it failed, and the outcome of sending the response if it succeeded. When the wait times
  out the function is still queued or has been executed. No accepted function is lost or executed twice, and the
  heating counter is the initial one plus the heatings that succeeded, with the wrap-around of 32 bits.
\<close>

theorem sht41_request:
  assumes "answers tr" and "AsyncFuncScheduler_init m = Inr s0" and "sht_env rtos tr st (s0, [], [], sw0) x"
    and "\<And>y. sht_env rtos tr st y (snd (cond_wait y))"
    and "\<And>t y. sht_env rtos tr st y (snd (hd_resp_set_type api t y))"
    and "\<And>t y. sht_env rtos tr st y (snd (hd_resp_send api t y))"
    and "AsyncFuncScheduler_add alloc op x = (future, x1)"
    and "\<And>i. future = Some i \<Longrightarrow> Future_wait (future_at i) cond_wait x1 = Some (wait_future i x1)"
    and "SHT41Handler_handle_operation api (AsyncFuncScheduler_add alloc op) wait_future future_at x = (c, x')"
  shows "(case future of
      None \<Rightarrow> (c, x') = (InvalidState, x) \<and> (length (queue_of x) = afs_max_event_count (fst x) \<or> \<not> alloc)
    | Some i \<Rightarrow> i = length (futures_of x) \<and>
        (case wait_future i x1 of (code, x2) \<Rightarrow>
           if code \<noteq> OK then (c, x') = (Timeout, x2) \<and> accounted fst op i x'
           else i < length (executed fst x') \<and> fst (executed fst x' ! i) = op
             \<and> (c, x') = (if snd (executed fst x' ! i) \<noteq> OK then (snd (executed fst x' ! i), x2)
                 else run_steps [http_step (hd_resp_set_type api ''text/html''),
                   http_step (hd_resp_send api ''OK'')] x2)))
    \<and> length (executed fst x') + length (queue_of x') = length (futures_of x')
    \<and> sht_heating_count (sensor_of x') = sht_heating_count (fst sw0) + of_nat (heatings (executed fst x'))"
proof -
  have "sht_env rtos tr st x x1" using sht_add [OF sht_same, of rtos tr st x alloc op] assms(7) by simp
  then have "sht_env rtos tr st x x'"
    by (rule handle_operation_steps [OF sht_env_reflp sht_env_transp assms(4-6) _ assms(7) _ assms(9)])
      (simp add: assms(8))
  then have "sht_env rtos tr st (s0, [], [], sw0) x'" by (rule sht_env_trans [OF _ assms(3)])
  from sht_env_counted [OF _ this, of "sht_heating_count (fst sw0)"]
  have count: "sht_heating_count (sensor_of x') = sht_heating_count (fst sw0) + of_nat (heatings (executed fst x'))"
    by (simp add: heat_counted_def heatings_def)
  note env = sht_env_afs
  from request_answer [OF sht_exec_laws [OF assms(1)] assms(2) _ env [OF assms(3)] env [OF assms(4)]
      env [OF assms(5)] env [OF assms(6)] assms(7-9)] count
  show ?thesis by simp
qed

text \<open>For the witness: a sensor that always measures the same, and a device where a reset is waiting in the queue.\<close>

abbreviation test_sht_exec :: "sht_operation \<Rightarrow> unit sht_state step" where
  "test_sht_exec \<equiv> sht_exec no_rtos (replay test_frame) no_storage"

definition sht_wait :: "unit sht_state step" where
  "sht_wait x = (OK, snd (AsyncFuncScheduler_run test_sht_exec x))"

definition quiet_api :: "'w httpd_api" where
  "quiet_api = \<lparr>hd_start = (\<lambda>_ _. Pair (Some 0)), hd_register_uri_handler = (\<lambda>_ _. Pair True),
     hd_stop = (\<lambda>_. Pair True), hd_resp_set_type = (\<lambda>_. Pair True), hd_resp_set_hdr = (\<lambda>_ _. Pair True),
     hd_resp_set_status = (\<lambda>_. Pair True), hd_resp_send = (\<lambda>_. Pair True), hd_resp_send_chunk = (\<lambda>_. Pair ESP_OK),
     hd_resp_send_err = (\<lambda>_ _. Pair True)\<rparr>"

definition sht_start :: "sht_operation AsyncFuncScheduler" where
  "sht_start = \<lparr>afs_max_event_count = 2, afs_read_queue = [], afs_write_queue = []\<rparr>"

definition sht_busy :: "unit sht_state" where
  "sht_busy = snd (AsyncFuncScheduler_add True SensorReset (sht_start, [], [], test_sht, ()))"

lemma sht_busy_reached:
  "sht_env no_rtos (replay test_frame) no_storage (sht_start, [], [], test_sht, ()) sht_busy"
  unfolding sht_busy_def by (rule sht_add [OF sht_same])

lemma sht_wait_steps: "sht_env no_rtos (replay test_frame) no_storage x (snd (sht_wait x))"
  by (simp add: sht_wait_def sht_run sht_same)

lemma test_heat:
  "\<exists>self'. sht_operate no_rtos (replay test_frame) no_storage SensorHeat (self, ()) = (OK, (self', ()))"
proof -
  have "test_frame ! 2 = word_crc (test_frame ! 0) (test_frame ! 1)"
    "test_frame ! 5 = word_crc (test_frame ! 3) (test_frame ! 4)" by code_simp+
  then show ?thesis
    by (simp add: sht_operate_def Sht_heat_def Sht_send_command_def Sht_receive_data_def Sht_write_heating_count_def
        and_then_def replay_def no_storage_def Let_def)
qed

lemma test_reset: "sht_operate no_rtos (replay test_frame) no_storage SensorReset (self, ()) = (OK, (self, ()))"
  by (simp add: sht_operate_def Sht_reset_def Sht_send_command_def and_then_def replay_def no_rtos_def)

lemma sht_busy_runs:
  "\<exists>self'. snd (sht_wait (snd (AsyncFuncScheduler_add True SensorHeat sht_busy)))
     = (sht_start, [OK, OK], [(SensorReset, OK), (SensorHeat, OK)], self', ())"
proof -
  obtain self' where h: "sht_operate no_rtos (replay test_frame) no_storage SensorHeat (test_sht, ()) = (OK, (self', ()))"
    using test_heat by blast
  show ?thesis
    by (simp add: sht_wait_def sht_busy_def sht_start_def AsyncFuncScheduler_add_def AsyncFuncScheduler_run_def
        AsyncFuncScheduler_call_def sht_exec_def Future_new_def Future_notify_def test_reset h)
qed

lemma Future_wait_once:
  assumes "code st = Last" and "fst (cond_wait st) = OK" and "code (snd (cond_wait st)) \<noteq> Last"
  shows "Future_wait code cond_wait st = Some (OK, snd (cond_wait st))"
proof -
  obtain st1 where w: "cond_wait st = (OK, st1)" using assms(2) by (cases "cond_wait st") simp
  have "Future_wait code cond_wait st1 = Some (OK, st1)" using assms(3) w by (subst Future_wait.simps) simp
  then show ?thesis using assms(1) w by (subst Future_wait.simps) simp
qed

theorem sht41_request_witness:
  "\<exists>x'. SHT41Handler_handle_operation quiet_api (AsyncFuncScheduler_add True SensorHeat) (\<lambda>_. sht_wait) future_at sht_busy
      = (OK, x') \<and> executed fst x' ! 1 = (SensorHeat, OK) \<and> sht_heating_count (sensor_of x') = 1"
proof -
  let ?add = "AsyncFuncScheduler_add True SensorHeat sht_busy"
  let ?r = "SHT41Handler_handle_operation quiet_api (AsyncFuncScheduler_add True SensorHeat) (\<lambda>_. sht_wait) future_at sht_busy"
  have m: "AsyncFuncScheduler_init 2 = Inr sht_start"
    by (simp add: AsyncFuncScheduler_init_def sht_start_def)
  have f: "?add = (Some 1, snd ?add)" and n: "length (futures_of sht_busy) = 1"
    by (simp_all add: sht_busy_def sht_start_def AsyncFuncScheduler_add_def Future_new_def)
  have api: "hd_resp_set_type quiet_api t y = (True, y)" "hd_resp_send quiet_api t y = (True, y)" for t and y :: "unit sht_state"
    by (simp_all add: quiet_api_def)
  have tr: "answers (replay test_frame :: unit I2cTransceiver)" by (simp add: answers_def replay_def)
  obtain c x' where r: "?r = (c, x')" by (cases ?r)
  have "Future_wait (future_at 1) sht_wait (snd ?add) = Some (sht_wait (snd ?add))"
  proof -
    have "future_at 1 (snd ?add) = Last"
      by (simp add: sht_busy_def sht_start_def AsyncFuncScheduler_add_def Future_new_def Future_code_def)
    moreover have "fst (sht_wait (snd ?add)) = OK" by (simp add: sht_wait_def)
    moreover have "future_at 1 (snd (sht_wait (snd ?add))) = OK"
      using sht_busy_runs by (auto simp: Future_code_def)
    ultimately have "Future_wait (future_at 1) sht_wait (snd ?add) = Some (OK, snd (sht_wait (snd ?add)))"
      by (intro Future_wait_once) simp_all
    then show ?thesis by (simp add: sht_wait_def)
  qed
  then have w: "Future_wait (future_at i) sht_wait (snd ?add) = Some (sht_wait (snd ?add))" if "Some 1 = Some i" for i
    using that by simp
  have send: "sht_env no_rtos (replay test_frame) no_storage y (snd (hd_resp_set_type quiet_api t y))"
    "sht_env no_rtos (replay test_frame) no_storage y (snd (hd_resp_send quiet_api t y))" for t and y :: "unit sht_state"
    by (simp_all add: api sht_same)
  note t = sht41_request [OF tr m sht_busy_reached sht_wait_steps send f w r]
  obtain self' where x2: "snd (sht_wait (snd ?add)) = (sht_start, [OK, OK], [(SensorReset, OK), (SensorHeat, OK)], self', ())"
    using sht_busy_runs by blast
  have "?r = (OK, snd (sht_wait (snd ?add)))"
  proof -
    obtain x1 where x1: "?add = (Some 1, x1)" using f by metis
    obtain y where y: "sht_wait x1 = (OK, y)" by (simp add: sht_wait_def)
    then have "y = (sht_start, [OK, OK], [(SensorReset, OK), (SensorHeat, OK)], self', ())" using x2 x1 by simp
    then show ?thesis
      using x1 y by (simp add: SHT41Handler_handle_operation_def Future_code_def http_step_def api and_then_def)
  qed
  then have c: "c = OK" "x' = snd (sht_wait (snd ?add))" using r by simp_all
  have "sht_heating_count (sensor_of x') = sht_heating_count test_sht + of_nat (heatings (executed fst x'))"
    using t by simp
  then have "sht_heating_count (sensor_of x') = 1"
    using c(2) x2 by (simp add: heatings_def test_sht_def)
  then show ?thesis using r c x2 by (intro exI [of _ x']) simp
qed

end
