(* ===== verification/Platform.thy ===== *)
theory Platform
  imports Firmware
begin

text \<open>
  What the components create of FreeRTOS and the ESP-IDF, and give back: the timers of the delayers
  (\<open>ocs_system/basic_delayer.cpp\<close> and the delayers), the report of the tasks (\<open>ocs_system/system_state_builder.cpp\<close>),
  the guard of the scheduler (\<open>ocs_core/operation_guard.cpp\<close>), mutexes and event groups (\<open>ocs_core\<close>), the units of
  buses and converters (\<open>ocs_io\<close>), the interfaces and clients of the network (\<open>ocs_net\<close>, \<open>ocs_http\<close>). The calls of the
  two systems are parameters; one that fails is \<open>False\<close>.
\<close>

section \<open>Calls that must succeed\<close>

type_synonym 'w esp_call = "'w \<Rightarrow> bool \<times> 'w"

text \<open>\<^verbatim>\<open>ESP_ERROR_CHECK\<close> and \<^verbatim>\<open>configASSERT\<close> of a call stop the firmware when it fails.\<close>

definition ESP_ERROR_CHECK :: "'w esp_call \<Rightarrow> 'w \<Rightarrow> 'w checked" where
  "ESP_ERROR_CHECK call w = (case call w of (ok, w') \<Rightarrow> if \<not> ok then Inl AssertFailed else Inr w')"

fun ESP_ERROR_CHECKS :: "'w esp_call list \<Rightarrow> 'w \<Rightarrow> 'w checked" where
  "ESP_ERROR_CHECKS [] w = Inr w"
| "ESP_ERROR_CHECKS (call # calls) w =
     (case ESP_ERROR_CHECK call w of Inl f \<Rightarrow> Inl f | Inr w' \<Rightarrow> ESP_ERROR_CHECKS calls w')"

section \<open>Timers\<close>

record 'w gptimer_driver =
  gd_new_timer :: "u32 \<Rightarrow> 'w esp_call"
  gd_register_event_callbacks :: "'w esp_call"
  gd_enable :: "'w esp_call"
  gd_disable :: "'w esp_call"
  gd_del_timer :: "'w esp_call"

text \<open>The resolution in the configuration of the timer has 32 bits.\<close>

definition BasicDelayer_init :: "'w gptimer_driver \<Rightarrow> time \<Rightarrow> 'w \<Rightarrow> 'w checked" where
  "BasicDelayer_init gd resolution = ESP_ERROR_CHECK (gd_new_timer gd (word_of_int resolution))"

definition BasicDelayer_destroy :: "'w gptimer_driver \<Rightarrow> 'w \<Rightarrow> 'w checked" where
  "BasicDelayer_destroy gd = ESP_ERROR_CHECKS [gd_disable gd, gd_del_timer gd]"

definition BusyLoopDelayer_init :: "'w gptimer_driver \<Rightarrow> time \<Rightarrow> 'w \<Rightarrow> 'w checked" where
  "BusyLoopDelayer_init gd resolution w =
     (case BasicDelayer_init gd resolution w of Inl f \<Rightarrow> Inl f | Inr w1 \<Rightarrow> ESP_ERROR_CHECK (gd_enable gd) w1)"

definition LowPowerDelayer_init :: "'w gptimer_driver \<Rightarrow> time \<Rightarrow> 'w \<Rightarrow> 'w checked" where
  "LowPowerDelayer_init gd resolution w =
     (case BasicDelayer_init gd resolution w of
        Inl f \<Rightarrow> Inl f
      | Inr w1 \<Rightarrow> ESP_ERROR_CHECKS [gd_register_event_callbacks gd, gd_enable gd] w1)"

text \<open>The delayer that is made is named by its strategy.\<close>

definition make_delayer :: "'w gptimer_driver \<Rightarrow> DelayerStrategy \<Rightarrow> 'w \<Rightarrow> (DelayerStrategy option \<times> 'w) checked" where
  "make_delayer gd strategy w =
     (case strategy of
        Default \<Rightarrow> Inr (Some Default, w)
      | BusyLoop \<Rightarrow> map_sum id (Pair (Some BusyLoop)) (BusyLoopDelayer_init gd second w)
      | LowPower \<Rightarrow> map_sum id (Pair (Some LowPower)) (LowPowerDelayer_init gd second w)
      | DelayerStrategy_Last \<Rightarrow> Inr (None, w))"

text \<open>The states of a timer, as the ESP-IDF documents them, and what its calls do to them.\<close>

datatype gt_state = TimerInit | TimerEnabled | TimerRunning

definition gptimer_laws :: "'w gptimer_driver \<Rightarrow> 'w gptimer_api \<Rightarrow> ('w \<Rightarrow> gt_state) \<Rightarrow> bool" where
  "gptimer_laws gd gt st \<longleftrightarrow>
     (\<forall>w. if fst (gd_enable gd w) then st w = TimerInit \<and> st (snd (gd_enable gd w)) = TimerEnabled
          else st (snd (gd_enable gd w)) = st w)
     \<and> (\<forall>w. fst (gd_disable gd w) \<longrightarrow> st w = TimerEnabled)
     \<and> (\<forall>w. if fst (gt_start gt w) then st w = TimerEnabled \<and> st (snd (gt_start gt w)) = TimerRunning
          else st (snd (gt_start gt w)) = st w)
     \<and> (\<forall>w. if fst (gt_stop gt w) then st w = TimerRunning \<and> st (snd (gt_stop gt w)) = TimerEnabled
          else st (snd (gt_stop gt w)) = st w)
     \<and> (\<forall>v w. st (snd (gt_set_raw_count gt v w)) = st w)
     \<and> (\<forall>w. st (snd (gt_get_raw_count gt w)) = st w)"

lemma gptimer_lawsD:
  assumes "gptimer_laws gd gt st"
  shows "gd_enable gd w = (True, w') \<Longrightarrow> st w' = TimerEnabled"
    and "gd_disable gd w = (True, w') \<Longrightarrow> st w = TimerEnabled"
    and "gt_start gt w = (True, w') \<Longrightarrow> st w = TimerEnabled \<and> st w' = TimerRunning"
    and "gt_start gt w = (False, w') \<Longrightarrow> st w' = st w"
    and "gt_stop gt w = (True, w') \<Longrightarrow> st w' = TimerEnabled"
    and "gt_stop gt w = (False, w') \<Longrightarrow> st w' = st w"
    and "gt_set_raw_count gt v w = (ok, w') \<Longrightarrow> st w' = st w"
    and "gt_get_raw_count gt w = (r, w') \<Longrightarrow> st w' = st w"
  using assms unfolding gptimer_laws_def by (metis fst_conv snd_conv)+

text \<open>A sequence of delays, which goes on after a failure, and ends when one does not return.\<close>

fun delays :: "'w gptimer_api \<Rightarrow> time list \<Rightarrow> 'w \<Rightarrow> (status_code list \<times> 'w) option" where
  "delays gt [] w = Some ([], w)"
| "delays gt (d # ds) w =
     (case BusyLoopDelayer_delay gt d w of
        None \<Rightarrow> None
      | Some (code, w1) \<Rightarrow> map_option (map_prod (Cons code) id) (delays gt ds w1))"

lemma BusyLoopDelayer_loop_state:
  assumes "gptimer_laws gd gt st" and "BusyLoopDelayer_loop gt d w = Some (c, w')"
  shows "st w' = st w \<and> (c = OK \<or> c = Error)"
proof -
  let ?P = "\<lambda>gt (d :: time) w r. gptimer_laws gd gt st \<longrightarrow> st (snd r) = st w \<and> (fst r = OK \<or> fst r = Error)"
  have "?P gt d w (c, w')"
  proof (rule BusyLoopDelayer_loop.raw_induct [where P = ?P, OF _ assms(2)])
    fix loop :: "'a gptimer_api \<Rightarrow> time \<Rightarrow> 'a \<Rightarrow> (status_code \<times> 'a) option" and gt d w r
    assume IH: "\<And>gt d w r. loop gt d w = Some r \<Longrightarrow> ?P gt d w r"
      and r: "(case gt_get_raw_count gt w of (None, w') \<Rightarrow> Some (Error, w')
        | (Some v, w') \<Rightarrow> if word_of_int d \<le> v then Some (OK, w') else loop gt d w') = Some r"
    obtain v w1 where g: "gt_get_raw_count gt w = (v, w1)" by fastforce
    show "?P gt d w r"
    proof
      assume laws: "gptimer_laws gd gt st"
      have w1: "st w1 = st w" using gptimer_lawsD(8) [OF laws g] .
      show "st (snd r) = st w \<and> (fst r = OK \<or> fst r = Error)"
        using r g w1 IH laws by (auto split: option.splits if_splits)
    qed
  qed
  then show ?thesis using assms(1) by simp
qed

lemma BusyLoopDelayer_running:
  assumes "gptimer_laws gd gt st" and "st w = TimerRunning"
  shows "\<exists>w'. BusyLoopDelayer_delay gt d w = Some (Error, w') \<and> st w' = TimerRunning"
proof -
  obtain ok w1 where s: "gt_set_raw_count gt 0 w = (ok, w1)" by fastforce
  obtain ok2 w2 where g: "gt_start gt w1 = (ok2, w2)" by fastforce
  note laws = gptimer_lawsD [OF assms(1)]
  have w1: "st w1 = TimerRunning" using laws(7) [OF s] assms(2) by simp
  then have "\<not> ok2" using laws(3) [of w1 w2] g by (cases ok2) auto
  then have "st w2 = TimerRunning" using laws(4) [of w1 w2] g w1 by simp
  then show ?thesis
    using s g w1 \<open>\<not> ok2\<close> by (cases ok) (simp_all add: BusyLoopDelayer_delay_def gt_step_def and_then_def)
qed

lemma delays_running:
  assumes "gptimer_laws gd gt st" and "st w = TimerRunning"
  shows "\<exists>w'. delays gt ds w = Some (replicate (length ds) Error, w') \<and> st w' = TimerRunning"
  using assms(2)
proof (induction ds arbitrary: w)
  case (Cons d ds)
  obtain w1 where d: "BusyLoopDelayer_delay gt d w = Some (Error, w1)" "st w1 = TimerRunning"
    using BusyLoopDelayer_running [OF assms(1) Cons.prems] by blast
  from Cons.IH [OF d(2)] d(1) show ?case by auto
qed simp

lemma BasicDelayer_destroy_running:
  assumes "gptimer_laws gd gt st" and "st w = TimerRunning"
  shows "BasicDelayer_destroy gd w = Inl AssertFailed"
proof -
  obtain ok w1 where d: "gd_disable gd w = (ok, w1)" by fastforce
  then have "\<not> ok" using gptimer_lawsD(2) [OF assms(1), of w w1] assms(2) by (cases ok) auto
  then show ?thesis using d by (simp add: BasicDelayer_destroy_def ESP_ERROR_CHECK_def)
qed

text \<open>
  C25. The busy loop delayer is left in one of two ways. From a timer that is enabled, as the constructor leaves
  it, a delay that returns \<open>OK\<close> leaves it enabled, and so does one that could not start it. When reading the
  counter or stopping fails, the timer is left running, and then no later delay works: each of any number of
  delays returns at once with an error, and the destructor stops the firmware.
\<close>

theorem BusyLoopDelayer_latches:
  assumes "gptimer_laws gd gt st" and "BusyLoopDelayer_init gd resolution w0 = Inr w"
    and "BusyLoopDelayer_delay gt d w = Some (c, w1)"
  shows "st w = TimerEnabled \<and> (c = OK \<longrightarrow> st w1 = TimerEnabled)
    \<and> (c \<noteq> OK \<longrightarrow> c = Error \<and>
        (if fst (gt_set_raw_count gt 0 w) \<and> fst (gt_start gt (snd (gt_set_raw_count gt 0 w)))
         then st w1 = TimerRunning
           \<and> (\<forall>ds. \<exists>w2. delays gt ds w1 = Some (replicate (length ds) Error, w2)
                \<and> BasicDelayer_destroy gd w2 = Inl AssertFailed)
         else st w1 = TimerEnabled))"
proof -
  note laws = gptimer_lawsD [OF assms(1)]
  have w: "st w = TimerEnabled"
    using assms(2) laws(1)
    by (auto simp: BusyLoopDelayer_init_def ESP_ERROR_CHECK_def split: sum.splits prod.splits if_splits)
  obtain ok wa where s: "gt_set_raw_count gt 0 w = (ok, wa)" by fastforce
  obtain ok2 wb where g: "gt_start gt wa = (ok2, wb)" by fastforce
  have wa: "st wa = TimerEnabled" using laws(7) [OF s] w by simp
  show ?thesis
  proof (cases "ok \<and> ok2")
    case False
    then have "c = Error \<and> st w1 = TimerEnabled"
      using assms(3) s g wa laws(4) [of wa wb]
      by (cases ok) (auto simp: BusyLoopDelayer_delay_def gt_step_def and_then_def)
    then show ?thesis using w s g False by auto
  next
    case True
    then have wb: "st wb = TimerRunning" using laws(3) [of wa wb] g by simp
    have st: "run_steps [gt_step (gt_set_raw_count gt 0), gt_step (gt_start gt)] w = (OK, wb)"
      using s g True by (simp add: gt_step_def and_then_def)
    then obtain cl wc where l: "BusyLoopDelayer_loop gt d wb = Some (cl, wc)"
      using assms(3) by (auto simp: BusyLoopDelayer_delay_def split: option.splits)
    have wc: "st wc = TimerRunning" "cl = OK \<or> cl = Error"
      using BusyLoopDelayer_loop_state [OF assms(1) l] wb by auto
    obtain ok3 wd where p: "gt_stop gt wc = (ok3, wd)" by fastforce
    have r: "(c, w1) = (if cl \<noteq> OK then (cl, wc) else (if ok3 then OK else Error, wd))"
      using assms(3) st l p by (simp add: BusyLoopDelayer_delay_def gt_step_def split: if_splits)
    have "c = OK \<longrightarrow> st w1 = TimerEnabled" and e: "c \<noteq> OK \<longrightarrow> c = Error \<and> st w1 = TimerRunning"
      using r wc laws(5,6) [of wc wd] p by (auto split: if_splits)
    moreover have "\<exists>w2. delays gt ds w1 = Some (replicate (length ds) Error, w2)
        \<and> BasicDelayer_destroy gd w2 = Inl AssertFailed" if "c \<noteq> OK" for ds
      using delays_running [OF assms(1), of w1 ds] BasicDelayer_destroy_running [OF assms(1)] e that by blast
    ultimately show ?thesis using w s g True by auto
  qed
qed

text \<open>For the witness: a timer with its state, whose counter cannot be read.\<close>

definition broken_driver :: "gt_state gptimer_driver" where
  "broken_driver =
     \<lparr>gd_new_timer = (\<lambda>_ w. (True, TimerInit)), gd_register_event_callbacks = Pair True,
      gd_enable = (\<lambda>s. if s = TimerInit then (True, TimerEnabled) else (False, s)),
      gd_disable = (\<lambda>s. if s = TimerEnabled then (True, TimerInit) else (False, s)),
      gd_del_timer = (\<lambda>s. (s = TimerInit, s))\<rparr>"

definition broken_timer :: "gt_state gptimer_api" where
  "broken_timer =
     \<lparr>gt_set_raw_count = (\<lambda>_. Pair True), gt_get_raw_count = Pair None, gt_set_alarm_action = (\<lambda>_. Pair True),
      gt_start = (\<lambda>s. if s = TimerEnabled then (True, TimerRunning) else (False, s)),
      gt_stop = (\<lambda>s. if s = TimerRunning then (True, TimerEnabled) else (False, s))\<rparr>"

theorem BusyLoopDelayer_latches_witness:
  "\<exists>w2. BusyLoopDelayer_delay broken_timer 10 TimerEnabled = Some (Error, TimerRunning)
     \<and> delays broken_timer [10, 20] TimerRunning = Some ([Error, Error], w2)
     \<and> BasicDelayer_destroy broken_driver w2 = Inl AssertFailed"
proof -
  have l: "gptimer_laws broken_driver broken_timer id"
    by (simp add: gptimer_laws_def broken_driver_def broken_timer_def)
  have i: "BusyLoopDelayer_init broken_driver second TimerInit = Inr TimerEnabled"
    by (simp add: BusyLoopDelayer_init_def BasicDelayer_init_def ESP_ERROR_CHECK_def broken_driver_def)
  have d: "BusyLoopDelayer_delay broken_timer 10 TimerEnabled = Some (Error, TimerRunning)"
    by (simp add: BusyLoopDelayer_delay_def BusyLoopDelayer_loop.simps broken_timer_def gt_step_def and_then_def)
  have "fst (gt_set_raw_count broken_timer 0 TimerEnabled)"
    "fst (gt_start broken_timer (snd (gt_set_raw_count broken_timer 0 TimerEnabled)))"
    by (simp_all add: broken_timer_def)
  with BusyLoopDelayer_latches [OF l i d]
  have "\<forall>ds. \<exists>w2. delays broken_timer ds TimerRunning = Some (replicate (length ds) Error, w2)
      \<and> BasicDelayer_destroy broken_driver w2 = Inl AssertFailed" by simp
  from spec [OF this, of "[10, 20]"] d show ?thesis by (simp del: delays.simps)
qed

section \<open>The report of the tasks\<close>

text \<open>
  The two calls: the number of the tasks, and their states into an array of the given length, of which the entries
  written are returned, with the total run time. What is not written stays zero: it has no name.
\<close>

record 'w task_api =
  ta_number_of_tasks :: "'w \<Rightarrow> nat \<times> 'w"
  ta_system_state :: "nat \<Rightarrow> 'w \<Rightarrow> (TaskStatus list \<times> u32) \<times> 'w"

definition TaskStatus_zero :: TaskStatus where
  "TaskStatus_zero =
     \<lparr>ts_name = None, ts_state = eRunning, ts_number = 0, ts_priority = 0, ts_stack_free = 0, ts_core_id = 0, ts_run_time = 0\<rparr>"

record SystemState =
  ss_total_time :: u32
  ss_states :: "TaskStatus list"

definition SystemStateBuilder_init :: "'w task_api \<Rightarrow> 'w \<Rightarrow> (SystemState \<times> 'w) checked" where
  "SystemStateBuilder_init api w =
     (case ta_number_of_tasks api w of (n, w1) \<Rightarrow>
        if n = 0 then Inl AssertFailed
        else case ta_system_state api n w1 of ((sts, elapsed), w2) \<Rightarrow>
          if sts = [] then Inl AssertFailed
          else Inr (\<lparr>ss_total_time = elapsed, ss_states = sts @ replicate (n - length sts) TaskStatus_zero\<rparr>, w2))"

text \<open>
  \<open>task_laws\<close>: FreeRTOS writes the tasks that exist when it is called, unless the array is too short for them: then
  it writes nothing. Every task has a name.
\<close>

definition task_laws :: "'w task_api \<Rightarrow> ('w \<Rightarrow> TaskStatus list) \<Rightarrow> bool" where
  "task_laws api tasks \<longleftrightarrow>
     (\<forall>w. tasks w \<noteq> [] \<and> (\<forall>t\<in>set (tasks w). ts_name t \<noteq> None))
     \<and> (\<forall>w. fst (ta_number_of_tasks api w) = length (tasks w))
     \<and> (\<forall>n w. fst (fst (ta_system_state api n w)) = (if length (tasks w) \<le> n then tasks w else []))"

lemma SystemStateFormatter_tasks_append:
  assumes "plenty alloc" and "\<forall>st\<in>set sts. ts_name st \<noteq> None"
  shows "\<exists>js' m'. SystemStateFormatter_tasks ic rs alloc ttime (sts @ sts') (JArray js, m)
    = SystemStateFormatter_tasks ic rs alloc ttime sts' (JArray (js @ js'), m')"
  using assms(2)
proof (induction sts arbitrary: js m)
  case Nil
  show ?case by (intro exI [of _ "[]"] exI [of _ m]) simp
next
  case (Cons st sts)
  obtain items m1 where "SystemStateFormatter_tasks ic rs alloc ttime [st] (JArray js, m) = (OK, (JArray (js @ items), m1))"
    using SystemStateFormatter_tasks_count [OF assms(1), of "[st]"] Cons.prems by fastforce
  then have "SystemStateFormatter_tasks ic rs alloc ttime (st # sts @ sts') (JArray js, m)
      = SystemStateFormatter_tasks ic rs alloc ttime (sts @ sts') (JArray (js @ items), m1)"
    by (auto split: option.splits prod.splits if_splits)
  moreover obtain js' m' where "SystemStateFormatter_tasks ic rs alloc ttime (sts @ sts') (JArray (js @ items), m1)
      = SystemStateFormatter_tasks ic rs alloc ttime sts' (JArray ((js @ items) @ js'), m')"
    using Cons.IH Cons.prems by (meson list.set_intros(2))
  ultimately show ?case by (intro exI [of _ "items @ js'"] exI [of _ m']) simp
qed

lemma SystemStateFormatter_tasks_unnamed:
  assumes "plenty alloc"
  shows "fst (SystemStateFormatter_tasks ic rs alloc ttime (TaskStatus_zero # sts) (JArray js, m)) = NoMem"
proof -
  obtain m1 where "alloc m = (True, m1)" using assms by (metis plenty_def prod.collapse)
  then show ?thesis
    by (simp add: make_item_def format_task_state_def TaskStatus_zero_def and_then_def)
qed

text \<open>
  C24. The report of the tasks asks FreeRTOS twice, and tasks may come and go in between. With memory enough, it has
  one object for each task when their number is the same; when a task has ended it fails as if memory had run out,
  and when one was created the firmware stops.
\<close>

theorem SystemStateBuilder_report:
  assumes "plenty alloc" and "task_laws api tasks" and "ta_number_of_tasks api w = (n, w1)"
  shows "(case SystemStateBuilder_init api w of
      Inl f \<Rightarrow> length (tasks w) < length (tasks w1)
    | Inr (state, w2) \<Rightarrow>
        length (ss_states state) = length (tasks w) \<and> length (tasks w1) \<le> length (tasks w)
        \<and> fst (SystemStateFormatter_format ic rs alloc (ss_total_time state) (ss_states state) (JObject js, m))
          = (if length (tasks w1) = length (tasks w) then OK else NoMem)
        \<and> (length (tasks w1) = length (tasks w) \<longrightarrow>
            (\<exists>items m'. SystemStateFormatter_format ic rs alloc (ss_total_time state) (ss_states state) (JObject js, m)
                = (OK, (JObject (js @ [(''tasks'', JArray items)]), m')) \<and> length items = length (tasks w))))"
proof -
  have n: "n = length (tasks w)" "n \<noteq> 0" and named: "\<forall>t\<in>set (tasks w1). ts_name t \<noteq> None" and ne: "tasks w1 \<noteq> []"
    using assms(2,3) by (auto simp: task_laws_def dest: spec [of _ w])
  obtain sts elapsed w2 where s: "ta_system_state api n w1 = ((sts, elapsed), w2)" by (metis prod.collapse)
  have sts: "sts = (if length (tasks w1) \<le> n then tasks w1 else [])"
    using assms(2) s unfolding task_laws_def by (metis fst_conv)
  obtain m1 where m1: "alloc m = (True, m1)" using assms(1) by (metis plenty_def prod.collapse)
  let ?states = "tasks w1 @ replicate (n - length (tasks w1)) TaskStatus_zero"
  show ?thesis
  proof (cases "length (tasks w1) \<le> n")
    case False
    then show ?thesis using assms(3) s sts n by (simp add: SystemStateBuilder_init_def)
  next
    case True
    then have b: "SystemStateBuilder_init api w = Inr (\<lparr>ss_total_time = elapsed, ss_states = ?states\<rparr>, w2)"
      using assms(3) s sts n ne by (simp add: SystemStateBuilder_init_def)
    have f: "SystemStateFormatter_format ic rs alloc elapsed ?states (JObject js, m) =
        (case SystemStateFormatter_tasks ic rs alloc elapsed ?states (JArray [], m1) of
          (code, (array', m2)) \<Rightarrow> (code, (JObject (js @ [(''tasks'', array')]), m2)))"
      by (simp add: SystemStateFormatter_format_def make_item_def m1 cJSON_AddItemToObjectCS_def)
    show ?thesis
    proof (cases "length (tasks w1) = n")
      case eq: True
      obtain items m' where "SystemStateFormatter_tasks ic rs alloc elapsed (tasks w1) (JArray [], m1) = (OK, (JArray items, m'))"
        "length items = length (tasks w1)"
        using SystemStateFormatter_tasks_count [OF assms(1) named, of ic rs elapsed "[]" m1] by auto
      then show ?thesis using b f n eq by simp
    next
      case False
      then obtain k where k: "n - length (tasks w1) = Suc k" using True by (metis Suc_diff_Suc le_neq_implies_less)
      obtain js' m' where "SystemStateFormatter_tasks ic rs alloc elapsed ?states (JArray [], m1)
          = SystemStateFormatter_tasks ic rs alloc elapsed (TaskStatus_zero # replicate k TaskStatus_zero) (JArray js', m')"
        using SystemStateFormatter_tasks_append [OF assms(1) named, of ic rs elapsed "replicate (Suc k) TaskStatus_zero" "[]" m1] k
        by auto
      then have "fst (SystemStateFormatter_tasks ic rs alloc elapsed ?states (JArray [], m1)) = NoMem"
        using SystemStateFormatter_tasks_unnamed [OF assms(1)] by simp
      then show ?thesis using b f n False True by (auto split: prod.splits)
    qed
  qed
qed

text \<open>For the witness: a device on which the second of two tasks ends between the two calls.\<close>

definition named_task :: "string \<Rightarrow> TaskStatus" where
  "named_task name = TaskStatus_zero\<lparr>ts_name := Some name\<rparr>"

definition leaving_tasks :: "bool \<Rightarrow> TaskStatus list" where
  "leaving_tasks gone = named_task ''main'' # (if gone then [] else [named_task ''ota''])"

definition leaving_api :: "bool task_api" where
  "leaving_api =
     \<lparr>ta_number_of_tasks = (\<lambda>gone. (length (leaving_tasks gone), True)),
      ta_system_state = (\<lambda>n gone. ((if length (leaving_tasks gone) \<le> n then leaving_tasks gone else [], 0), gone))\<rparr>"

theorem SystemStateBuilder_report_witness:
  "\<exists>state w2. SystemStateBuilder_init leaving_api False = Inr (state, w2)
     \<and> fst (SystemStateFormatter_format True True (Pair True) 0 (ss_states state) (JObject [], ())) = NoMem"
proof -
  have l: "task_laws leaving_api leaving_tasks"
    by (simp add: task_laws_def leaving_api_def leaving_tasks_def named_task_def)
  have n: "ta_number_of_tasks leaving_api False = (2, True)"
    by (simp add: leaving_api_def leaving_tasks_def)
  obtain state w2 where s: "SystemStateBuilder_init leaving_api False = Inr (state, w2)" "ss_total_time state = 0"
    by (simp add: SystemStateBuilder_init_def leaving_api_def leaving_tasks_def)
  have "plenty (Pair True :: unit heap)" by (simp add: plenty_def)
  from SystemStateBuilder_report [OF this l n, of True True "[]" "()"] s show ?thesis
    by (simp add: leaving_tasks_def)
qed

section \<open>The scheduler guard\<close>

text \<open>
  The parameters are those of \<open>OperationGuardTask_run\<close>. A search of the handler of the DS18B20 is inside a guard of
  the suspender and then one of the scheduler, which are destroyed in the reverse order.
\<close>

definition OperationGuard_destroy :: "('w \<Rightarrow> bool \<times> 'w) \<Rightarrow> ('w \<Rightarrow> 'w) \<Rightarrow> 'w \<Rightarrow> 'w" where
  "OperationGuard_destroy resume_all yield_ctx w =
     (case resume_all w of (switched, w1) \<Rightarrow> if \<not> switched then yield_ctx w1 else w1)"

definition search_guards_init :: "('w \<Rightarrow> 'w) \<Rightarrow> 'w step \<Rightarrow> 'w step" where
  "search_guards_init suspend_all suspend w = (case suspend w of (code, w1) \<Rightarrow> (code, suspend_all w1))"

definition search_guards_destroy :: "('w \<Rightarrow> bool \<times> 'w) \<Rightarrow> ('w \<Rightarrow> 'w) \<Rightarrow> 'w step \<Rightarrow> 'w step" where
  "search_guards_destroy resume_all yield_ctx resume w = resume (OperationGuard_destroy resume_all yield_ctx w)"

text \<open>
  \<open>depth\<close> is how often the scheduler has been suspended, \<open>held\<close> how often the suspender has.
\<close>

definition suspends :: "('w \<Rightarrow> 'w) \<Rightarrow> ('w \<Rightarrow> bool \<times> 'w) \<Rightarrow> ('w \<Rightarrow> 'w) \<Rightarrow> 'w step \<Rightarrow> 'w step
    \<Rightarrow> ('w \<Rightarrow> nat) \<Rightarrow> ('w \<Rightarrow> nat) \<Rightarrow> bool" where
  "suspends suspend_all resume_all yield_ctx suspend resume depth held \<longleftrightarrow>
     (\<forall>w. depth (suspend_all w) = Suc (depth w) \<and> held (suspend_all w) = held w
        \<and> depth (snd (resume_all w)) = depth w - 1 \<and> held (snd (resume_all w)) = held w
        \<and> depth (yield_ctx w) = depth w \<and> held (yield_ctx w) = held w
        \<and> depth (snd (suspend w)) = depth w \<and> held (snd (suspend w)) = Suc (held w)
        \<and> depth (snd (resume w)) = depth w \<and> held (snd (resume w)) = held w - 1)"

lemma search_guards:
  assumes "suspends suspend_all resume_all yield_ctx suspend resume depth held"
  shows "depth (snd (search_guards_init suspend_all suspend w)) = Suc (depth w)"
    and "held (snd (search_guards_init suspend_all suspend w)) = Suc (held w)"
    and "depth (snd (search_guards_destroy resume_all yield_ctx resume w)) = depth w - 1"
    and "held (snd (search_guards_destroy resume_all yield_ctx resume w)) = held w - 1"
proof -
  obtain code w1 where s: "suspend w = (code, w1)" by fastforce
  obtain switched w2 where r: "resume_all w = (switched, w2)" by fastforce
  have "depth w1 = depth w" "held w1 = Suc (held w)" "depth w2 = depth w - 1" "held w2 = held w"
    using assms s r unfolding suspends_def by (metis snd_conv)+
  then show "depth (snd (search_guards_init suspend_all suspend w)) = Suc (depth w)"
    and "held (snd (search_guards_init suspend_all suspend w)) = Suc (held w)"
    and "depth (snd (search_guards_destroy resume_all yield_ctx resume w)) = depth w - 1"
    and "held (snd (search_guards_destroy resume_all yield_ctx resume w)) = held w - 1"
    using assms s r unfolding suspends_def search_guards_init_def search_guards_destroy_def OperationGuard_destroy_def
    by simp_all
qed

text \<open>An invariant that the bus keeps is kept by a scan, and by the loops of scans.\<close>

lemma RomCodeScanner_scan_loop_keeps:
  assumes "wire_keeps wire I" and "I w" and "RomCodeScanner_scan_loop wire ns buf s w = Inr (code, buf', s', w')"
  shows "I w'"
  using assms(2,3)
proof (induction ns arbitrary: buf s w)
  case (Cons n ns)
  obtain c1 b1 w1 where r1: "wr_read_bit wire 0 w = (c1, b1, w1)" by (metis prod_cases3)
  obtain c2 b2 w2 where r2: "wr_read_bit wire 0 w1 = (c2, b2, w2)" by (metis prod_cases3)
  have i1: "I w1" and i2: "I w2"
    using assms(1) Cons.prems(1) r1 r2 unfolding wire_keeps_def by (metis snd_conv)+
  have i3: "I (snd (wr_write_bit wire v w2))" for v using assms(1) i2 unfolding wire_keeps_def by blast
  show ?case
    using Cons.prems(2) r1 r2 i1 i2 i3 Cons.IH
    by (auto simp: Let_def split: if_splits sum.splits prod.splits) (metis snd_conv)+
qed simp

lemma RomCodeScanner_scan_keeps:
  assumes "wire_keeps wire I" and "I w" and "RomCodeScanner_scan wire rc s w = Inr (code, rc', s', w')"
  shows "I w'"
proof -
  obtain c1 w1 where r: "run_steps [wr_reset wire, Bus_write_byte wire SearchRom] w = (c1, w1)" by fastforce
  have "I (snd (run_steps [wr_reset wire, Bus_write_byte wire SearchRom] w))"
  proof (rule run_steps_invariant)
    fix m v
    assume "m \<in> set [wr_reset wire, Bus_write_byte wire SearchRom]" "I v"
    then show "I (snd (m v))"
      using assms(1) Bus_write_byte_keeps [OF assms(1)] by (auto simp: wire_keeps_def)
  qed (rule assms(2))
  then have i1: "I w1" using r by simp
  show ?thesis
  proof (cases "sc_finished s \<or> c1 \<noteq> OK")
    case True
    then show ?thesis using assms(2,3) i1 r by (cases "sc_finished s") (simp_all add: RomCodeScanner_scan_def)
  next
    case False
    then obtain c2 buf s2 where "RomCodeScanner_scan_loop wire [0..<length (RomCode_bytes rc) * 8] (RomCode_bytes rc) s w1
        = Inr (c2, buf, s2, w')"
      using assms(3) r
      by (auto simp: RomCodeScanner_scan_def RomCodeScanner_scan_buf_def Let_def simp del: run_steps.simps
          split: sum.splits if_splits)
    then show ?thesis using RomCodeScanner_scan_loop_keeps [OF assms(1) i1] by blast
  qed
qed

lemma find_rom_code_keeps:
  assumes "wire_keeps wire I" and "I w" and "find_rom_code wire cf s w = Some (Inr (code, cf', w'))"
  shows "I w'"
proof -
  let ?P = "\<lambda>wire (cf :: Configuration) (s :: RomCodeScanner) w r. wire_keeps wire I \<longrightarrow> I w \<longrightarrow> (\<forall>(code :: status_code) (cf' :: Configuration) w'. r = (Inr (code, cf', w') :: (status_code \<times> Configuration \<times> 'a) checked) \<longrightarrow> I w')"
  have "?P wire cf s w (Inr (code, cf', w'))"
  proof (rule find_rom_code.raw_induct [where P = ?P, OF _ assms(3)])
    fix loop :: "'a wire \<Rightarrow> Configuration \<Rightarrow> RomCodeScanner \<Rightarrow> 'a \<Rightarrow> (status_code \<times> Configuration \<times> 'a) checked option"
      and wire cf s w r
    assume IH: "\<And>wire cf s w r. loop wire cf s w = Some r \<Longrightarrow> ?P wire cf s w r"
      and r: "(case RomCodeScanner_scan wire RomCode_init s w of Inl f \<Rightarrow> Some (Inl f)
        | Inr (code, rc, s', w1) \<Rightarrow> if code \<noteq> OK then Some (Inr (code, cf, w1))
            else if rc_serial_number rc = rc_serial_number (cf_rom_code cf)
              then Some (Inr (OK, cf\<lparr>cf_rom_code := rc\<rparr>, w1)) else loop wire cf s' w1) = Some r"
    show "?P wire cf s w r"
    proof (intro impI)
      assume k: "wire_keeps wire I" "I w"
      show "\<forall>code cf' w'. r = Inr (code, cf', w') \<longrightarrow> I w'"
      proof (cases "RomCodeScanner_scan wire RomCode_init s w")
        case (Inl f)
        then show ?thesis using r by auto
      next
        case (Inr x)
        obtain code rc s' w1 where x: "x = (code, rc, s', w1)" by (metis prod_cases4)
        have "I w1" using RomCodeScanner_scan_keeps [OF k] Inr x by blast
        then show ?thesis using r Inr x k(1) IH [of wire cf s' w1 r] by (auto split: if_splits)
      qed
    qed
  qed
  then show ?thesis using assms(1,2) by simp
qed

text \<open>
  C23. A search for a device runs with the scheduler and the suspender held once more, at every operation on the bus,
  and whatever it finds or fails at, both are given back when it returns. The bus is only required to leave them
  alone at that depth.
\<close>

theorem search_restores_system:
  assumes "suspends suspend_all resume_all yield_ctx suspend resume depth held"
    and "wire_keeps wire (\<lambda>w'. depth w' = Suc (depth w) \<and> held w' = Suc (held w))"
    and "DS18B20Handler_find_rom_code (search_guards_init suspend_all suspend)
      (search_guards_destroy resume_all yield_ctx resume) wire cf w = Some (Inr (code, cf', w'))"
  shows "depth w' = depth w \<and> held w' = held w"
proof -
  note g = search_guards [OF assms(1)]
  let ?w1 = "snd (search_guards_init suspend_all suspend w)"
  obtain w2 where f: "find_rom_code wire cf RomCodeScanner_init ?w1 = Some (Inr (code, cf', w2))"
    and w': "w' = snd (search_guards_destroy resume_all yield_ctx resume w2)"
    using assms(3) by (auto simp: DS18B20Handler_find_rom_code_def split: option.splits sum.splits prod.splits)
  have "depth w2 = Suc (depth w) \<and> held w2 = Suc (held w)"
    by (rule find_rom_code_keeps [OF assms(2) _ f]) (simp add: g)
  then show ?thesis using w' g by simp
qed

text \<open>For the witness: the two depths beside two devices on a bus.\<close>

definition guarded_wire :: "'w wire \<Rightarrow> ((nat \<times> nat) \<times> 'w) wire" where
  "guarded_wire wire =
     \<lparr>wr_reset = (\<lambda>(g, w). case wr_reset wire w of (code, w') \<Rightarrow> (code, (g, w'))),
      wr_write_bit = (\<lambda>v (g, w). case wr_write_bit wire v w of (code, w') \<Rightarrow> (code, (g, w'))),
      wr_read_bit = (\<lambda>v (g, w). case wr_read_bit wire v w of (code, b, w') \<Rightarrow> (code, b, (g, w')))\<rparr>"

abbreviation test_suspend_all :: "(nat \<times> nat) \<times> 'w \<Rightarrow> (nat \<times> nat) \<times> 'w" where
  "test_suspend_all \<equiv> \<lambda>((d, h), w). ((Suc d, h), w)"

abbreviation test_resume_all :: "(nat \<times> nat) \<times> 'w \<Rightarrow> bool \<times> (nat \<times> nat) \<times> 'w" where
  "test_resume_all \<equiv> \<lambda>((d, h), w). (True, ((d - 1, h), w))"

abbreviation test_suspend :: "((nat \<times> nat) \<times> 'w) step" where
  "test_suspend \<equiv> \<lambda>((d, h), w). (OK, ((d, Suc h), w))"

abbreviation test_resume :: "((nat \<times> nat) \<times> 'w) step" where
  "test_resume \<equiv> \<lambda>((d, h), w). (OK, ((d, h - 1), w))"

lemma guarded_search_laws: "search_laws (guarded_wire (search_sim devs)) (snd \<circ> snd) devs"
proof -
  have "\<exists>w'. run_steps [wr_reset (guarded_wire (search_sim devs)), Bus_write_byte (guarded_wire (search_sim devs)) SearchRom] w
      = (OK, w') \<and> (snd \<circ> snd) w' = Some (devs, 0, 0)" for w
    by (cases w) (simp add: guarded_wire_def search_sim_def Bus_write_byte_def numeral_eq_Suc)
  then show ?thesis
    unfolding search_laws_def by (auto simp: guarded_wire_def search_sim_def split_beta)
qed

theorem search_restores_system_witness:
  "\<exists>cf' w'. DS18B20Handler_find_rom_code (search_guards_init test_suspend_all test_suspend)
      (search_guards_destroy test_resume_all id test_resume) (guarded_wire (search_sim [rom_b, rom_a]))
      Configuration_init ((3, 0), (0, None)) = Some (Inr (OK, cf', w')) \<and> fst w' = (3, 0)"
proof -
  let ?wire = "guarded_wire (search_sim [rom_b, rom_a])"
  have sn: "rc_serial_number (RomCode_of_bytes rom_a) = rc_serial_number (cf_rom_code Configuration_init)"
    by code_simp
  obtain s' w1 where "RomCodeScanner_scan ?wire RomCode_init RomCodeScanner_init ((4, 1), (0, None))
      = Inr (OK, RomCode_of_bytes rom_a, s', w1)"
    using first_scan [OF guarded_search_laws [of "[rom_b, rom_a]"], of rom_a "{rom_b}" 9 "((4, 1), (0, None))"]
      parts_ab roms_valid(1) by auto
  then have "find_rom_code ?wire Configuration_init RomCodeScanner_init ((4, 1), (0, None))
      = Some (Inr (OK, Configuration_init\<lparr>cf_rom_code := RomCode_of_bytes rom_a\<rparr>, w1))"
    using sn by (subst find_rom_code.simps) simp
  then obtain w' where f: "DS18B20Handler_find_rom_code (search_guards_init test_suspend_all test_suspend)
      (search_guards_destroy test_resume_all id test_resume) ?wire Configuration_init ((3, 0), (0, None))
      = Some (Inr (OK, Configuration_init\<lparr>cf_rom_code := RomCode_of_bytes rom_a\<rparr>, w'))"
    by (simp add: DS18B20Handler_find_rom_code_def search_guards_init_def)
  have "suspends test_suspend_all test_resume_all id test_suspend test_resume (fst \<circ> fst) (snd \<circ> fst)"
    by (simp add: suspends_def)
  from search_restores_system [OF this _ f] have "fst w' = (3, 0)"
    by (auto simp: wire_keeps_def guarded_wire_def split: prod.splits intro: prod_eqI)
  then show ?thesis using f by blast
qed

section \<open>Mutexes and event groups\<close>

text \<open>What is created in memory of its own; \<^verbatim>\<open>configASSERT\<close> checks the handle.\<close>

definition BasicStaticMutex_init :: "('w \<Rightarrow> nat option \<times> 'w) \<Rightarrow> 'w \<Rightarrow> (nat \<times> 'w) checked" where
  "BasicStaticMutex_init create w =
     (case create w of (None, w1) \<Rightarrow> Inl AssertFailed | (Some sem, w1) \<Rightarrow> Inr (sem, w1))"

definition BasicStaticRecursiveMutex_init :: "('w \<Rightarrow> nat option \<times> 'w) \<Rightarrow> 'w \<Rightarrow> (nat \<times> 'w) checked" where
  "BasicStaticRecursiveMutex_init create_recursive w =
     (case create_recursive w of (None, w1) \<Rightarrow> Inl AssertFailed | (Some sem, w1) \<Rightarrow> Inr (sem, w1))"

definition StaticEventGroup_init :: "('w \<Rightarrow> nat option \<times> 'w) \<Rightarrow> 'w \<Rightarrow> (nat \<times> 'w) checked" where
  "StaticEventGroup_init create_group w =
     (case create_group w of (None, w1) \<Rightarrow> Inl AssertFailed | (Some handle, w1) \<Rightarrow> Inr (handle, w1))"

section \<open>Buses and converters\<close>

record i2c_bus_config =
  ic_i2c_port :: nat
  ic_sda_io_num :: int
  ic_scl_io_num :: int
  ic_glitch_ignore_cnt :: u8
  ic_enable_internal_pullup :: bool

text \<open>\<open>sda\<close> and \<open>scl\<close> are the parameters of the store.\<close>

definition I2cMasterStore_init :: "(i2c_bus_config \<Rightarrow> 'w esp_call) \<Rightarrow> int \<Rightarrow> int \<Rightarrow> 'w \<Rightarrow> 'w checked" where
  "I2cMasterStore_init i2c_new_master_bus sda scl =
     ESP_ERROR_CHECK (i2c_new_master_bus
       \<lparr>ic_i2c_port = 0, ic_sda_io_num = sda, ic_scl_io_num = scl, ic_glitch_ignore_cnt = 7,
        ic_enable_internal_pullup = True\<rparr>)"

definition I2cMasterStore_destroy :: "'w esp_call \<Rightarrow> 'w \<Rightarrow> 'w checked" where
  "I2cMasterStore_destroy i2c_del_master_bus = ESP_ERROR_CHECK i2c_del_master_bus"

text \<open>The deleters of the devices only log a failure.\<close>

definition I2cMasterTransceiver_delete :: "'w esp_call option \<Rightarrow> 'w \<Rightarrow> 'w" where
  "I2cMasterTransceiver_delete rm_device w = (case rm_device of None \<Rightarrow> w | Some call \<Rightarrow> snd (call w))"

definition SpiMasterTransceiver_delete :: "'w esp_call option \<Rightarrow> 'w \<Rightarrow> 'w" where
  "SpiMasterTransceiver_delete remove_device w = (case remove_device of None \<Rightarrow> w | Some call \<Rightarrow> snd (call w))"

definition SpiMasterStore_destroy :: "(nat \<Rightarrow> 'w esp_call) \<Rightarrow> nat \<Rightarrow> 'w \<Rightarrow> 'w checked" where
  "SpiMasterStore_destroy spi_bus_free host_id = ESP_ERROR_CHECK (spi_bus_free host_id)"

record AdcStoreParams =
  as_unit :: nat
  as_atten :: nat
  as_bitwidth :: nat

record 'w adc_unit_driver =
  au_new_unit :: "nat \<Rightarrow> 'w esp_call"
  au_del_unit :: "'w esp_call"
  au_create_scheme_line_fitting :: "AdcStoreParams \<Rightarrow> 'w esp_call"
  au_delete_scheme_line_fitting :: "'w esp_call"

definition DefaultStore_init :: "'w adc_unit_driver \<Rightarrow> AdcStoreParams \<Rightarrow> 'w \<Rightarrow> ((nat \<times> 'w IAdc) list \<times> 'w) checked" where
  "DefaultStore_init ad p w =
     map_sum id (Pair []) (ESP_ERROR_CHECKS [au_new_unit ad (as_unit p), au_create_scheme_line_fitting ad p] w)"

definition DefaultStore_destroy :: "'w adc_unit_driver \<Rightarrow> 'w \<Rightarrow> 'w checked" where
  "DefaultStore_destroy ad = ESP_ERROR_CHECKS [au_del_unit ad, au_delete_scheme_line_fitting ad]"

section \<open>The network\<close>

record 'w netif_driver =
  nd_desc :: string
  nd_action_disconnected :: "'w \<Rightarrow> 'w"
  nd_action_stop :: "'w \<Rightarrow> 'w"
  nd_clear_default_wifi_driver_and_handlers :: "'w esp_call"
  nd_destroy :: "'w \<Rightarrow> 'w"

text \<open>The deleter of \<open>make_netif_shared\<close>.\<close>

definition make_netif_shared_delete :: "'w netif_driver option \<Rightarrow> 'w \<Rightarrow> 'w checked" where
  "make_netif_shared_delete netif w =
     (case netif of
        None \<Rightarrow> Inr w
      | Some nd \<Rightarrow>
          let w1 = nd_action_disconnected nd w
          in map_sum id (nd_destroy nd)
               (if nd_desc nd = ''sta''
                then ESP_ERROR_CHECK (nd_clear_default_wifi_driver_and_handlers nd) (nd_action_stop nd w1)
                else Inr w1))"

text \<open>\<open>inet_ntoa_r\<close> writes the address, or returns null.\<close>

definition ip_addr_to_str :: "('a \<Rightarrow> string option) \<Rightarrow> 'a \<Rightarrow> string" where
  "ip_addr_to_str inet_ntoa_r addr = (case inet_ntoa_r addr of None \<Rightarrow> ''<none>'' | Some s \<Rightarrow> s)"

text \<open>
  The destructors of the networks: the calls in their order, and at the end \<open>deinit\<close>, which must say that it is not
  supported.
\<close>

definition network_destroy :: "'w esp_call list \<Rightarrow> 'w esp_call \<Rightarrow> 'w esp_call \<Rightarrow> 'w esp_call \<Rightarrow> 'w \<Rightarrow> 'w checked" where
  "network_destroy unregister wifi_deinit loop_delete netif_deinit_unsupported =
     ESP_ERROR_CHECKS (unregister @ [wifi_deinit, loop_delete, netif_deinit_unsupported])"

definition StaNetwork_destroy ::
    "'w esp_call \<Rightarrow> 'w esp_call \<Rightarrow> 'w esp_call \<Rightarrow> 'w esp_call \<Rightarrow> 'w esp_call \<Rightarrow> 'w \<Rightarrow> 'w checked" where
  "StaNetwork_destroy unregister_wifi unregister_ip = network_destroy [unregister_wifi, unregister_ip]"

definition ApNetwork_destroy :: "'w esp_call \<Rightarrow> 'w esp_call \<Rightarrow> 'w esp_call \<Rightarrow> 'w esp_call \<Rightarrow> 'w \<Rightarrow> 'w checked" where
  "ApNetwork_destroy unregister_wifi = network_destroy [unregister_wifi]"

definition make_client_shared_delete :: "('w esp_call \<times> 'w esp_call) option \<Rightarrow> 'w \<Rightarrow> 'w checked" where
  "make_client_shared_delete client w =
     (case client of None \<Rightarrow> Inr w | Some (close, cleanup) \<Rightarrow> ESP_ERROR_CHECKS [close, cleanup] w)"

definition Server_destroy :: "'w httpd_api \<Rightarrow> 'w Server \<Rightarrow> 'w \<Rightarrow> 'w checked" where
  "Server_destroy api s w =
     (if srv_handle s = None then Inr w else map_sum id (snd \<circ> snd) (Server_stop api s w))"

section \<open>Text of a fixed size\<close>

text \<open>A formatter with its buffer inside: \<open>n\<close> is the size, the state the text.\<close>

definition StaticFormatter_init :: "nat \<Rightarrow> string" where
  "StaticFormatter_init n = replicate n (CHR 0x00)"

definition StaticFormatter_format :: "printer \<Rightarrow> nat \<Rightarrow> cJSON \<Rightarrow> status_code \<times> string" where
  "StaticFormatter_format print n json = (case print json n of (ok, buf) \<Rightarrow> (if \<not> ok then NoMem else OK, buf))"

lemma StaticFormatter_DynamicFormatter:
  assumes "DynamicFormatter_init n = Inr f"
  shows "df_buf f = StaticFormatter_init n"
    and "StaticFormatter_format print n json = map_prod id df_buf (DynamicFormatter_format print json f)"
  using assms
  by (auto simp: DynamicFormatter_init_def StaticFormatter_init_def StaticFormatter_format_def
      DynamicFormatter_format_def split: if_splits prod.splits)

section \<open>Values between tasks and hashes\<close>

record 'a SpmcNode =
  sn_data :: 'a

definition SpmcNode_get :: "'a SpmcNode \<Rightarrow> 'a" where "SpmcNode_get n = sn_data n"
definition SpmcNode_set :: "'a \<Rightarrow> 'a SpmcNode \<Rightarrow> 'a SpmcNode" where "SpmcNode_set data n = n\<lparr>sn_data := data\<rparr>"

text \<open>\<open>hash\<close> is \<^verbatim>\<open>std::hash\<close> of an element, which is cut to \<^verbatim>\<open>unsigned\<close>.\<close>

definition ArrayHasher :: "('a \<Rightarrow> u32) \<Rightarrow> 'a list \<Rightarrow> u32" where
  "ArrayHasher hash arr =
     fold (\<lambda>e h. h XOR (hash e + 0x9e3779b9 + push_bit 6 h + drop_bit 2 h)) arr 0"

text \<open>Arrays that differ in the last element only have different hashes, if the element hashes are different.\<close>

lemma ArrayHasher_last:
  assumes "ArrayHasher hash (xs @ [x]) = ArrayHasher hash (xs @ [y])"
  shows "hash x = hash y"
proof -
  have cancel: "a = b" if "h XOR a = h XOR b" for h a b :: u32
    using that by (metis xor.left_neutral xor.assoc xor_self_eq)
  show ?thesis
    using assms cancel unfolding ArrayHasher_def by fastforce
qed

end
