(* ===== verification/Connection.thy ===== *)
theory Connection
  imports Firmware
begin

text \<open>
  The HTTP server and the network it is served on: the station (\<open>ocs_net/sta_network.cpp\<close>) tells the pipeline
  (\<open>ocs_pipeline/httpserver/http_pipeline.cpp\<close>) what happens to its link, and the pipeline starts and stops the server
  (\<open>ocs_http/server.cpp\<close>).
\<close>

text \<open>Calls of the library that never fail.\<close>

definition httpd_starts :: "'w httpd_api \<Rightarrow> bool" where
  "httpd_starts api \<longleftrightarrow> (\<forall>port n w. fst (hd_start api port n w) \<noteq> None)
     \<and> (\<forall>handle path w. fst (hd_register_uri_handler api handle path w))"

definition httpd_stops :: "'w httpd_api \<Rightarrow> bool" where
  "httpd_stops api \<longleftrightarrow> (\<forall>handle w. fst (hd_stop api handle w))"

lemma Server_register_uris_starts:
  assumes "httpd_starts api"
  shows "\<exists>w'. Server_register_uris api handle endpoints w = Inr (OK, w')"
proof (induction endpoints arbitrary: w)
  case (Cons endpoint endpoints)
  obtain path f where e: "endpoint = (path, f)" by fastforce
  obtain w1 where "hd_register_uri_handler api handle path w = (True, w1)"
    using assms unfolding httpd_starts_def by (metis prod.collapse)
  then show ?case using Cons.IH [of w1] e by auto
qed simp

text \<open>What the two events do to the server.\<close>

lemma handle_connect_server:
  "\<exists>handle. fst (nh_handle_connect (HttpPipeline_network_handler api panic) (s, w)) \<in> {s, s\<lparr>srv_handle := Some handle\<rparr>}"
  by (auto simp: HttpPipeline_network_handler_def HttpPipeline_handle_connect_def Server_start_def Let_def
      split: option.splits prod.splits sum.splits)

lemma handle_connect_starts:
  assumes "httpd_starts api"
  shows "srv_handle (fst (nh_handle_connect (HttpPipeline_network_handler api panic) (s, w))) \<noteq> None"
proof -
  obtain handle w1 where h: "hd_start api (srv_port s) (srv_max_uri_handlers s) w = (Some handle, w1)"
    using assms unfolding httpd_starts_def by (metis option.exhaust prod.collapse)
  obtain w2 where "Server_register_uris api handle (srv_endpoints_get s) w1 = Inr (OK, w2)"
    using Server_register_uris_starts [OF assms] by blast
  then show ?thesis
    using h by (simp add: HttpPipeline_network_handler_def HttpPipeline_handle_connect_def Server_start_def Let_def)
qed

lemma handle_disconnect_server:
  assumes "httpd_stops api"
  shows "fst (nh_handle_disconnect (HttpPipeline_network_handler api panic) (s, w)) = s\<lparr>srv_handle := None\<rparr>"
proof (cases "srv_handle s")
  case (Some handle)
  obtain w1 where "hd_stop api handle w = (True, w1)"
    using assms unfolding httpd_stops_def by (metis prod.collapse)
  then show ?thesis
    using Some by (simp add: HttpPipeline_network_handler_def HttpPipeline_handle_disconnect_def Server_stop_def Let_def)
qed (simp add: HttpPipeline_network_handler_def HttpPipeline_handle_disconnect_def Server_stop_def Let_def)

text \<open>The server runs only while the station is connected, and always then if it can be started.\<close>

definition server_follows :: "bool \<Rightarrow> sta_link \<Rightarrow> 'w Server \<Rightarrow> 'w Server \<Rightarrow> bool" where
  "server_follows starts l s0 s \<longleftrightarrow> (srv_handle s \<noteq> None \<longrightarrow> lk_connected l)
     \<and> (starts \<and> lk_connected l \<longrightarrow> srv_handle s \<noteq> None) \<and> srv_endpoints_get s = srv_endpoints_get s0"

lemma StaNetwork_event_server:
  assumes "httpd_stops api" and "\<And>sw. fst (snd (wd_connect wd sw)) = fst sw" and "event_ok e"
    and "server_follows (httpd_starts api) l s0 (fst sw)"
    and "StaNetwork_handle_event wd (HttpPipeline_network_handler api panic) e (n, sw) = Inr (n', sw')"
  shows "server_follows (httpd_starts api) (link_step m e l) s0 (fst sw')"
proof -
  let ?h = "HttpPipeline_network_handler api panic"
  have down: "server_follows (httpd_starts api) l' s0 (fst (nh_handle_disconnect ?h sw1))"
    if "fst sw1 = fst sw" "\<not> lk_connected l'" for sw1 l'
    using that assms(4) handle_disconnect_server [OF assms(1), of panic "fst sw1" "snd sw1"]
    by (cases sw1) (simp add: server_follows_def)
  have up: "server_follows (httpd_starts api) l' s0 (fst (nh_handle_connect ?h sw))" if "lk_connected l'" for l'
    using that assms(4) handle_connect_server [of api panic "fst sw" "snd sw"]
      handle_connect_starts [of api panic "fst sw" "snd sw"]
    by (auto simp: server_follows_def)
  show ?thesis
  proof (cases e)
    case (WIFI_EVENT e')
    show ?thesis
    proof (cases e')
      case (WIFI_EVENT_STA_DISCONNECTED d)
      then obtain reason where "d = Some reason" using assms(3) WIFI_EVENT by (cases d) (auto simp: event_ok_def)
      then have "sw' \<in> {nh_handle_disconnect ?h sw, nh_handle_disconnect ?h (snd (wd_connect wd sw))}"
        using assms(5) WIFI_EVENT WIFI_EVENT_STA_DISCONNECTED
        by (auto simp: StaNetwork_handle_event_def StaNetwork_handle_wifi_event_def StaNetwork_handle_sta_disconnected_def
            Let_def split: if_splits)
      then show ?thesis
        using down [of sw] down [OF assms(2)] WIFI_EVENT WIFI_EVENT_STA_DISCONNECTED by auto
    qed (use assms(2) [of sw] assms(4,5) WIFI_EVENT in \<open>auto simp: StaNetwork_handle_event_def StaNetwork_handle_wifi_event_def
        StaNetwork_handle_sta_start_def\<close>)
  next
    case (IP_EVENT e')
    then show ?thesis
      using assms(4,5) up
      by (cases e') (auto simp: StaNetwork_handle_event_def StaNetwork_handle_ip_event_def StaNetwork_handle_sta_got_ip_def)
  next
    case (OTHER_EVENT b)
    then show ?thesis using assms(3) by (simp add: event_ok_def)
  qed
qed

lemma StaNetwork_run_server:
  assumes "httpd_stops api" and "\<And>sw. fst (snd (wd_connect wd sw)) = fst sw"
  shows "list_all event_ok es \<Longrightarrow> server_follows (httpd_starts api) l s0 (fst sw)
    \<Longrightarrow> StaNetwork_run wd (HttpPipeline_network_handler api panic) es (n, sw) = Inr (n', sw')
    \<Longrightarrow> server_follows (httpd_starts api) (fold (link_step m) es l) s0 (fst sw')"
proof (induction es arbitrary: l n sw)
  case (Cons e es)
  obtain n1 sw1 where e: "StaNetwork_handle_event wd (HttpPipeline_network_handler api panic) e (n, sw) = Inr (n1, sw1)"
    and r: "StaNetwork_run wd (HttpPipeline_network_handler api panic) es (n1, sw1) = Inr (n', sw')"
    using Cons.prems(3) by (auto split: sum.splits)
  have "server_follows (httpd_starts api) (link_step m e l) s0 (fst sw1)"
    using StaNetwork_event_server [OF assms(1) _ _ Cons.prems(2) e] assms(2) Cons.prems(1) by simp
  from Cons.IH [OF _ this r] Cons.prems(1) show ?case by simp
qed simp

text \<open>
  C22. The server follows the station: after any sequence of events, with the retries and repeated disconnections in
  it, the server runs only if the last of connection and disconnection was a connection, and it has the endpoints
  that were added. If the library can start a server, it runs exactly then.
\<close>

theorem server_follows_station:
  assumes "list_all event_ok es" and "srv_handle s = None" and "httpd_stops api"
    and "\<And>sw. fst (snd (wd_connect wd sw)) = fst sw"
  shows "\<exists>n s' w'. StaNetwork_run wd (HttpPipeline_network_handler api panic) es (StaNetwork_new p, (s, w)) = Inr (n, (s', w'))
    \<and> (let connected = lk_connected (fold (link_step (unat (sp_max_retry_count p))) es link_init) in
        (srv_handle s' \<noteq> None \<longrightarrow> connected) \<and> (httpd_starts api \<and> connected \<longrightarrow> srv_handle s' \<noteq> None)
        \<and> srv_endpoints_get s' = srv_endpoints_get s)"
proof -
  let ?m = "unat (sp_max_retry_count p)"
  have p: "sta_params (StaNetwork_new p) = p" by (simp add: StaNetwork_new_def StaNetwork_init_def)
  obtain n sw' where r: "StaNetwork_run wd (HttpPipeline_network_handler api panic) es (StaNetwork_new p, (s, w)) = Inr (n, sw')"
    using sta_refines_run [OF sta_refines_init assms(1), of ?m p wd "HttpPipeline_network_handler api panic" "(s, w)"] p by auto
  have "server_follows (httpd_starts api) link_init s (fst (s, w))"
    using assms(2) by (simp add: server_follows_def link_init_def)
  from StaNetwork_run_server [OF assms(3,4,1) this r, of ?m] r show ?thesis
    by (cases sw') (simp add: server_follows_def Let_def)
qed

text \<open>For the witness: a driver that does nothing, and a station that is connected, drops twice and connects again.\<close>

definition idle_wifi :: "'w wifi_driver" where
  "idle_wifi = \<lparr>wd_start = Pair True, wd_stop = Pair True, wd_connect = Pair True, wd_ap_rssi = (\<lambda>_. None), wd_ip_addr = (\<lambda>_. None)\<rparr>"

theorem server_follows_station_witness:
  "\<exists>n s' w'. StaNetwork_run idle_wifi (HttpPipeline_network_handler log_api (\<lambda>_ w. w))
      [WIFI_EVENT WIFI_EVENT_STA_START, IP_EVENT IP_EVENT_STA_GOT_IP, sta_drop 8, sta_drop 201, IP_EVENT IP_EVENT_STA_GOT_IP]
      (StaNetwork_new \<lparr>sp_max_retry_count = 1, sp_ssid = ''a'', sp_password = ''b''\<rparr>, (Server_init 80 8, []))
    = Inr (n, (s', w')) \<and> srv_handle s' \<noteq> None"
proof -
  let ?es = "[WIFI_EVENT WIFI_EVENT_STA_START, IP_EVENT IP_EVENT_STA_GOT_IP, sta_drop 8, sta_drop 201, IP_EVENT IP_EVENT_STA_GOT_IP]"
  let ?s = "Server_init 80 8 :: http_log list Server"
  have es: "list_all event_ok ?es" by (simp add: event_ok_def sta_drop_def)
  have s: "srv_handle ?s = None" by (simp add: Server_init_def)
  have api: "httpd_stops log_api" "httpd_starts log_api"
    by (simp_all add: httpd_stops_def httpd_starts_def log_api_def)
  have wd: "fst (snd (wd_connect idle_wifi sw)) = fst sw" for sw :: "http_log list Server \<times> http_log list"
    by (simp add: idle_wifi_def)
  from server_follows_station [OF es s api(1) wd, of "\<lambda>_ w. w" "\<lparr>sp_max_retry_count = 1, sp_ssid = ''a'', sp_password = ''b''\<rparr>" "[]"]
  show ?thesis using api(2) by (auto simp: sta_drop_def Let_def)
qed

end
