(* ===== verification/Spec2Isabelle.thy ===== *)
theory Spec2Isabelle
  imports Algo Strings Timing Storage Control Diagnostic Core Scheduler Deferred Json RomScan Ds18b20 Floats Analog
    Sht41 Bme280 Sync Security System Net Http Ds18b20Http Pipelines Tools
    Firmware Api Locks Cadence Requests Platform
    Connection
begin

text \<open>
  A model of \<open>esp-components\<close>, the C++ components from which firmware for sensors and actuators on ESP32 boards
  is put together, with the properties that make the components correct. Paths are relative to
  \<open>src/components\<close> unless they start with \<open>src\<close>.

  \<^bold>\<open>The program.\<close> One main task runs a cooperative scheduler: sensors, the savers of persistent state and the
  queue of deferred functions are tasks that it runs at their intervals. A sensor reads a device on a bus (1-Wire,
  I2C, SPI, the converter), checks what it read and keeps the last data; state machines and counters keep their
  state in the non-volatile storage and save it before a reboot. The HTTP server runs in another task: its
  handlers format the data as JSON documents, or hand a function to the queue of a scheduler and wait for it on a
  condition variable. The network tells the server when it is connected. A pipeline is a class that creates the
  objects of one part and registers them with what the parts share.

  \<^bold>\<open>How it is modelled.\<close> A component is a record of its fields and one definition per function of the code, which
  takes and returns the record and the state \<open>'w\<close> of the rest of the system. A function with a status returns the
  \<open>status_code\<close> of the code; a failed assertion and undefined behaviour are values of \<open>fault\<close> (type \<open>checked\<close>).
  Integers of the code are words where their width can matter, and HOL numbers where it cannot: intervals, sizes,
  and the \<^verbatim>\<open>int64_t\<close> times. Floating point is exact rationals with the rounding of IEEE 754 written out. A loop that
  need not end is a \<open>partial_function (option)\<close>, whose value \<open>None\<close> says that it does not return: there is no fuel
  in any definition. What is not under \<open>src\<close> (the ESP-IDF, FreeRTOS, cJSON, mbedTLS, the devices on a bus) is an
  argument of the definitions that use it; a property that relies on it says what it documents in a predicate
  (\<open>nvs_laws\<close>, \<open>search_laws\<close>, \<open>spi_device\<close>, \<open>httpd_match\<close>, \<open>httpd_registers\<close>), for which there is a concrete
  instance. Virtual functions are the fields of a record (\<open>IStorage\<close>, \<open>ICounter\<close>, \<open>IAdc\<close>, \<open>IMdnsDriver\<close>). Objects
  that tasks share by reference live in slots of the state.

  \<^bold>\<open>Theories and sources.\<close>

  \<^item> \<open>Prelude\<close>: status codes and early returns (\<open>ocs_status\<close>), faults, words, little-endian layout.
  \<^item> \<open>Algo\<close>, \<open>Strings\<close>, \<open>Timing\<close>, \<open>Floats\<close>: \<open>ocs_algo\<close> (bits, checksums, strings, URIs, time, rounding) and
    the rate limiter of \<open>ocs_core\<close>.
  \<^item> \<open>Core\<close>: versions and byte streams of \<open>ocs_core\<close>. \<open>Sync\<close>, \<open>Locks\<close>: its condition variable, flags, mutexes and
    guard, where the tasks interleave by a step relation.
  \<^item> \<open>Storage\<close>, \<open>Diagnostic\<close>, \<open>Control\<close>: the storage (\<open>ocs_storage\<close>) and its clients, the counters
    (\<open>ocs_diagnostic\<close>) and the persistent state machine (\<open>ocs_control\<close>).
  \<^item> \<open>Scheduler\<close>, \<open>Cadence\<close>, \<open>Deferred\<close>: \<open>ocs_scheduler\<close>, the periodic scheduler and how late its tasks can be, the
    event-driven scheduler, the queue of functions.
  \<^item> \<open>OneWire\<close>, \<open>RomScan\<close>, \<open>Ds18b20\<close>: the 1-Wire bus, the search for devices (\<open>ocs_onewire\<close>), the sensor.
  \<^item> \<open>I2c\<close>, \<open>Sht41\<close>; \<open>Bme280\<close>; \<open>Analog\<close>: the other sensors of \<open>ocs_sensor\<close> and what they use of \<open>ocs_io\<close>.
  \<^item> \<open>Security\<close>, \<open>System\<close>, \<open>Net\<close>: \<open>ocs_security\<close>, \<open>ocs_system\<close>, \<open>ocs_net\<close>.
  \<^item> \<open>Json\<close>, \<open>Http\<close>, \<open>Ds18b20Http\<close>: \<open>ocs_fmt\<close>, the formatters and handlers of \<open>ocs_pipeline\<close>, \<open>ocs_http\<close>, the store
    of the DS18B20 sensors.
  \<^item> \<open>Pipelines\<close>, \<open>Firmware\<close>: what puts the parts together, in \<open>ocs_pipeline\<close>, \<open>ocs_sensor\<close>, \<open>ocs_control\<close>, \<open>ocs_io\<close>.
  \<^item> \<open>Tools\<close>: the three firmwares of \<open>src/tools\<close>. \<open>Platform\<close>: what the components create of FreeRTOS and the
    ESP-IDF and give back, the report of the tasks, and the guard of the scheduler.
  \<^item> \<open>Api\<close>, \<open>Requests\<close>, \<open>Connection\<close>: what a client of a device gets, how a request meets the tasks of the device, and
    when the server runs.

  \<^bold>\<open>Interfaces.\<close> The contracts between components are locales, and each is interpreted on the model of the code:
  \<open>key_value_store\<close> by the NVS storage and by the storage of the tests, with the counters, the state machine and
  the sensors verified against it; \<open>task_registry\<close> by both schedulers; \<open>json_formatter\<close> by every formatter;
  \<open>locker\<close> and \<open>recursive_locker\<close> by the mutexes.

  \<^bold>\<open>What is shown.\<close> Invariants of the schedulers, the state machine and the condition variable for every reachable
  state; that what is stored is read again, over the NVS, across reboots and through text forms; refinements of the
  registers behind SPI and of the station by the events of its network; what each sensor accepts and computes;
  that loops end, and which do not; that a request reaches its endpoint and what it is answered. Some properties
  state what the code does where it is not what it means to do; these are kind \<open>error\<close>, or name the case in their
  hypotheses.

  \<^bold>\<open>Not modelled.\<close> Logging, and what is computed only to be logged (the estimated measurement time of the BME280).
  Exhausted memory in a constructor, which is an assertion everywhere; the allocations of a request are modelled.
  Accessors of members. The registration of event handlers and the set-up of the Wi-Fi driver in the constructors of
  the networks. The hash and the equality of strings in containers, which have no effect on a map. The doubles of
  the unit tests, but for the storage. What the ESP-IDF, FreeRTOS, cJSON, lwIP and Mbed TLS do is a parameter, with
  what is relied on as a hypothesis.

  Preemption is modelled where tasks meet: in \<open>Sync\<close>, \<open>Locks\<close>, \<open>Deferred\<close>, \<open>Requests\<close>, between the two calls of
  the report in \<open>Platform\<close> and, for the handler of the DS18B20, in \<open>Ds18b20Http\<close>. A run of the queue of functions is
  one step, in which other tasks may add functions whenever one is called. The data of a sensor is an atomic value,
  so the tasks that read it get one that was written.
\<close>

end
